(* ===== verification/Prelude.thy ===== *)
theory Prelude
  imports Main "HOL-Library.Word" "HOL-Library.AList" "HOL-Library.Multiset"
begin

text \<open>
  What every theory of the development shares: machine integers and their saturating and
  overflow-checked arithmetic, little-endian byte strings, the result type of fallible Rust
  code with its sequencing, loops with early return, and the laws of the serialisation
  library (\<^verbatim>\<open>bincode\<close>), which is not part of the repository and is a parameter
  of the model.
\<close>

unbundle bit_operations_syntax

section \<open>Machine integers\<close>

type_synonym u8 = "8 word"
type_synonym u32 = "32 word"
type_synonym u64 = "64 word"
type_synonym bytes = "u8 list"

named_theorems word_nat_simps "unat of the arithmetic the code uses"
named_theorems result_simps "when a sequenced computation is Ok, Err or Panic"

text \<open>Rust's \<^verbatim>\<open>saturating_add\<close> and \<^verbatim>\<open>saturating_sub\<close>.\<close>

definition saturating_add :: "'a::len word \<Rightarrow> 'a word \<Rightarrow> 'a word" where
  "saturating_add a b = (if unat a + unat b < 2 ^ LENGTH('a) then a + b else - 1)"

definition saturating_sub :: "'a::len word \<Rightarrow> 'a word \<Rightarrow> 'a word" where
  "saturating_sub a b = (if b \<le> a then a - b else 0)"

lemma unat_max_word: "unat (- 1 :: 'a::len word) = 2 ^ LENGTH('a) - 1"
  by (simp add: unsigned_minus_1_eq_mask mask_eq_exp_minus_1)

lemma unat_saturating_add [word_nat_simps]:
  "unat (saturating_add a b) = min (unat a + unat b) (2 ^ LENGTH('a) - 1)"
  for a b :: "'a::len word"
proof (cases "unat a + unat b < 2 ^ LENGTH('a)")
  case True
  then show ?thesis
    by (simp add: saturating_add_def unat_word_ariths)
next
  case False
  then show ?thesis
    by (simp add: saturating_add_def unat_max_word)
qed

lemma unat_saturating_sub [word_nat_simps]: "unat (saturating_sub a b) = unat a - unat b"
proof (cases "b \<le> a")
  case True
  then show ?thesis by (simp add: saturating_sub_def unat_sub)
next
  case False
  then have "unat a \<le> unat b" by (simp add: word_le_nat_alt)
  with False show ?thesis by (simp add: saturating_sub_def)
qed

lemma saturating_add_0 [simp]: "saturating_add a 0 = a"
  by (simp add: saturating_add_def)

lemma saturating_sub_0 [simp]: "saturating_sub a 0 = a"
  by (simp add: saturating_sub_def)

lemma saturating_add_exact:
  "unat a + unat b < 2 ^ LENGTH('a) \<Longrightarrow> unat (saturating_add a b) = unat a + unat b"
  for a b :: "'a::len word"
  by (simp add: word_nat_simps)

lemma unat_le_max: "unat a \<le> 2 ^ LENGTH('a) - 1" for a :: "'a::len word"
proof -
  have "unat a < 2 ^ LENGTH('a)" by (rule unsigned_less)
  then show ?thesis by linarith
qed

lemma le_saturating_add: "a \<le> saturating_add a b"
  using unat_le_max [of a] by (simp add: word_le_nat_alt word_nat_simps)

lemma saturating_sub_add_cancel:
  "b \<le> a \<Longrightarrow> saturating_add (saturating_sub a b) b = a"
  by (simp add: saturating_sub_def saturating_add_def unat_sub word_le_nat_alt)

section \<open>Results, panics and early returns\<close>

text \<open>
  A fallible Rust function returns \<^verbatim>\<open>Result<A, E>\<close>, and any function may panic (an
  index out of range, \<^verbatim>\<open>expect\<close> on an error, an arithmetic overflow in the
  profile \<^verbatim>\<open>cargo run\<close> builds, which is the one the readme names).
  \<open>and_then\<close> is the \<^verbatim>\<open>?\<close> operator: the rest of the body runs on \<open>Ok\<close> only.
\<close>

datatype ('a, 'e) result = Ok 'a | Err 'e | Panic

primrec and_then :: "('a, 'e) result \<Rightarrow> ('a \<Rightarrow> ('b, 'e) result) \<Rightarrow> ('b, 'e) result" where
  "and_then (Ok a) f = f a"
| "and_then (Err e) f = Err e"
| "and_then Panic f = Panic"

primrec map_err :: "('e \<Rightarrow> 'f) \<Rightarrow> ('a, 'e) result \<Rightarrow> ('a, 'f) result" where
  "map_err f (Ok a) = Ok a"
| "map_err f (Err e) = Err (f e)"
| "map_err f Panic = Panic"

primrec ok_or :: "'a option \<Rightarrow> 'e \<Rightarrow> ('a, 'e) result" where
  "ok_or None e = Err e"
| "ok_or (Some a) e = Ok a"

text \<open>\<^verbatim>\<open>Option::unwrap\<close>.\<close>

primrec unwrap :: "'a option \<Rightarrow> ('a, 'e) result" where
  "unwrap None = Panic"
| "unwrap (Some a) = Ok a"

fun is_ok :: "('a, 'e) result \<Rightarrow> bool" where
  "is_ok (Ok a) = True"
| "is_ok _ = False"

lemma and_then_Ok_iff [simp, result_simps]:
  "and_then r f = Ok b \<longleftrightarrow> (\<exists>a. r = Ok a \<and> f a = Ok b)"
  by (cases r) auto

lemma and_then_Err_iff [result_simps]:
  "and_then r f = Err e \<longleftrightarrow> r = Err e \<or> (\<exists>a. r = Ok a \<and> f a = Err e)"
  by (cases r) auto

lemma and_then_Panic_iff [result_simps]:
  "and_then r f = Panic \<longleftrightarrow> r = Panic \<or> (\<exists>a. r = Ok a \<and> f a = Panic)"
  by (cases r) auto

lemma and_then_cong [fundef_cong]:
  "r = r' \<Longrightarrow> (\<And>a. r' = Ok a \<Longrightarrow> f a = g a) \<Longrightarrow> and_then r f = and_then r' g"
  by (cases r') auto

lemma and_then_assoc: "and_then (and_then r f) g = and_then r (\<lambda>a. and_then (f a) g)"
  by (cases r) auto

lemma ok_or_iff [simp, result_simps]:
  "ok_or x e = Ok a \<longleftrightarrow> x = Some a"
  "ok_or x e = Err e' \<longleftrightarrow> x = None \<and> e' = e"
  "ok_or x e = Panic \<longleftrightarrow> False"
  by (cases x; auto)+

lemma unwrap_iff [simp, result_simps]:
  "unwrap x = Ok a \<longleftrightarrow> x = Some a"
  "unwrap x = Err e \<longleftrightarrow> False"
  "unwrap x = Panic \<longleftrightarrow> x = None"
  by (cases x; auto)+

lemma map_err_iff [simp, result_simps]:
  "map_err f r = Ok a \<longleftrightarrow> r = Ok a"
  "map_err f r = Err e' \<longleftrightarrow> (\<exists>e. r = Err e \<and> e' = f e)"
  "map_err f r = Panic \<longleftrightarrow> r = Panic"
  by (cases r; auto)+

lemma is_ok_iff: "is_ok r \<longleftrightarrow> (\<exists>a. r = Ok a)"
  by (cases r) auto

text \<open>A \<^verbatim>\<open>for\<close> loop whose body may return early: it stops at the first failure.\<close>

primrec for_each :: "('x \<Rightarrow> 's \<Rightarrow> ('s, 'e) result) \<Rightarrow> 'x list \<Rightarrow> 's \<Rightarrow> ('s, 'e) result" where
  "for_each f [] s = Ok s"
| "for_each f (x # xs) s = and_then (f x s) (for_each f xs)"

lemma for_each_append:
  "for_each f (xs @ ys) s = and_then (for_each f xs s) (for_each f ys)"
  by (induction xs arbitrary: s) (auto simp: and_then_assoc cong: and_then_cong)

lemma for_each_invariant:
  assumes "for_each f xs s = Ok s'" and "P s"
    and "\<And>x s s'. x \<in> set xs \<Longrightarrow> P s \<Longrightarrow> f x s = Ok s' \<Longrightarrow> P s'"
  shows "P s'"
  using assms
proof (induction xs arbitrary: s)
  case Nil
  then show ?case by simp
next
  case (Cons x xs)
  then obtain t where "f x s = Ok t" and "for_each f xs t = Ok s'" by auto
  with Cons show ?case by (metis list.set_intros)
qed

text \<open>\<^verbatim>\<open>iter().map(..).collect::<Result<Vec<_>>>()\<close>: the first failure is the result.\<close>

primrec collect_results :: "('x \<Rightarrow> ('y, 'e) result) \<Rightarrow> 'x list \<Rightarrow> ('y list, 'e) result" where
  "collect_results f [] = Ok []"
| "collect_results f (x # xs) =
     and_then (f x) (\<lambda>y. and_then (collect_results f xs) (\<lambda>ys. Ok (y # ys)))"

lemma collect_results_Ok:
  "(\<And>x. x \<in> set xs \<Longrightarrow> f x = Ok (g x)) \<Longrightarrow> collect_results f xs = Ok (map g xs)"
  by (induction xs) auto

section \<open>Overflow-checked arithmetic\<close>

text \<open>
  The operators \<^verbatim>\<open>+\<close>, \<^verbatim>\<open>-\<close> and \<^verbatim>\<open>*\<close> on an unsigned type, as built by
  \<^verbatim>\<open>cargo run\<close>: an overflow is a panic.
\<close>

definition add_checked :: "'a::len word \<Rightarrow> 'a word \<Rightarrow> ('a word, 'e) result" where
  "add_checked a b = (if unat a + unat b < 2 ^ LENGTH('a) then Ok (a + b) else Panic)"

definition sub_checked :: "'a::len word \<Rightarrow> 'a word \<Rightarrow> ('a word, 'e) result" where
  "sub_checked a b = (if b \<le> a then Ok (a - b) else Panic)"

definition mul_checked :: "'a::len word \<Rightarrow> 'a word \<Rightarrow> ('a word, 'e) result" where
  "mul_checked a b = (if unat a * unat b < 2 ^ LENGTH('a) then Ok (a * b) else Panic)"

lemma add_checked_Ok [result_simps]:
  "add_checked a b = Ok c \<longleftrightarrow> unat a + unat b < 2 ^ LENGTH('a) \<and> c = a + b"
  for a b :: "'a::len word"
  by (auto simp: add_checked_def)

lemma sub_checked_Ok [result_simps]: "sub_checked a b = Ok c \<longleftrightarrow> b \<le> a \<and> c = a - b"
  by (auto simp: sub_checked_def)

lemma mul_checked_Ok [result_simps]:
  "mul_checked a b = Ok c \<longleftrightarrow> unat a * unat b < 2 ^ LENGTH('a) \<and> c = a * b"
  for a b :: "'a::len word"
  by (auto simp: mul_checked_def)

lemma checked_not_Err [simp]:
  "add_checked a b \<noteq> Err e" "sub_checked a b \<noteq> Err e" "mul_checked a b \<noteq> Err e"
  by (auto simp: add_checked_def sub_checked_def mul_checked_def)

lemma unat_add_exact: "unat a + unat b < 2 ^ LENGTH('a) \<Longrightarrow> unat (a + b) = unat a + unat b"
  for a b :: "'a::len word"
  by (simp add: unat_word_ariths)

lemma unat_mul_exact: "unat a * unat b < 2 ^ LENGTH('a) \<Longrightarrow> unat (a * b) = unat a * unat b"
  for a b :: "'a::len word"
  by (simp add: unat_word_ariths)

lemma unat_of_nat_exact: "n < 2 ^ LENGTH('a) \<Longrightarrow> unat (of_nat n :: 'a::len word) = n"
  by (simp add: unat_of_nat)

section \<open>Little-endian byte strings\<close>

text \<open>\<^verbatim>\<open>to_le_bytes\<close> and \<^verbatim>\<open>from_le_bytes\<close> of the standard library.\<close>

primrec le_bytes :: "nat \<Rightarrow> 'a::len word \<Rightarrow> bytes" where
  "le_bytes 0 w = []"
| "le_bytes (Suc n) w = ucast w # le_bytes n (drop_bit 8 w)"

primrec of_le_bytes :: "bytes \<Rightarrow> 'a::len word" where
  "of_le_bytes [] = 0"
| "of_le_bytes (b # bs) = (ucast b OR push_bit 8 (of_le_bytes bs))"

lemma length_le_bytes [simp]: "length (le_bytes n w) = n"
  by (induction n arbitrary: w) auto

lemma nth_le_bytes: "i < n \<Longrightarrow> le_bytes n w ! i = ucast (drop_bit (8 * i) w)"
  by (induction n arbitrary: w i) (auto simp: nth_Cons add.commute split: nat.splits)

lemma bit_of_le_bytes:
  "bit (of_le_bytes bs :: 'a::len word) k \<longleftrightarrow>
     k < LENGTH('a) \<and> k div 8 < length bs \<and> bit (bs ! (k div 8)) (k mod 8)"
proof (induction bs arbitrary: k)
  case Nil
  then show ?case by simp
next
  case (Cons b bs)
  show ?case
  proof (cases "k < 8")
    case True
    then show ?thesis by (auto simp: bit_simps)
  next
    case False
    then obtain j where k: "k = j + 8" by (metis add.commute le_Suc_ex not_less)
    have "\<not> bit b k" using False by (auto dest: bit_imp_le_length)
    moreover have "k div 8 = Suc (j div 8)" "k mod 8 = j mod 8" by (simp_all add: k)
    ultimately show ?thesis
      using k by (auto simp: bit_simps Cons.IH)
  qed
qed

lemma of_le_bytes_le_bytes:
  "LENGTH('a) \<le> 8 * n \<Longrightarrow> of_le_bytes (le_bytes n w) = w" for w :: "'a::len word"
proof (rule bit_word_eqI)
  fix k assume n: "LENGTH('a) \<le> 8 * n" and k: "k < LENGTH('a)"
  then have "k div 8 < n" by linarith
  moreover have "8 * (k div 8) + k mod 8 = k" by simp
  ultimately show "bit (of_le_bytes (le_bytes n w) :: 'a word) k = bit w k"
    using k by (simp add: bit_of_le_bytes nth_le_bytes bit_simps del: mult_div_mod_eq)
qed

lemma le_bytes_of_le_bytes:
  assumes "length bs = n" and "LENGTH('a) = 8 * n"
  shows "le_bytes n (of_le_bytes bs :: 'a::len word) = bs"
proof (rule nth_equalityI)
  show "length (le_bytes n (of_le_bytes bs :: 'a word)) = length bs"
    using assms by simp
  fix i assume "i < length (le_bytes n (of_le_bytes bs :: 'a word))"
  then have i: "i < n" by simp
  show "le_bytes n (of_le_bytes bs :: 'a word) ! i = bs ! i"
  proof (rule bit_word_eqI)
    fix k :: nat assume "k < LENGTH(8)"
    then have k: "k < 8" by simp
    then have "8 * i + k < 8 * n" using i by linarith
    with i k assms show "bit (le_bytes n (of_le_bytes bs :: 'a word) ! i) k = bit (bs ! i) k"
      by (simp add: nth_le_bytes bit_simps bit_of_le_bytes add.commute)
  qed
qed

lemma le_bytes_inj: "LENGTH('a) \<le> 8 * n \<Longrightarrow> le_bytes n v = le_bytes n w \<longleftrightarrow> v = w"
  for v w :: "'a::len word"
  by (metis of_le_bytes_le_bytes)

lemma singletonE_length: "length xs = 1 \<Longrightarrow> \<exists>x. xs = [x]"
  by (cases xs) auto

section \<open>Association lists as hash maps\<close>

text \<open>
  A \<^verbatim>\<open>HashMap\<close> or \<^verbatim>\<open>DashMap\<close> is an association list with distinct keys: the
  list's order is the iteration order, which the library leaves unspecified.
\<close>

type_synonym ('k, 'v) hashmap = "('k \<times> 'v) list"

definition wf_map :: "('k, 'v) hashmap \<Rightarrow> bool" where
  "wf_map m \<longleftrightarrow> distinct (map fst m)"

lemma wf_map_Nil [simp, intro]: "wf_map []"
  by (simp add: wf_map_def)

lemma wf_map_update [simp, intro]: "wf_map m \<Longrightarrow> wf_map (AList.update k v m)"
  by (simp add: wf_map_def distinct_update)

lemma wf_map_delete [simp, intro]: "wf_map m \<Longrightarrow> wf_map (AList.delete k m)"
  by (simp add: wf_map_def distinct_delete)

lemma map_of_update: "map_of (AList.update k v m) = (map_of m)(k \<mapsto> v)"
  by (rule update_conv')

lemma map_of_delete: "map_of (AList.delete k m) = (map_of m)(k := None)"
  by (rule delete_conv')

text \<open>Two lists of the same finite map enumerate it in two orders.\<close>

lemma wf_map_same_entries:
  assumes "wf_map m" and "wf_map m'" and "map_of m = map_of m'"
  shows "mset m = mset m'"
proof -
  have "set m = set m'"
    using assms(1,2) assms(3) [THEN fun_cong]
    by (metis map_of_eq_Some_iff subrelI subset_antisym wf_map_def)
  moreover have "distinct m" "distinct m'"
    using assms by (auto simp: wf_map_def distinct_map)
  ultimately show ?thesis by (metis set_eq_iff_mset_eq_distinct)
qed

section \<open>The serialisation library\<close>

text \<open>
  \<^verbatim>\<open>bincode\<close> with the encodings \<^verbatim>\<open>serde\<close> derives is a dependency, so each use of it is a
  \<open>codec\<close> the model takes as an argument: \<open>ser\<close> is \<^verbatim>\<open>serialize\<close> and \<open>de\<close> is
  \<^verbatim>\<open>deserialize\<close>, with \<open>None\<close> for an error. The locales state what its documentation
  promises. \<^verbatim>\<open>bincode::options()\<close> rejects bytes after the value (\<open>strict_codec\<close>);
  the free function \<^verbatim>\<open>bincode::deserialize\<close> allows them (\<open>lenient_codec\<close>).
  \<open>valid\<close> is the range of values a machine can hold: all of them for a type without a
  vector, and vectors of fewer than \<open>2 ^ 64\<close> elements otherwise.
\<close>

record 'a codec =
  ser :: "'a \<Rightarrow> bytes option"
  de :: "bytes \<Rightarrow> 'a option"

locale codec_law =
  fixes c :: "'a codec" and valid :: "'a \<Rightarrow> bool"
  assumes ser_total: "\<exists>bs. ser c x = Some bs"

locale strict_codec = codec_law +
  assumes de_ser: "valid x \<Longrightarrow> ser c x = Some bs \<Longrightarrow> de c bs = Some x"
    and de_exact: "de c bs = Some x \<Longrightarrow> ser c x = Some bs"
begin

lemma de_iff: "valid x \<Longrightarrow> de c bs = Some x \<longleftrightarrow> ser c x = Some bs"
  using de_ser de_exact by blast

lemma ser_inj: "valid x \<Longrightarrow> valid y \<Longrightarrow> ser c x = ser c y \<Longrightarrow> x = y"
  using de_ser ser_total by (metis option.inject)

end

locale lenient_codec = codec_law +
  assumes de_ser: "valid x \<Longrightarrow> ser c x = Some bs \<Longrightarrow> de c (bs @ t) = Some x"
    and de_prefix: "de c bs = Some x \<Longrightarrow> \<exists>p t. ser c x = Some p \<and> bs = p @ t"
begin

lemma de_ser_self: "valid x \<Longrightarrow> ser c x = Some bs \<Longrightarrow> de c bs = Some x"
  using de_ser [of x bs "[]"] by simp

lemma de_length: "de c bs = Some x \<Longrightarrow> ser c x = Some p \<Longrightarrow> length p \<le> length bs"
  using de_prefix by fastforce

end

locale sized_codec =
  fixes c :: "'a codec" and n :: nat
  assumes ser_length: "ser c x = Some bs \<Longrightarrow> length bs = n"

text \<open>
  An enum is written as its variant index, a \<^verbatim>\<open>u32\<close>, before the fields of the variant.
\<close>

locale tagged_codec =
  fixes c :: "'a codec" and tag :: "'a \<Rightarrow> u32"
  assumes ser_tag: "ser c x = Some bs \<Longrightarrow> take 4 bs = le_bytes 4 (tag x)"
begin

lemma ser_tag_eq: "ser c x = Some bs \<Longrightarrow> of_le_bytes (take 4 bs) = tag x"
  by (simp add: ser_tag of_le_bytes_le_bytes)

end

section \<open>One place of a list\<close>

lemma filter_update:
  "i < length xs \<Longrightarrow> length (filter P (xs[i := y])) + (if P (xs ! i) then 1 else 0) =
     length (filter P xs) + (if P y then 1 else 0)"
proof (induction xs arbitrary: i)
  case (Cons x xs)
  then show ?case by (cases i) auto
qed simp

text \<open>When only one element satisfies the predicate, nobody else does after its place is written.\<close>

lemma filter_sole:
  assumes "length (filter P xs) = 1" and "i < length xs" and "P (xs ! i)" and "x \<in> set (xs[i := y])" and "P x"
  shows "x = y"
proof -
  have "length (filter P (take i xs @ xs ! i # drop (Suc i) xs)) = 1"
    using assms(1,2) by (simp add: id_take_nth_drop [symmetric])
  then have "filter P (take i xs) = []" "filter P (drop (Suc i) xs) = []" using assms(3) by simp_all
  then show ?thesis using assms(2,4,5) by (auto simp: upd_conv_take_nth_drop filter_empty_conv)
qed

end
