(* ===== verification/Core_Types.thy ===== *)
theory Core_Types
  imports Prelude "HOL-Library.List_Lexorder"
begin

text \<open>
  The value types of \<^verbatim>\<open>src/types.rs\<close> and the program ids of
  \<^verbatim>\<open>src/programs/ids.rs\<close>. A \<^verbatim>\<open>[u8; 32]\<close> is a 256-bit word whose big-endian bytes
  are the array, so that every value of the type is an array of the right length and the
  order \<^verbatim>\<open>derive(Ord)\<close> gives \<^verbatim>\<open>Pubkey\<close> (lexicographic on the bytes) is the
  order of the words; both facts are proved below. Base58 and Ed25519 are libraries:
  parameters.
\<close>

section \<open>Byte arrays\<close>

type_synonym arr32 = "256 word"
type_synonym arr64 = "512 word"

definition be_bytes :: "nat \<Rightarrow> 'a::len word \<Rightarrow> bytes" where
  "be_bytes n w = rev (le_bytes n w)"

definition of_be_bytes :: "bytes \<Rightarrow> 'a::len word" where
  "of_be_bytes bs = of_le_bytes (rev bs)"

lemma length_be_bytes [simp]: "length (be_bytes n w) = n"
  by (simp add: be_bytes_def)

lemma of_be_bytes_be_bytes: "LENGTH('a) \<le> 8 * n \<Longrightarrow> of_be_bytes (be_bytes n w) = w"
  for w :: "'a::len word"
  by (simp add: of_be_bytes_def be_bytes_def of_le_bytes_le_bytes)

lemma be_bytes_of_be_bytes:
  "length bs = n \<Longrightarrow> LENGTH('a) = 8 * n \<Longrightarrow> be_bytes n (of_be_bytes bs :: 'a::len word) = bs"
  by (simp add: of_be_bytes_def be_bytes_def le_bytes_of_le_bytes)

lemma be_bytes_inj: "LENGTH('a) \<le> 8 * n \<Longrightarrow> be_bytes n v = be_bytes n w \<longleftrightarrow> v = w"
  for v w :: "'a::len word"
  by (simp add: be_bytes_def le_bytes_inj)

text \<open>The order of the words is the lexicographic order of the bytes.\<close>

lemma snoc_less_iff:
  "length xs = length ys \<Longrightarrow>
     xs @ [a] < ys @ [b] \<longleftrightarrow> xs < ys \<or> xs = ys \<and> a < b" for xs ys :: "'b::linorder list"
  by (induction xs ys rule: list_induct2) auto

lemma unat_ucast_byte: "unat (ucast w :: u8) = unat w mod 256" for w :: "'a::len word"
  by (simp add: unsigned_ucast_eq unsigned_take_bit_eq take_bit_eq_mod)

lemma unat_drop_byte: "unat (drop_bit 8 w) = unat w div 256" for w :: "'a::len word"
  by (simp only: unsigned_drop_bit_eq) (simp add: drop_bit_eq_div take_bit_nat_eq_self)

lemma less_lex_256:
  "b < 256 \<Longrightarrow> d < 256 \<Longrightarrow> 256 * a + b < 256 * c + d \<longleftrightarrow> a < c \<or> a = c \<and> b < (d::nat)"
  by (cases a c rule: linorder_cases) linarith+

lemma less_by_bytes:
  "m < n \<longleftrightarrow> m div 256 < n div 256 \<or> m div 256 = n div 256 \<and> m mod 256 < n mod (256::nat)"
  using less_lex_256 [of "m mod 256" "n mod 256" "m div 256" "n div 256"] by simp

lemma be_bytes_less_iff:
  "unat v < 256 ^ n \<Longrightarrow> unat w < 256 ^ n \<Longrightarrow> be_bytes n v < be_bytes n w \<longleftrightarrow> v < w"
  for v w :: "'a::len word"
proof (induction n arbitrary: v w)
  case 0
  then show ?case by (simp add: be_bytes_def word_less_nat_alt)
next
  case (Suc n)
  let ?v = "drop_bit 8 v" and ?w = "drop_bit 8 w"
  have small: "unat ?v < 256 ^ n" "unat ?w < 256 ^ n"
    using Suc.prems by (simp_all add: unat_drop_byte less_mult_imp_div_less mult.commute)
  have eq: "be_bytes n ?v = be_bytes n ?w \<longleftrightarrow> ?v = ?w"
    using Suc.IH small by (metis less_irrefl linorder_less_linear)
  have "be_bytes (Suc n) v < be_bytes (Suc n) w \<longleftrightarrow>
      ?v < ?w \<or> ?v = ?w \<and> (ucast v :: u8) < ucast w"
    using Suc.IH [OF small] eq by (simp add: be_bytes_def snoc_less_iff)
  also have "\<dots> \<longleftrightarrow> v < w"
    by (simp only: word_less_nat_alt word_unat_eq_iff unat_drop_byte unat_ucast_byte
        less_by_bytes [of "unat v" "unat w"])
  finally show ?case .
qed

lemma arr32_less_iff: "be_bytes 32 v < be_bytes 32 w \<longleftrightarrow> v < w" for v w :: arr32
proof -
  have "unat u < 256 ^ 32" for u :: arr32
    using unsigned_less [of u, where 'a = nat] by simp
  then show ?thesis by (intro be_bytes_less_iff)
qed

section \<open>Public keys, hashes and signatures\<close>

datatype pubkey = Pubkey arr32
datatype hash = Hash arr32
datatype signature = Signature arr64

definition pubkey_default :: pubkey where "pubkey_default = Pubkey 0"
definition hash_default :: hash where "hash_default = Hash 0"
definition signature_default :: signature where "signature_default = Signature 0"

primrec pubkey_bytes :: "pubkey \<Rightarrow> bytes" where "pubkey_bytes (Pubkey w) = be_bytes 32 w"
primrec hash_bytes :: "hash \<Rightarrow> bytes" where "hash_bytes (Hash w) = be_bytes 32 w"
primrec signature_bytes :: "signature \<Rightarrow> bytes" where
  "signature_bytes (Signature w) = be_bytes 64 w"

definition pubkey_of_bytes :: "bytes \<Rightarrow> pubkey" where
  "pubkey_of_bytes bs = Pubkey (of_be_bytes bs)"

lemma length_key_bytes [simp]:
  "length (pubkey_bytes k) = 32" "length (hash_bytes h) = 32" "length (signature_bytes s) = 64"
  by (cases k, simp, cases h, simp, cases s, simp)

lemma pubkey_of_bytes_bytes [simp]: "pubkey_of_bytes (pubkey_bytes k) = k"
  by (cases k) (simp add: pubkey_of_bytes_def of_be_bytes_be_bytes)

lemma pubkey_bytes_of_bytes: "length bs = 32 \<Longrightarrow> pubkey_bytes (pubkey_of_bytes bs) = bs"
  by (simp add: pubkey_of_bytes_def be_bytes_of_be_bytes)

lemma pubkey_bytes_inj [simp]: "pubkey_bytes k = pubkey_bytes k' \<longleftrightarrow> k = k'"
  by (metis pubkey_of_bytes_bytes)

text \<open>\<^verbatim>\<open>derive(PartialOrd, Ord)\<close> on \<^verbatim>\<open>Pubkey\<close>.\<close>

instantiation pubkey :: linorder
begin

definition less_eq_pubkey :: "pubkey \<Rightarrow> pubkey \<Rightarrow> bool" where
  "less_eq_pubkey k k' \<longleftrightarrow> (case (k, k') of (Pubkey v, Pubkey w) \<Rightarrow> v \<le> w)"

definition less_pubkey :: "pubkey \<Rightarrow> pubkey \<Rightarrow> bool" where
  "less_pubkey k k' \<longleftrightarrow> (case (k, k') of (Pubkey v, Pubkey w) \<Rightarrow> v < w)"

instance
  by standard (auto simp: less_eq_pubkey_def less_pubkey_def split: pubkey.splits)

end

lemma pubkey_less_simps [simp]:
  "Pubkey v \<le> Pubkey w \<longleftrightarrow> v \<le> w" "Pubkey v < Pubkey w \<longleftrightarrow> v < w"
  by (simp_all add: less_eq_pubkey_def less_pubkey_def)

lemma pubkey_less_bytes: "k < k' \<longleftrightarrow> pubkey_bytes k < pubkey_bytes k'"
  by (cases k; cases k') (simp add: arr32_less_iff)

section \<open>Base58 text\<close>

text \<open>
  \<^verbatim>\<open>Pubkey::from_str\<close> and \<^verbatim>\<open>Display\<close>, over the library's decoder and encoder.
\<close>

datatype parse_pubkey_error = InvalidBase58 | InvalidLength nat

definition pubkey_from_str ::
    "(string \<Rightarrow> bytes option) \<Rightarrow> string \<Rightarrow> (pubkey, parse_pubkey_error) result" where
  "pubkey_from_str bs58_decode s =
     and_then (ok_or (bs58_decode s) InvalidBase58)
       (\<lambda>bs. if length bs \<noteq> 32 then Err (InvalidLength (length bs))
             else Ok (pubkey_of_bytes bs))"

definition pubkey_to_string :: "(bytes \<Rightarrow> string) \<Rightarrow> pubkey \<Rightarrow> string" where
  "pubkey_to_string bs58_encode k = bs58_encode (pubkey_bytes k)"

locale base58 =
  fixes encode :: "bytes \<Rightarrow> string" and decode :: "string \<Rightarrow> bytes option"
  assumes decode_encode: "decode (encode bs) = Some bs"
begin

lemma from_str_to_string: "pubkey_from_str decode (pubkey_to_string encode k) = Ok k"
  by (simp add: pubkey_from_str_def pubkey_to_string_def decode_encode)

end

text \<open>
  The ids are declared by their Base58 text, a big-endian numeral in base 58 for the
  256-bit number (\<^verbatim>\<open>src/programs/ids.rs\<close>).
\<close>

definition base58_alphabet :: string where
  "base58_alphabet = ''123456789ABCDEFGHJKLMNPQRSTUVWXYZabcdefghijkmnopqrstuvwxyz''"

fun digit_in :: "string \<Rightarrow> char \<Rightarrow> int \<Rightarrow> int" where
  "digit_in [] c i = 0"
| "digit_in (a # as) c i = (if a = c then i else digit_in as c (i + 1))"

fun base58_value :: "string \<Rightarrow> int \<Rightarrow> int" where
  "base58_value [] v = v"
| "base58_value (c # cs) v = base58_value cs (58 * v + digit_in base58_alphabet c 0)"

definition declare_id :: "string \<Rightarrow> pubkey" where
  "declare_id s = Pubkey (word_of_int (base58_value s 0))"

definition SYSTEM_PROGRAM_ID :: pubkey where
  "SYSTEM_PROGRAM_ID = declare_id ''11111111111111111111111111111111''"

definition TOKEN_PROGRAM_ID :: pubkey where
  "TOKEN_PROGRAM_ID = declare_id ''TokenkegQfeZyiNwAJbNbGKPFXCWuBvf9Ss623VQ5DA''"

definition BPF_LOADER_UPGRADEABLE_PROGRAM_ID :: pubkey where
  "BPF_LOADER_UPGRADEABLE_PROGRAM_ID =
     declare_id ''BPFLoaderUpgradeab1e111111111111111111111111''"

lemma SYSTEM_PROGRAM_ID_word: "SYSTEM_PROGRAM_ID = Pubkey 0"
  by code_simp

lemma TOKEN_PROGRAM_ID_word:
  "TOKEN_PROGRAM_ID =
     Pubkey 0x06ddf6e1d765a193d9cbe146ceeb79ac1cb485ed5f5b37913a8cf5857eff00a9"
  by code_simp

lemma BPF_LOADER_ID_word:
  "BPF_LOADER_UPGRADEABLE_PROGRAM_ID =
     Pubkey 0x9a47dcebcaf4a21337a4d0440c9575be2c1df7d727c257bf92e9a7a105000000"
  by code_simp

lemmas program_id_words = SYSTEM_PROGRAM_ID_word TOKEN_PROGRAM_ID_word BPF_LOADER_ID_word

lemma program_ids_distinct [simp]:
  "SYSTEM_PROGRAM_ID \<noteq> TOKEN_PROGRAM_ID" "TOKEN_PROGRAM_ID \<noteq> SYSTEM_PROGRAM_ID"
  "SYSTEM_PROGRAM_ID \<noteq> BPF_LOADER_UPGRADEABLE_PROGRAM_ID"
  "BPF_LOADER_UPGRADEABLE_PROGRAM_ID \<noteq> SYSTEM_PROGRAM_ID"
  "TOKEN_PROGRAM_ID \<noteq> BPF_LOADER_UPGRADEABLE_PROGRAM_ID"
  "BPF_LOADER_UPGRADEABLE_PROGRAM_ID \<noteq> TOKEN_PROGRAM_ID"
  by (simp_all add: program_id_words)

section \<open>Signatures\<close>

text \<open>
  Ed25519 (\<^verbatim>\<open>ed25519-dalek\<close>) and SHA-256 (\<^verbatim>\<open>sha2\<close>) as parameters: whether 32 bytes are
  a verifying key, the two verification routines, and the digest.
\<close>

record crypto =
  key_from_bytes :: "arr32 \<Rightarrow> bool"
  key_verify :: "arr32 \<Rightarrow> bytes \<Rightarrow> arr64 \<Rightarrow> bool"
  key_verify_strict :: "arr32 \<Rightarrow> bytes \<Rightarrow> arr64 \<Rightarrow> bool"
  sha256 :: "bytes \<Rightarrow> arr32"

definition verify_signature :: "crypto \<Rightarrow> signature \<Rightarrow> bytes \<Rightarrow> pubkey \<Rightarrow> bool" where
  "verify_signature cr sig message pk =
     (case (sig, pk) of (Signature s, Pubkey k) \<Rightarrow>
        if key_from_bytes cr k then key_verify cr k message s else False)"

end
