(* ===== verification/Accounts.thy ===== *)
theory Accounts
  imports Core_Types
begin

text \<open>
  \<^verbatim>\<open>src/accounts.rs\<close>: the account record, the interface of an account store with
  its three implementations (in memory, over RocksDB, and the copy-on-write overlay), and
  the Merkle root of the accounts. \<^verbatim>\<open>src/committer.rs\<close> flushes overlays and is here too.
\<close>

section \<open>Accounts\<close>

datatype account_error = NotFound pubkey

record account =
  acc_pubkey :: pubkey
  acc_lamports :: u64
  acc_data :: bytes
  acc_owner :: pubkey
  acc_executable :: bool
  acc_rent_epoch :: u64

definition account_default :: account where
  "account_default = \<lparr>acc_pubkey = pubkey_default, acc_lamports = 0, acc_data = [],
     acc_owner = pubkey_default, acc_executable = False, acc_rent_epoch = 0\<rparr>"

text \<open>The errors \<^verbatim>\<open>anyhow\<close> carries as text.\<close>

datatype anyhow = Anyhow string

section \<open>The Merkle root\<close>

text \<open>
  \<^verbatim>\<open>hash_accounts\<close>: hash every account with its key, sort the hashes, then hash
  pairs (an odd last one with itself) until one hash is left.
\<close>

definition leaf_hash ::
    "crypto \<Rightarrow> (pubkey \<times> account) codec \<Rightarrow> account \<Rightarrow> (arr32, anyhow) result" where
  "leaf_hash cr c a =
     and_then (ok_or (ser c (acc_pubkey a, a)) (Anyhow ''failed to serialize account''))
       (\<lambda>serialized. Ok (sha256 cr serialized))"

definition hash_pair :: "crypto \<Rightarrow> arr32 \<Rightarrow> arr32 \<Rightarrow> arr32" where
  "hash_pair cr l r = sha256 cr (be_bytes 32 l @ be_bytes 32 r)"

fun merkle_level :: "crypto \<Rightarrow> arr32 list \<Rightarrow> arr32 list" where
  "merkle_level cr [] = []"
| "merkle_level cr [h] = [hash_pair cr h h]"
| "merkle_level cr (l # r # hs) = hash_pair cr l r # merkle_level cr hs"

lemma length_merkle_level [simp]: "length (merkle_level cr hs) = (length hs + 1) div 2"
  by (induction cr hs rule: merkle_level.induct) auto

function merkle_levels :: "crypto \<Rightarrow> arr32 list \<Rightarrow> arr32 list" where
  "merkle_levels cr level =
     (if length level > 1 then merkle_levels cr (merkle_level cr level) else level)"
  by pat_completeness auto
termination
  by (relation "measure (\<lambda>(cr, level). length level)") auto

declare merkle_levels.simps [simp del]

definition hash_accounts ::
    "crypto \<Rightarrow> (pubkey \<times> account) codec \<Rightarrow> account list \<Rightarrow> (hash, anyhow) result" where
  "hash_accounts cr c accounts =
     and_then (collect_results (leaf_hash cr c) accounts)
       (\<lambda>leaf_hashes. case merkle_levels cr (sort leaf_hashes) of
          [] \<Rightarrow> Err (Anyhow ''empty level'')
        | h # _ \<Rightarrow> Ok (Hash h))"

lemma merkle_levels_small [simp]:
  "merkle_levels cr [] = []" "merkle_levels cr [h] = [h]"
  by (simp_all add: merkle_levels.simps)

lemma merkle_levels_step:
  "length level > 1 \<Longrightarrow> merkle_levels cr level = merkle_levels cr (merkle_level cr level)"
  by (subst merkle_levels.simps) simp

text \<open>The loop leaves exactly one hash, whatever the number of leaves.\<close>

lemma length_merkle_levels: "level \<noteq> [] \<Longrightarrow> length (merkle_levels cr level) = 1"
proof (induction cr level rule: merkle_levels.induct)
  case (1 cr level)
  show ?case
  proof (cases "length level > 1")
    case True
    then have "length (merkle_level cr level) > 0" by simp
    then have "merkle_level cr level \<noteq> []" by (metis length_greater_0_conv)
    with "1.IH" True show ?thesis by (simp add: merkle_levels_step)
  next
    case False
    with "1.prems" have "length level = 1" by (cases level) auto
    then show ?thesis by (simp add: merkle_levels.simps)
  qed
qed

text \<open>The reference: the root of the complete binary tree over \<open>2 ^ k\<close> leaves.\<close>

fun tree_root :: "crypto \<Rightarrow> nat \<Rightarrow> arr32 list \<Rightarrow> arr32" where
  "tree_root cr 0 hs = hd hs"
| "tree_root cr (Suc k) hs =
     hash_pair cr (tree_root cr k (take (2 ^ k) hs)) (tree_root cr k (drop (2 ^ k) hs))"

lemma merkle_level_append:
  "even (length xs) \<Longrightarrow> merkle_level cr (xs @ ys) = merkle_level cr xs @ merkle_level cr ys"
  by (induction cr xs rule: merkle_level.induct) auto

lemma tree_root_level:
  "length hs = 2 ^ Suc k \<Longrightarrow> tree_root cr k (merkle_level cr hs) = tree_root cr (Suc k) hs"
proof (induction k arbitrary: hs)
  case 0
  then obtain a b where "hs = [a, b]"
    by (auto simp: numeral_2_eq_2 length_Suc_conv)
  then show ?case by (simp add: numeral_2_eq_2)
next
  case (Suc k)
  let ?xs = "take (2 ^ Suc k) hs" and ?ys = "drop (2 ^ Suc k) hs"
  have len: "length ?xs = 2 ^ Suc k" "length ?ys = 2 ^ Suc k"
    using Suc.prems by simp_all
  have split: "merkle_level cr hs = merkle_level cr ?xs @ merkle_level cr ?ys"
    using merkle_level_append [of ?xs cr ?ys] len by simp
  have half: "length (merkle_level cr ?xs) = 2 ^ k"
    using len by simp
  have "tree_root cr (Suc k) (merkle_level cr hs) =
      hash_pair cr (tree_root cr k (merkle_level cr ?xs)) (tree_root cr k (merkle_level cr ?ys))"
    by (simp only: tree_root.simps split half [symmetric] append_eq_conv_conj take_append
        drop_append) simp
  also have "\<dots> = tree_root cr (Suc (Suc k)) hs"
    by (simp only: Suc.IH [OF len(1)] Suc.IH [OF len(2)] tree_root.simps(2) [of cr "Suc k"])
  finally show ?case .
qed

lemma merkle_levels_tree: "length hs = 2 ^ k \<Longrightarrow> merkle_levels cr hs = [tree_root cr k hs]"
proof (induction k arbitrary: hs)
  case 0
  then show ?case by (cases hs) auto
next
  case (Suc k)
  have big: "length hs > 1" using Suc.prems one_less_power [of "2::nat" "Suc k"] by simp
  have "length (merkle_level cr hs) = 2 ^ k" using Suc.prems by simp
  then have "merkle_levels cr (merkle_level cr hs) = [tree_root cr k (merkle_level cr hs)]"
    by (rule Suc.IH)
  with Suc.prems show ?case by (simp only: merkle_levels_step [OF big] tree_root_level)
qed

text \<open>
  Sorting makes the root independent of the order in which the store enumerates its
  accounts, which the hash maps leave unspecified.
\<close>

lemma collect_results_perm:
  assumes "mset xs = mset ys" and "collect_results f xs = Ok zs"
  shows "\<exists>ws. collect_results f ys = Ok ws \<and> mset ws = mset zs"
proof -
  have ok: "\<exists>v. f x = Ok v" if "collect_results f as = Ok bs" "x \<in> set as" for x as bs
    using that by (induction as arbitrary: bs) auto
  have val: "bs = map (\<lambda>x. case f x of Ok v \<Rightarrow> v) as" if "collect_results f as = Ok bs" for as bs
    using that by (induction as arbitrary: bs) auto
  have "set xs = set ys" using assms(1) by (rule mset_eq_setD)
  then have "f y = Ok (case f y of Ok v \<Rightarrow> v)" if "y \<in> set ys" for y
    using ok [OF assms(2), of y] that by auto
  then have "collect_results f ys = Ok (map (\<lambda>x. case f x of Ok v \<Rightarrow> v) ys)"
    by (rule collect_results_Ok)
  then show ?thesis using assms(1) val [OF assms(2)] by simp
qed

lemma hash_accounts_perm_Ok:
  assumes "mset xs = mset ys" and "hash_accounts cr c xs = Ok h"
  shows "hash_accounts cr c ys = Ok h"
proof -
  from assms(2) obtain zs where zs: "collect_results (leaf_hash cr c) xs = Ok zs"
    and h: "(case merkle_levels cr (sort zs) of
       [] \<Rightarrow> Err (Anyhow ''empty level'') | h # _ \<Rightarrow> Ok (Hash h)) = Ok h"
    by (auto simp: hash_accounts_def)
  from collect_results_perm [OF assms(1) zs] obtain ws
    where ws: "collect_results (leaf_hash cr c) ys = Ok ws" and "mset ws = mset zs" by blast
  then have "sort ws = sort zs" by (metis properties_for_sort mset_sort sorted_sort)
  with ws h show ?thesis by (simp add: hash_accounts_def)
qed

lemma hash_accounts_nonempty:
  assumes "\<And>x. \<exists>bs. ser c x = Some bs" and "accounts \<noteq> []"
  shows "\<exists>h. hash_accounts cr c accounts = Ok h"
proof -
  let ?leaf = "\<lambda>a. sha256 cr (the (ser c (acc_pubkey a, a)))"
  have "leaf_hash cr c a = Ok (?leaf a)" for a
    using assms(1) [of "(acc_pubkey a, a)"] by (auto simp: leaf_hash_def)
  then have leaves: "collect_results (leaf_hash cr c) accounts = Ok (map ?leaf accounts)"
    by (rule collect_results_Ok)
  have "sort (map ?leaf accounts) \<noteq> []"
    using assms(2) by (simp only: length_greater_0_conv [symmetric] length_sort length_map)
  then obtain h where "merkle_levels cr (sort (map ?leaf accounts)) = [h]"
    using singletonE_length [OF length_merkle_levels] by blast
  with leaves show ?thesis by (simp add: hash_accounts_def)
qed

lemma hash_accounts_empty: "hash_accounts cr c [] = Err (Anyhow ''empty level'')"
  by (simp add: hash_accounts_def)


section \<open>The store interface\<close>

text \<open>
  \<^verbatim>\<open>trait AccountStore\<close>: what a client of a store relies on. \<^verbatim>\<open>store\<close> may fail;
  when it succeeds the new account is what \<^verbatim>\<open>load\<close> returns for its key, and no other key
  changes. \<open>storable\<close> is the range of accounts the store can hold.
\<close>

text \<open>\<^verbatim>\<open>Result::unwrap\<close>.\<close>

primrec unwrap_result :: "('a, 'e) result \<Rightarrow> ('a, 'f) result" where
  "unwrap_result (Ok a) = Ok a"
| "unwrap_result (Err e) = Panic"
| "unwrap_result Panic = Panic"

lemma unwrap_result_Ok [simp, result_simps]: "unwrap_result r = Ok a \<longleftrightarrow> r = Ok a"
  by (cases r) auto

type_synonym dirty_map = "(pubkey, account) hashmap"

text \<open>
  \<^verbatim>\<open>OverlayStore\<close> over any parent store: reads fall through to the parent, writes stay in
  \<^verbatim>\<open>dirty\<close>, and \<^verbatim>\<open>flush\<close> writes them to the parent, which other overlays share and
  which is therefore a state of its own here.
\<close>

definition overlay_new :: dirty_map where
  "overlay_new = []"

definition overlay_load ::
    "('s \<Rightarrow> pubkey \<Rightarrow> account option) \<Rightarrow> 's \<Rightarrow> dirty_map \<Rightarrow> pubkey \<Rightarrow> account option" where
  "overlay_load p_load parent dirty k =
     (case map_of dirty k of Some account \<Rightarrow> Some account | None \<Rightarrow> p_load parent k)"

definition overlay_store :: "dirty_map \<Rightarrow> pubkey \<Rightarrow> account \<Rightarrow> (dirty_map, anyhow) result" where
  "overlay_store dirty k account = Ok (AList.update k account dirty)"

definition flush_entry ::
    "('s \<Rightarrow> pubkey \<Rightarrow> account \<Rightarrow> ('s, anyhow) result) \<Rightarrow> pubkey \<times> account \<Rightarrow> 's \<Rightarrow>
     ('s, anyhow) result" where
  "flush_entry p_store entry p = unwrap_result (p_store p (fst entry) (snd entry))"

definition overlay_flush ::
    "('s \<Rightarrow> pubkey \<Rightarrow> account \<Rightarrow> ('s, anyhow) result) \<Rightarrow> 's \<Rightarrow> dirty_map \<Rightarrow>
     ('s \<times> dirty_map, anyhow) result" where
  "overlay_flush p_store parent dirty =
     and_then (for_each (flush_entry p_store) dirty parent)
       (\<lambda>parent'. Ok (parent', []))"

definition dirty_count :: "dirty_map \<Rightarrow> nat" where
  "dirty_count dirty = length dirty"

definition overlay_all_accounts ::
    "('s \<Rightarrow> account list) \<Rightarrow> 's \<Rightarrow> dirty_map \<Rightarrow> account list" where
  "overlay_all_accounts p_all parent dirty =
     map snd (fold (\<lambda>(k, account) all. AList.update k account all) dirty
       (fold (\<lambda>account all. AList.update (acc_pubkey account) account all) (p_all parent) []))"

definition overlay_get_root_hash ::
    "crypto \<Rightarrow> (pubkey \<times> account) codec \<Rightarrow> ('s \<Rightarrow> account list) \<Rightarrow> 's \<Rightarrow> dirty_map \<Rightarrow>
     (hash, anyhow) result" where
  "overlay_get_root_hash cr c p_all parent dirty =
     (let all = overlay_all_accounts p_all parent dirty in
      if all = [] then Ok hash_default else hash_accounts cr c all)"

text \<open>\<^verbatim>\<open>Committer::commit_overlays\<close>: flush the overlays of a batch, in order.\<close>

definition commit_overlays ::
    "('s \<Rightarrow> pubkey \<Rightarrow> account \<Rightarrow> ('s, anyhow) result) \<Rightarrow> dirty_map list \<Rightarrow> 's \<Rightarrow>
     ('s, anyhow) result" where
  "commit_overlays p_store overlays parent =
     for_each (\<lambda>dirty p. and_then (overlay_flush p_store p dirty) (\<lambda>(p', _). Ok p'))
       overlays parent"

locale account_store =
  fixes load :: "'s \<Rightarrow> pubkey \<Rightarrow> account option"
    and store :: "'s \<Rightarrow> pubkey \<Rightarrow> account \<Rightarrow> ('s, anyhow) result"
    and invar :: "'s \<Rightarrow> bool"
    and storable :: "account \<Rightarrow> bool"
  assumes load_store:
      "invar s \<Longrightarrow> storable a \<Longrightarrow> store s k a = Ok s' \<Longrightarrow> load s' = (load s)(k \<mapsto> a)"
    and invar_store: "invar s \<Longrightarrow> store s k a = Ok s' \<Longrightarrow> invar s'"
begin

lemma flush_loop:
  assumes "for_each (flush_entry store) dirty s = Ok s'"
    and "invar s" and "wf_map dirty" and "list_all (\<lambda>e. storable (snd e)) dirty"
  shows "invar s' \<and> load s' = load s ++ map_of dirty"
  using assms
proof (induction dirty arbitrary: s)
  case Nil
  then show ?case by simp
next
  case (Cons ka dirty)
  obtain k a where ka: "ka = (k, a)" by fastforce
  with Cons.prems(1) obtain t where t: "store s k a = Ok t"
    and rest: "for_each (flush_entry store) dirty t = Ok s'"
    by (auto simp: flush_entry_def [where entry = "(k, a)"])
  have wf: "wf_map dirty" and new: "k \<notin> dom (map_of dirty)"
    and st: "storable a" "list_all (\<lambda>e. storable (snd e)) dirty"
    using Cons.prems(3,4) ka by (auto simp: wf_map_def dom_map_of_conv_image_fst)
  have "invar s' \<and> load s' = load t ++ map_of dirty"
    using Cons.IH [OF rest _ wf st(2)] invar_store [OF Cons.prems(2) t] by blast
  then show ?case
    using load_store [OF Cons.prems(2) st(1) t] new
    by (auto simp: ka map_add_def fun_eq_iff domIff split: option.splits)
qed

text \<open>Flushing makes the parent hold exactly what the overlay showed.\<close>

lemma flush_load:
  assumes "overlay_flush store s dirty = Ok (s', dirty')"
    and "invar s" and "wf_map dirty" and "list_all (\<lambda>e. storable (snd e)) dirty"
  shows "load s' = overlay_load load s dirty" and "invar s'" and "dirty' = []"
proof -
  from assms(1) have loop: "for_each (flush_entry store) dirty s = Ok s'"
    and "dirty' = []" by (auto simp: overlay_flush_def)
  from flush_loop [OF loop assms(2-4)]
  show "invar s'" "load s' = overlay_load load s dirty" "dirty' = []"
    using \<open>dirty' = []\<close> by (auto simp: overlay_load_def map_add_def fun_eq_iff split: option.splits)
qed

text \<open>An overlay is a store again.\<close>

lemma overlay_is_store:
  "account_store (\<lambda>(p, dirty). overlay_load load p dirty)
     (\<lambda>(p, dirty) k a. and_then (overlay_store dirty k a) (\<lambda>dirty'. Ok (p, dirty')))
     (\<lambda>(p, dirty). invar p \<and> wf_map dirty) storable"
  by unfold_locales
    (auto simp: overlay_load_def overlay_store_def map_of_update fun_eq_iff split: option.splits)

lemma commit_load:
  assumes "commit_overlays store overlays s = Ok s'" and "invar s"
    and "list_all wf_map overlays" and "list_all (list_all (\<lambda>e. storable (snd e))) overlays"
  shows "invar s' \<and> load s' = foldl (++) (load s) (map map_of overlays)"
  using assms
proof (induction overlays arbitrary: s)
  case Nil
  then show ?case by (simp add: commit_overlays_def)
next
  case (Cons d overlays)
  from Cons.prems(1) obtain t where
    t: "overlay_flush store s d = Ok t" and rest: "commit_overlays store overlays (fst t) = Ok s'"
    by (auto simp: commit_overlays_def split: prod.splits)
  have d: "wf_map d" "list_all (\<lambda>e. storable (snd e)) d" using Cons.prems(3,4) by simp_all
  have t': "overlay_flush store s d = Ok (fst t, snd t)" using t by simp
  have "load (fst t) = load s ++ map_of d"
    using flush_load(1) [OF t' Cons.prems(2) d]
    by (auto simp: overlay_load_def map_add_def fun_eq_iff)
  then show ?case
    using Cons.IH [OF rest] flush_load(2) [OF t' Cons.prems(2) d] Cons.prems(3,4) by simp
qed

end

locale total_store = account_store +
  assumes store_total: "\<exists>s'. store s k a = Ok s'"
begin

lemma flush_total: "\<exists>s'. overlay_flush store s dirty = Ok (s', [])"
proof -
  have "\<exists>s'. for_each (flush_entry store) dirty s = Ok s'"
  proof (induction dirty arbitrary: s)
    case (Cons ka dirty)
    obtain s' where "store s (fst ka) (snd ka) = Ok s'" using store_total by blast
    then show ?case using Cons.IH by (auto simp: flush_entry_def)
  qed simp
  then show ?thesis by (auto simp: overlay_flush_def)
qed

lemma commit_total: "\<exists>s'. commit_overlays store overlays s = Ok s'"
proof (induction overlays arbitrary: s)
  case (Cons d overlays)
  obtain t where "overlay_flush store s d = Ok (t, [])" using flush_total by blast
  then show ?case using Cons.IH [of t] by (auto simp: commit_overlays_def)
qed (simp add: commit_overlays_def)

end

section \<open>The store in memory\<close>

type_synonym mem_store = "(pubkey, account) hashmap"

definition mem_load :: "mem_store \<Rightarrow> pubkey \<Rightarrow> account option" where
  "mem_load s k = map_of s k"

definition mem_store :: "mem_store \<Rightarrow> pubkey \<Rightarrow> account \<Rightarrow> (mem_store, anyhow) result" where
  "mem_store s k account = Ok (AList.update k account s)"

definition mem_all_accounts :: "mem_store \<Rightarrow> account list" where
  "mem_all_accounts s = map snd s"

definition mem_get_root_hash ::
    "crypto \<Rightarrow> (pubkey \<times> account) codec \<Rightarrow> mem_store \<Rightarrow> (hash, anyhow) result" where
  "mem_get_root_hash cr c s = hash_accounts cr c (mem_all_accounts s)"

interpretation mem: total_store mem_load mem_store wf_map "\<lambda>_. True"
  by unfold_locales (auto simp: mem_load_def mem_store_def map_of_update fun_eq_iff)

interpretation mem_overlay: account_store
  "\<lambda>(p, dirty). overlay_load mem_load p dirty"
  "\<lambda>(p, dirty) k a. and_then (overlay_store dirty k a) (\<lambda>dirty'. Ok (p, dirty'))"
  "\<lambda>(p, dirty). wf_map p \<and> wf_map dirty" "\<lambda>_. True"
  by (rule mem.overlay_is_store)

section \<open>The store over RocksDB\<close>

text \<open>
  The database is a library: a value of some type \<open>'db\<close> with its \<^verbatim>\<open>get\<close> (whose error and
  absent cases the code does not tell apart), \<^verbatim>\<open>put\<close>, and iteration.
\<close>

record 'db rocksdb =
  db_get :: "'db \<Rightarrow> bytes \<Rightarrow> bytes option"
  db_put :: "'db \<Rightarrow> bytes \<Rightarrow> bytes \<Rightarrow> 'db option"
  db_iter :: "'db \<Rightarrow> (bytes \<times> bytes) option list"

definition rocks_load :: "'db rocksdb \<Rightarrow> account codec \<Rightarrow> 'db \<Rightarrow> pubkey \<Rightarrow> account option" where
  "rocks_load lib c db k =
     (case db_get lib db (pubkey_bytes k) of Some bs \<Rightarrow> de c bs | None \<Rightarrow> None)"

definition rocks_store ::
    "'db rocksdb \<Rightarrow> account codec \<Rightarrow> 'db \<Rightarrow> pubkey \<Rightarrow> account \<Rightarrow> ('db, anyhow) result" where
  "rocks_store lib c db k account =
     and_then (ok_or (ser c account) (Anyhow ''failed to serialize account for rocksdb''))
       (\<lambda>serialized. ok_or (db_put lib db (pubkey_bytes k) serialized)
          (Anyhow ''failed to put account into rocksdb''))"

definition rocks_all_accounts :: "'db rocksdb \<Rightarrow> account codec \<Rightarrow> 'db \<Rightarrow> account list" where
  "rocks_all_accounts lib c db =
     List.map_filter (de c) (map snd (List.map_filter id (db_iter lib db)))"

definition rocks_get_root_hash ::
    "crypto \<Rightarrow> (pubkey \<times> account) codec \<Rightarrow> 'db rocksdb \<Rightarrow> account codec \<Rightarrow> 'db \<Rightarrow>
     (hash, anyhow) result" where
  "rocks_get_root_hash cr pc lib c db = hash_accounts cr pc (rocks_all_accounts lib c db)"

text \<open>
  Over a database whose \<^verbatim>\<open>get\<close> returns what was last \<^verbatim>\<open>put\<close>, and an encoding of
  accounts that round-trips, the RocksDB store keeps the contract of the interface.
\<close>

definition rocks_get_put :: "'db rocksdb \<Rightarrow> bool" where
  "rocks_get_put lib \<longleftrightarrow>
     (\<forall>db k v db'. db_put lib db k v = Some db' \<longrightarrow> db_get lib db' = (db_get lib db)(k \<mapsto> v))"

lemma rocks_is_store:
  assumes "rocks_get_put lib" and "strict_codec c valid"
  shows "account_store (rocks_load lib c) (rocks_store lib c) (\<lambda>_. True) valid"
proof unfold_locales
  fix db k a db'
  assume "valid a" and "rocks_store lib c db k a = Ok db'"
  then obtain bs where "ser c a = Some bs" and "db_put lib db (pubkey_bytes k) bs = Some db'"
    by (auto simp: rocks_store_def)
  then show "rocks_load lib c db' = (rocks_load lib c db)(k \<mapsto> a)"
    using assms(1) strict_codec.de_ser [OF assms(2) \<open>valid a\<close>] by (auto simp: rocks_get_put_def rocks_load_def fun_eq_iff)
qed

end
