(* ===== verification/Transactions.thy ===== *)
theory Transactions
  imports Accounts
begin

text \<open>
  \<^verbatim>\<open>src/transactions.rs\<close>: instructions, messages, transactions and their signature check,
  with the error types of \<^verbatim>\<open>src/runtime.rs\<close> they carry, and the sets of accounts a
  transaction declares, which the scheduler, the account locks and the cost model each
  compute from its instructions.
\<close>

section \<open>Errors\<close>

datatype program_error =
    AccountNotFound pubkey
  | InvalidInstructionData
  | InsufficientFunds
  | NotEnoughAccountKeys
  | MissingRequiredSignature
  | ReadonlyAccountWritten
  | AccountNotExecutable
  | AccountOwnerMismatch
  | InvalidAccountData
  | AccountBorrowFailed
  | InvalidArgument
  | Custom u32
  | InternalError string

datatype transaction_error =
    InvalidSignature
  | AccountError account_error
  | ProgramError program_error
  | BlockhashNotFound
  | BlockhashExpired
  | AccountInUse
  | WouldExceedMaxBlockCostLimit

fun is_retryable :: "transaction_error \<Rightarrow> bool" where
  "is_retryable AccountInUse = True"
| "is_retryable WouldExceedMaxBlockCostLimit = True"
| "is_retryable _ = False"

section \<open>Transactions\<close>

record account_meta =
  am_pubkey :: pubkey
  am_is_signer :: bool
  am_is_writable :: bool

record instruction =
  ix_program_id :: pubkey
  ix_accounts :: "account_meta list"
  ix_data :: bytes

record message =
  msg_account_keys :: "pubkey list"
  msg_recent_blockhash :: hash
  msg_instructions :: "instruction list"

record transaction =
  tx_signatures :: "signature list"
  tx_message :: message

definition serialize_for_signing :: "message codec \<Rightarrow> message \<Rightarrow> (bytes, anyhow) result" where
  "serialize_for_signing c m =
     ok_or (ser c m) (Anyhow ''failed to serialize message for signing'')"

definition signature_valid :: "crypto \<Rightarrow> bytes \<Rightarrow> signature \<times> pubkey \<Rightarrow> bool" where
  "signature_valid cr message_bytes sk =
     (case sk of (Signature s, Pubkey k) \<Rightarrow>
        if key_from_bytes cr k then key_verify_strict cr k message_bytes s else False)"

text \<open>
  The slice \<^verbatim>\<open>account_keys[..signatures.len()]\<close> panics when there are more signatures than
  keys.
\<close>

definition verify_signatures_sync ::
    "crypto \<Rightarrow> message codec \<Rightarrow> transaction \<Rightarrow> (unit, transaction_error) result" where
  "verify_signatures_sync cr c tx =
     and_then (map_err (\<lambda>_. InvalidSignature) (serialize_for_signing c (tx_message tx)))
       (\<lambda>message_bytes.
          if length (tx_signatures tx) > length (msg_account_keys (tx_message tx)) then Panic
          else let signer_pubkeys =
                   take (length (tx_signatures tx)) (msg_account_keys (tx_message tx))
               in if list_all (signature_valid cr message_bytes)
                       (zip (tx_signatures tx) signer_pubkeys)
                  then Ok () else Err InvalidSignature)"

text \<open>The asynchronous wrapper turns a panic of the blocking task into an error.\<close>

definition verify_signatures ::
    "crypto \<Rightarrow> message codec \<Rightarrow> transaction \<Rightarrow> (unit, transaction_error) result" where
  "verify_signatures cr c tx =
     (case verify_signatures_sync cr c tx of
        Panic \<Rightarrow> Err (ProgramError (InternalError ''signature verification panicked''))
      | r \<Rightarrow> r)"

lemma verify_signatures_sync_Ok:
  assumes "ser c (tx_message tx) = Some bs"
  shows "verify_signatures_sync cr c tx = Ok () \<longleftrightarrow>
    length (tx_signatures tx) \<le> length (msg_account_keys (tx_message tx)) \<and>
    (\<forall>i < length (tx_signatures tx).
       signature_valid cr bs (tx_signatures tx ! i, msg_account_keys (tx_message tx) ! i))"
  using assms
  by (auto simp: verify_signatures_sync_def serialize_for_signing_def Let_def list_all_length)

lemma verify_signatures_sync_unsigned:
  assumes "ser c (tx_message tx) = Some bs" and "tx_signatures tx = []"
  shows "verify_signatures_sync cr c tx = Ok ()"
  using assms by (simp add: verify_signatures_sync_Ok)

section \<open>The accounts a transaction declares\<close>

text \<open>A \<^verbatim>\<open>BTreeSet\<close> is iterated in increasing order.\<close>

definition btree_set :: "pubkey list \<Rightarrow> pubkey list" where
  "btree_set ks = sorted_list_of_set (set ks)"

lemma set_btree_set [simp]: "set (btree_set ks) = set ks"
  by (simp add: btree_set_def)

lemma distinct_btree_set [simp]: "distinct (btree_set ks)"
  by (simp add: btree_set_def)

definition declared_keys :: "bool \<Rightarrow> transaction \<Rightarrow> pubkey list" where
  "declared_keys writable tx =
     [am_pubkey m. ix \<leftarrow> msg_instructions (tx_message tx), m \<leftarrow> ix_accounts ix,
        am_is_writable m = writable]"

text \<open>The write set and the read set of a transaction.\<close>

definition write_set :: "transaction \<Rightarrow> pubkey list" where
  "write_set tx = btree_set (declared_keys True tx)"

definition read_set :: "transaction \<Rightarrow> pubkey list" where
  "read_set tx = btree_set (declared_keys False tx)"

lemma set_write_set [simp]: "set (write_set tx) = set (declared_keys True tx)"
  by (simp add: write_set_def)

lemma set_read_set [simp]: "set (read_set tx) = set (declared_keys False tx)"
  by (simp add: read_set_def)

lemma distinct_write_set [simp]: "distinct (write_set tx)"
  by (simp add: write_set_def)

end
