(* ===== verification/Runtime.thy ===== *)
theory Runtime
  imports Transactions
begin

text \<open>
  The data of \<^verbatim>\<open>src/runtime.rs\<close>: accounts shared through \<^verbatim>\<open>Rc<RefCell<Account>>\<close>, the
  invoke context, the executor interface with cross-program invocation, and the parameter
  memory of a BPF program with its serialisation and deserialisation.

  The cells a transaction loads are a list, and an \<open>account_info\<close> holds the index of its
  cell, so two infos for one account share it. Every \<^verbatim>\<open>try_borrow\<close> is a temporary of one
  statement; it can fail only where another borrow of the same cell is alive, which happens
  in one place of the repository (the copy in \<^verbatim>\<open>DeployWithMaxDataLen\<close>), and is tested there.
  After an error nothing reads the cells, which are dropped with the transaction, so \<open>Err\<close>
  does not carry them; the program cache outlives the transaction and is always returned.
\<close>

section \<open>Shared accounts\<close>

type_synonym heap = "account list"

record account_info =
  ai_pubkey :: pubkey
  ai_is_signer :: bool
  ai_is_writable :: bool
  ai_account :: nat
  ai_executable :: bool
  ai_rent_epoch :: u64

definition cell :: "heap \<Rightarrow> account_info \<Rightarrow> account" where
  "cell h info = h ! ai_account info"

definition ai_lamports :: "account_info \<Rightarrow> heap \<Rightarrow> (u64, program_error) result" where
  "ai_lamports info h = Ok (acc_lamports (cell h info))"

definition try_borrow_data :: "account_info \<Rightarrow> heap \<Rightarrow> (bytes, program_error) result" where
  "try_borrow_data info h = Ok (acc_data (cell h info))"

definition ai_owner :: "account_info \<Rightarrow> heap \<Rightarrow> (pubkey, program_error) result" where
  "ai_owner info h = Ok (acc_owner (cell h info))"

definition set_lamports :: "account_info \<Rightarrow> u64 \<Rightarrow> heap \<Rightarrow> (heap, program_error) result" where
  "set_lamports info lamports h =
     Ok (h[ai_account info := (cell h info)\<lparr>acc_lamports := lamports\<rparr>])"

definition set_owner :: "account_info \<Rightarrow> pubkey \<Rightarrow> heap \<Rightarrow> (heap, program_error) result" where
  "set_owner info owner h = Ok (h[ai_account info := (cell h info)\<lparr>acc_owner := owner\<rparr>])"

text \<open>\<^verbatim>\<open>*info.try_borrow_mut_data()? = data\<close>.\<close>

definition set_data :: "account_info \<Rightarrow> bytes \<Rightarrow> heap \<Rightarrow> (heap, program_error) result" where
  "set_data info data h = Ok (h[ai_account info := (cell h info)\<lparr>acc_data := data\<rparr>])"

definition infos_wf :: "account_info list \<Rightarrow> heap \<Rightarrow> bool" where
  "infos_wf infos h \<longleftrightarrow> list_all (\<lambda>info. ai_account info < length h) infos"

lemma infos_wf_nth: "infos_wf infos h \<Longrightarrow> i < length infos \<Longrightarrow> ai_account (infos ! i) < length h"
  by (simp add: infos_wf_def list_all_length)

lemma infos_wf_length: "length h' = length h \<Longrightarrow> infos_wf infos h' = infos_wf infos h"
  by (simp add: infos_wf_def)

lemmas heap_ops = cell_def ai_lamports_def try_borrow_data_def ai_owner_def set_lamports_def
  set_owner_def set_data_def

text \<open>The lamports a heap holds.\<close>

definition total_lamports :: "heap \<Rightarrow> nat" where
  "total_lamports h = (\<Sum>a \<leftarrow> h. unat (acc_lamports a))"

lemma sum_map_update:
  "i < length xs \<Longrightarrow> sum_list (map f (xs[i := a])) + f (xs ! i) = sum_list (map f xs) + f a"
  for f :: "'b \<Rightarrow> nat"
  by (induction xs arbitrary: i) (auto simp: nth_Cons split: nat.splits)

lemma sum_map_ge: "i < length xs \<Longrightarrow> f (xs ! i) \<le> sum_list (map f xs)" for f :: "'b \<Rightarrow> nat"
  by (induction xs arbitrary: i) (fastforce simp: nth_Cons split: nat.splits)+

lemma total_lamports_update:
  "i < length h \<Longrightarrow> total_lamports (h[i := a]) + unat (acc_lamports (h ! i)) =
     total_lamports h + unat (acc_lamports a)"
  unfolding total_lamports_def by (rule sum_map_update)

lemma total_lamports_ge: "i < length h \<Longrightarrow> unat (acc_lamports (h ! i)) \<le> total_lamports h"
  unfolding total_lamports_def by (rule sum_map_ge [of _ _ "\<lambda>a. unat (acc_lamports a)"])

lemma total_lamports_two:
  assumes "i < length h" "j < length h" "i \<noteq> j"
  shows "unat (acc_lamports (h ! i)) + unat (acc_lamports (h ! j)) \<le> total_lamports h"
proof -
  let ?h = "h[i := (h ! i)\<lparr>acc_lamports := 0\<rparr>]"
  have "total_lamports ?h + unat (acc_lamports (h ! i)) = total_lamports h"
    using total_lamports_update [OF assms(1), of "(h ! i)\<lparr>acc_lamports := 0\<rparr>"] by simp
  moreover have "unat (acc_lamports (h ! j)) \<le> total_lamports ?h"
    using total_lamports_ge [of j ?h] assms by simp
  ultimately show ?thesis by simp
qed

text \<open>Most operations of a program write account data and no other field.\<close>

definition only_data :: "heap \<Rightarrow> heap \<Rightarrow> bool" where
  "only_data h h' \<longleftrightarrow> list_all2 (\<lambda>a b. a\<lparr>acc_data := []\<rparr> = b\<lparr>acc_data := []\<rparr>) h h'"

lemma only_data_refl [simp, intro]: "only_data h h"
  by (simp add: only_data_def list_all2_same)

lemma only_data_trans [trans]: "only_data h h' \<Longrightarrow> only_data h' h'' \<Longrightarrow> only_data h h''"
  unfolding only_data_def by (rule list_all2_trans) auto

lemma only_data_length: "only_data h h' \<Longrightarrow> length h' = length h"
  by (simp add: only_data_def list_all2_lengthD)

lemma only_data_same: "a\<lparr>acc_data := []\<rparr> = b\<lparr>acc_data := []\<rparr> \<Longrightarrow> acc_lamports a = acc_lamports b"
  by (metis account.select_convs(2) account.surjective account.update_convs(3))

lemma only_data_total: "only_data h h' \<Longrightarrow> total_lamports h' = total_lamports h"
  unfolding only_data_def total_lamports_def
  by (induction h h' rule: list_all2_induct) (auto dest: only_data_same)

lemma set_data_only_data: "set_data info d h = Ok h' \<Longrightarrow> only_data h h'"
  by (cases "ai_account info < length h")
    (auto simp: set_data_def cell_def only_data_def list_all2_conv_all_nth nth_list_update
      list_update_beyond)

text \<open>
  A sound step keeps the cells and their keys, and creates no lamports where the total fits
  the type.
\<close>

definition sound_step :: "heap \<Rightarrow> heap \<Rightarrow> bool" where
  "sound_step h h' \<longleftrightarrow>
     map acc_pubkey h' = map acc_pubkey h \<and>
     (total_lamports h < 2 ^ 64 \<longrightarrow> total_lamports h' \<le> total_lamports h)"

lemma sound_step_refl [simp, intro]: "sound_step h h"
  by (simp add: sound_step_def)

lemma sound_step_trans [trans]: "sound_step h h' \<Longrightarrow> sound_step h' h'' \<Longrightarrow> sound_step h h''"
  by (auto simp: sound_step_def)

lemma sound_step_length: "sound_step h h' \<Longrightarrow> length h' = length h"
  by (metis length_map sound_step_def)

lemma same_keys_update:
  "acc_pubkey a = acc_pubkey (h ! i) \<Longrightarrow> map acc_pubkey (h[i := a]) = map acc_pubkey h"
  by (cases "i < length h") (simp_all add: map_update list_update_beyond list_update_same_conv)

lemma sound_step_update:
  "acc_pubkey a = acc_pubkey (h ! i) \<Longrightarrow> acc_lamports a = acc_lamports (h ! i) \<Longrightarrow>
     sound_step h (h[i := a])"
  using total_lamports_update [of i h a]
  by (cases "i < length h") (simp_all add: sound_step_def same_keys_update list_update_beyond)

lemma only_data_sound: "only_data h h' \<Longrightarrow> sound_step h h'"
proof -
  assume od: "only_data h h'"
  have "acc_pubkey a = acc_pubkey b" if "a\<lparr>acc_data := []\<rparr> = b\<lparr>acc_data := []\<rparr>" for a b :: account
    using that by (metis account.select_convs(1) account.surjective account.update_convs(3))
  with od have "list_all2 (\<lambda>a b. acc_pubkey a = acc_pubkey b) h h'"
    unfolding only_data_def by (rule list_all2_mono) auto
  then have "map acc_pubkey h' = map acc_pubkey h"
    by (induction rule: list_all2_induct) auto
  with only_data_total [OF od] show ?thesis by (simp add: sound_step_def)
qed

section \<open>The invoke context and executors\<close>

record invoke_context =
  ic_program_id :: pubkey
  ic_instruction_data :: bytes
  ic_call_stack :: "pubkey list"
  ic_log_collector :: "string list"
  ic_compute_meter :: u64
  ic_compute_budget :: u64

definition invoke_context_new ::
    "pubkey \<Rightarrow> bytes \<Rightarrow> string list \<Rightarrow> u64 \<Rightarrow> invoke_context" where
  "invoke_context_new program_id instruction_data log_collector compute_budget =
     \<lparr>ic_program_id = program_id, ic_instruction_data = instruction_data, ic_call_stack = [],
      ic_log_collector = log_collector, ic_compute_meter = 0,
      ic_compute_budget = compute_budget\<rparr>"

text \<open>
  A \<^verbatim>\<open>RefCell\<close> counts the borrows that are alive: a guard is dropped at the end of the
  statement whose temporary it is. \<^verbatim>\<open>borrow\<close> and \<^verbatim>\<open>borrow_mut\<close> panic where
  \<^verbatim>\<open>try_borrow\<close> and \<^verbatim>\<open>try_borrow_mut\<close> fail.
\<close>

datatype borrows = Unused | Reading nat | Writing

fun cell_borrow :: "borrows \<Rightarrow> (borrows, 'e) result" where
  "cell_borrow Unused = Ok (Reading 1)"
| "cell_borrow (Reading n) = Ok (Reading (n + 1))"
| "cell_borrow Writing = Panic"

fun cell_borrow_mut :: "borrows \<Rightarrow> (borrows, 'e) result" where
  "cell_borrow_mut Unused = Ok Writing"
| "cell_borrow_mut _ = Panic"

text \<open>
  The body of \<^verbatim>\<open>consume\<close> is one assignment. Its right side runs first and its guard
  lives to the end of the statement, so it is alive when the left side asks for a mutable
  borrow.
\<close>

definition consume :: "u64 \<Rightarrow> invoke_context \<Rightarrow> (invoke_context, 'e) result" where
  "consume amount ctx =
     and_then (cell_borrow Unused) (\<lambda>meter.
     let sum = saturating_add (ic_compute_meter ctx) amount in
     and_then (cell_borrow_mut meter) (\<lambda>_. Ok (ctx\<lparr>ic_compute_meter := sum\<rparr>)))"

definition get_remaining :: "invoke_context \<Rightarrow> u64" where
  "get_remaining ctx = saturating_sub (ic_compute_budget ctx) (ic_compute_meter ctx)"

text \<open>
  The bytecode cache of the BPF executor is shared by every transaction of the bank. An
  outcome is a result together with the cache it leaves. \<open>run_then\<close> is the \<^verbatim>\<open>?\<close> operator
  where a state outlives errors, as the cache here and the batch's state later.
\<close>

type_synonym program_cache = "(pubkey, bytes) hashmap"
type_synonym 'a outcome = "('a, program_error) result \<times> program_cache"

definition lift_result :: "('a, 'e) result \<Rightarrow> 's \<Rightarrow> ('a, 'e) result \<times> 's" where
  "lift_result r cache = (r, cache)"

definition run_then ::
    "('a, 'e) result \<times> 's \<Rightarrow> ('a \<Rightarrow> 's \<Rightarrow> ('b, 'e) result \<times> 's) \<Rightarrow> ('b, 'e) result \<times> 's" where
  "run_then m f =
     (case m of
        (Ok a, cache) \<Rightarrow> f a cache
      | (Err e, cache) \<Rightarrow> (Err e, cache)
      | (Panic, cache) \<Rightarrow> (Panic, cache))"

lemma run_then_simps [simp]:
  "run_then (Ok a, cache) f = f a cache" "run_then (Err e, cache) f = (Err e, cache)"
  "run_then (Panic, cache) f = (Panic, cache)"
  by (simp_all add: run_then_def)

lemma run_then_lift [simp]:
  "run_then (lift_result (Ok a) cache) f = f a cache"
  "run_then (lift_result (Err e) cache) f = (Err e, cache)"
  "run_then (lift_result Panic cache) f = (Panic, cache)"
  by (simp_all add: lift_result_def)

lemma run_then_Ok_iff:
  "fst (run_then m f) = Ok b \<longleftrightarrow> (\<exists>a. fst m = Ok a \<and> fst (f a (snd m)) = Ok b)"
  by (cases m; cases "fst m") auto

text \<open>\<^verbatim>\<open>trait ProgramExecutor\<close>; the infos themselves are never written, only their cells.\<close>

type_synonym executor =
  "instruction \<Rightarrow> invoke_context \<Rightarrow> account_info list \<Rightarrow> heap \<Rightarrow> program_cache \<Rightarrow>
     (invoke_context \<times> heap) outcome"

definition invoke ::
    "executor \<Rightarrow> invoke_context \<Rightarrow> instruction \<Rightarrow> account_info list \<Rightarrow> heap \<Rightarrow> program_cache \<Rightarrow>
     (invoke_context \<times> heap) outcome" where
  "invoke execute ctx ix infos h cache =
     run_then (execute ix (ctx\<lparr>ic_call_stack := ic_call_stack ctx @ [ix_program_id ix]\<rparr>) infos h cache)
       (\<lambda>(ctx, h) cache. (Ok (ctx\<lparr>ic_call_stack := butlast (ic_call_stack ctx)\<rparr>, h), cache))"

section \<open>The parameter memory of a BPF program\<close>

definition NON_DUP_MARKER :: u8 where "NON_DUP_MARKER = 255"

datatype serialize_account = Original account | Duplicate u8

text \<open>\<^verbatim>\<open>(8 - (len % 8)) % 8\<close> and \<^verbatim>\<open>bool as u8\<close>.\<close>

definition padding :: "nat \<Rightarrow> nat" where
  "padding n = (8 - n mod 8) mod 8"

definition bool_byte :: "bool \<Rightarrow> u8" where
  "bool_byte b = (if b then 1 else 0)"

text \<open>The first loop: an account seen before is written as the index of its first place.\<close>

primrec mark_duplicates ::
    "heap \<Rightarrow> account_info list \<Rightarrow> nat \<Rightarrow> (pubkey \<rightharpoonup> nat) \<Rightarrow> serialize_account list" where
  "mark_duplicates h [] i first_indices = []"
| "mark_duplicates h (info # infos) i first_indices =
     (case first_indices (ai_pubkey info) of
        Some first_index \<Rightarrow>
          Duplicate (of_nat first_index) # mark_duplicates h infos (i + 1) first_indices
      | None \<Rightarrow>
          Original (cell h info) #
          mark_duplicates h infos (i + 1) (first_indices(ai_pubkey info \<mapsto> i)))"

primrec serialize_one :: "account_info \<Rightarrow> serialize_account \<Rightarrow> bytes" where
  "serialize_one info (Original account) =
     [NON_DUP_MARKER, bool_byte (ai_is_signer info), bool_byte (ai_is_writable info)] @
     pubkey_bytes (ai_pubkey info) @ pubkey_bytes (acc_owner account) @
     le_bytes 8 (acc_lamports account) @
     le_bytes 8 (of_nat (length (acc_data account)) :: u64) @ acc_data account @
     replicate (padding (length (acc_data account))) 0"
| "serialize_one info (Duplicate first_index) = [first_index]"

definition serialize_parameters ::
    "account_info list \<Rightarrow> heap \<Rightarrow> bytes \<Rightarrow> (bytes, program_error) result" where
  "serialize_parameters infos h instruction_data =
     Ok (le_bytes 8 (of_nat (length infos) :: u64) @
         concat (map2 serialize_one infos (mark_duplicates h infos 0 Map.empty)) @
         le_bytes 8 (of_nat (length instruction_data) :: u64) @ instruction_data)"

text \<open>
  Offsets are \<^verbatim>\<open>usize\<close>; adding a length read from the memory can overflow, which is a
  panic, as is a slice or index out of range.
\<close>

definition usize_add :: "nat \<Rightarrow> nat \<Rightarrow> (nat, program_error) result" where
  "usize_add a b = (if a + b < 2 ^ 64 then Ok (a + b) else Panic)"

definition slice :: "bytes \<Rightarrow> nat \<Rightarrow> nat \<Rightarrow> bytes" where
  "slice bs a b = take (b - a) (drop a bs)"

text \<open>The branch of a writable account, from the owner on.\<close>

definition deserialize_writable ::
    "bytes \<Rightarrow> account_info \<Rightarrow> nat \<Rightarrow> heap \<Rightarrow> (nat \<times> heap, program_error) result" where
  "deserialize_writable input info offset h =
     (if offset + 32 > length input then Err InvalidAccountData
      else let owner = pubkey_of_bytes (slice input offset (offset + 32)); offset = offset + 32 in
      if offset + 8 > length input then Err InvalidAccountData
      else let lamports = of_le_bytes (slice input offset (offset + 8)); offset = offset + 8 in
      if offset + 8 > length input then Err InvalidAccountData
      else let data_len = unat (of_le_bytes (slice input offset (offset + 8)) :: u64);
               offset = offset + 8 in
      and_then (usize_add offset data_len) (\<lambda>data_end.
      if data_end > length input then Err InvalidAccountData
      else let data = slice input offset data_end in
      and_then (usize_add data_end (padding data_len)) (\<lambda>end.
      if end > length input then Err InvalidAccountData
      else Ok (end, h[ai_account info := (cell h info)
             \<lparr>acc_owner := owner, acc_lamports := lamports, acc_data := data\<rparr>]))))"

definition deserialize_readonly ::
    "bytes \<Rightarrow> nat \<Rightarrow> heap \<Rightarrow> (nat \<times> heap, program_error) result" where
  "deserialize_readonly input offset h =
     (let data_len_offset = offset + 32 + 8 in
      if data_len_offset + 8 > length input then Err InvalidAccountData
      else let data_len = unat (of_le_bytes (slice input data_len_offset (data_len_offset + 8)) :: u64) in
      and_then (usize_add (32 + 8 + 8) data_len) (\<lambda>n.
      and_then (usize_add n (padding data_len)) (\<lambda>n.
      and_then (usize_add offset n) (\<lambda>offset.
      if offset > length input then Err InvalidAccountData else Ok (offset, h)))))"

definition deserialize_account ::
    "bytes \<Rightarrow> account_info \<Rightarrow> nat \<times> heap \<Rightarrow> (nat \<times> heap, program_error) result" where
  "deserialize_account input info st =
     (case st of (offset, h) \<Rightarrow>
        if offset \<ge> length input then Err InvalidAccountData
        else let is_duplicate = input ! offset \<noteq> NON_DUP_MARKER; offset = offset + 1 in
        if is_duplicate then Ok (offset, h)
        else if offset + 1 \<ge> length input then Panic
        else let is_writable = input ! (offset + 1) \<noteq> 0; offset = offset + 1 + 1 + 32 in
        if is_writable then deserialize_writable input info offset h
        else deserialize_readonly input offset h)"

definition deserialize_parameters ::
    "account_info list \<Rightarrow> bytes \<Rightarrow> heap \<Rightarrow> (heap, program_error) result" where
  "deserialize_parameters infos input h =
     and_then (for_each (deserialize_account input) infos (8, h)) (\<lambda>(_, h). Ok h)"

section \<open>The memory a program leaves alone changes nothing\<close>

lemma slice_append:
  "length pre = a \<Longrightarrow> b = a + length mid \<Longrightarrow> slice (pre @ mid @ post) a b = mid"
  by (simp add: slice_def)

lemma padding_less: "padding n < 8"
  by (simp add: padding_def)

lemma length_serialize_Original:
  "length (serialize_one info (Original a)) =
     83 + length (acc_data a) + padding (length (acc_data a))"
  by simp

lemma deserialize_Original:
  assumes input: "input = pre @ serialize_one info (Original (cell h info)) @ post"
    and small: "length input < 2 ^ 64"
  shows "deserialize_account input info (length pre, h) =
    Ok (length pre + length (serialize_one info (Original (cell h info))), h)"
proof -
  let ?a = "cell h info"
  let ?d = "acc_data ?a" and ?n = "length (acc_data (cell h info))"
  let ?len = "le_bytes 8 (of_nat ?n :: u64)" and ?pad = "replicate (padding ?n) (0 :: u8)"
  define p1 where "p1 = pre @ [NON_DUP_MARKER, bool_byte (ai_is_signer info),
    bool_byte (ai_is_writable info)] @ pubkey_bytes (ai_pubkey info)"
  have p1: "length p1 = length pre + 35" by (simp add: p1_def)
  have i1: "input = p1 @ pubkey_bytes (acc_owner ?a) @ le_bytes 8 (acc_lamports ?a) @ ?len @ ?d @
      ?pad @ post"
    by (simp add: input p1_def)
  have len: "length input = length p1 + 48 + ?n + padding ?n + length post"
    by (simp add: i1)
  have n: "unat (of_nat ?n :: u64) = ?n"
    using small len by (intro unat_of_nat_exact) simp
  have own: "slice input (length p1) (length p1 + 32) = pubkey_bytes (acc_owner ?a)"
    by (simp add: i1 slice_def)
  have lam: "slice input (length p1 + 32) (length p1 + 40) = le_bytes 8 (acc_lamports ?a)"
    by (simp add: i1 slice_def)
  have dlen: "slice input (length p1 + 40) (length p1 + 48) = ?len"
    by (simp add: i1 slice_def)
  have dat: "slice input (length p1 + 48) (length p1 + 48 + ?n) = ?d"
    by (simp add: i1 slice_def)
  have lamw: "of_le_bytes (le_bytes 8 (acc_lamports ?a)) = acc_lamports ?a"
    by (rule of_le_bytes_le_bytes) simp
  have lenw: "unat (of_le_bytes ?len :: u64) = ?n"
    using n by (subst of_le_bytes_le_bytes) simp_all
  have same: "h[ai_account info := ?a\<lparr>acc_owner := acc_owner ?a, acc_lamports := acc_lamports ?a,
      acc_data := ?d\<rparr>] = h"
    by (simp add: cell_def)
  have marker: "input ! length pre = NON_DUP_MARKER" "input ! (length pre + 2) =
      bool_byte (ai_is_writable info)"
    by (simp_all add: input nth_append)
  show ?thesis
  proof (cases "ai_is_writable info")
    case True
    have "deserialize_writable input info (length p1) h = Ok (length p1 + 48 + ?n + padding ?n, h)"
      using small len own lam dlen dat lamw lenw same
      by (simp add: deserialize_writable_def Let_def usize_add_def add.assoc)
    then show ?thesis
      using marker True p1 len
      by (simp add: deserialize_account_def Let_def bool_byte_def add.commute add.left_commute)
  next
    case False
    have "deserialize_readonly input (length p1) h = Ok (length p1 + 48 + ?n + padding ?n, h)"
      using small len dlen lenw
      by (simp add: deserialize_readonly_def Let_def usize_add_def add.assoc)
    then show ?thesis
      using marker False p1 len
      by (simp add: deserialize_account_def Let_def bool_byte_def add.commute add.left_commute)
  qed
qed

lemma unat_numeral_255: "unat (255 :: u8) = 255"
  by simp

lemma deserialize_Duplicate:
  assumes "input = pre @ [d] @ post" and "d \<noteq> NON_DUP_MARKER"
  shows "deserialize_account input info (length pre, h) = Ok (length pre + 1, h)"
  using assms by (simp add: deserialize_account_def)

lemma deserialize_marked:
  assumes "input = pre @ concat (map2 serialize_one infos (mark_duplicates h infos i firsts)) @ post"
    and "length input < 2 ^ 64"
    and "i + length infos \<le> 255" and "\<forall>k j. firsts k = Some j \<longrightarrow> j < 255"
  shows "\<exists>offset. for_each (deserialize_account input) infos (length pre, h) = Ok (offset, h)"
  using assms
proof (induction infos arbitrary: pre i firsts)
  case Nil
  then show ?case by simp
next
  case (Cons info infos)
  show ?case
  proof (cases "firsts (ai_pubkey info)")
    case None
    let ?s = "serialize_one info (Original (cell h info))"
    let ?f = "firsts(ai_pubkey info \<mapsto> i)"
    let ?rest = "concat (map2 serialize_one infos (mark_duplicates h infos (i + 1) ?f)) @ post"
    have input: "input = pre @ ?s @ ?rest"
      using Cons.prems(1) None by (simp del: fun_upd_apply)
    then have "deserialize_account input info (length pre, h) = Ok (length (pre @ ?s), h)"
      unfolding length_append by (rule deserialize_Original [OF _ Cons.prems(2)])
    moreover have "\<exists>offset. for_each (deserialize_account input) infos (length (pre @ ?s), h) =
        Ok (offset, h)"
    proof (rule Cons.IH)
      show "input = (pre @ ?s) @ ?rest" using input by (simp del: serialize_one.simps)
      show "\<forall>k j. ?f k = Some j \<longrightarrow> j < 255" using Cons.prems(3,4) by auto
    qed (use Cons.prems in simp_all)
    ultimately show ?thesis by (simp del: serialize_one.simps)
  next
    case (Some j)
    let ?rest = "concat (map2 serialize_one infos (mark_duplicates h infos (i + 1) firsts)) @ post"
    have "j < 255" using Cons.prems(4) Some by blast
    then have "unat (of_nat j :: u8) = j" by (intro unat_of_nat_exact) simp
    with \<open>j < 255\<close> have d: "(of_nat j :: u8) \<noteq> NON_DUP_MARKER"
      by (metis NON_DUP_MARKER_def less_irrefl unat_numeral_255)
    have "input = pre @ [of_nat j] @ ?rest"
      using Cons.prems(1) Some by simp
    then have "deserialize_account input info (length pre, h) =
        Ok (length (pre @ [of_nat j :: u8]), h)"
      using d by (subst deserialize_Duplicate) auto
    moreover have "\<exists>offset. for_each (deserialize_account input) infos
        (length (pre @ [of_nat j :: u8]), h) = Ok (offset, h)"
      using Cons.prems Some by (intro Cons.IH [of _ "i + 1" firsts]) auto
    ultimately show ?thesis by simp
  qed
qed

lemma deserialize_serialize:
  assumes "serialize_parameters infos h instruction_data = Ok input"
    and "length infos \<le> 255" and "length input < 2 ^ 64"
  shows "deserialize_parameters infos input h = Ok h"
proof -
  let ?n = "le_bytes 8 (of_nat (length infos) :: u64)"
  have "input = ?n @ concat (map2 serialize_one infos (mark_duplicates h infos 0 Map.empty)) @
      le_bytes 8 (of_nat (length instruction_data) :: u64) @ instruction_data"
    using assms(1) by (simp add: serialize_parameters_def)
  then have "\<exists>offset. for_each (deserialize_account input) infos (length ?n, h) = Ok (offset, h)"
    by (rule deserialize_marked) (use assms in auto)
  then show ?thesis by (auto simp: deserialize_parameters_def)
qed

end
