(* ===== verification/Syscalls.thy ===== *)
theory Syscalls
  imports Runtime
begin

text \<open>
  \<^verbatim>\<open>src/syscalls.rs\<close>: the two system calls of a BPF program, which read a string from the
  program's memory and append to the transaction's log, and how a run of the virtual machine
  (\<^verbatim>\<open>solana_rbpf\<close>, a library) calls back into the invoke context.
\<close>

section \<open>Strings\<close>

text \<open>
  A Rust \<^verbatim>\<open>String\<close> is its UTF-8 bytes, which are the characters of a HOL string.
  \<open>utf8_rest\<close> reads one scalar value and gives the bytes after it, with the ranges of the
  standard's table of well-formed byte sequences.
\<close>

definition in_range :: "u8 \<Rightarrow> u8 \<Rightarrow> u8 \<Rightarrow> bool" where
  "in_range lo hi b \<longleftrightarrow> lo \<le> b \<and> b \<le> hi"

fun conts :: "(u8 \<times> u8) list \<Rightarrow> bytes \<Rightarrow> bytes option" where
  "conts [] bs = Some bs"
| "conts ((lo, hi) # rs) [] = None"
| "conts ((lo, hi) # rs) (b # bs) = (if in_range lo hi b then conts rs bs else None)"

fun utf8_rest :: "bytes \<Rightarrow> bytes option" where
  "utf8_rest [] = None"
| "utf8_rest (b # bs) =
     (if b \<le> 0x7F then Some bs
      else if in_range 0xC2 0xDF b then conts [(0x80, 0xBF)] bs
      else if b = 0xE0 then conts [(0xA0, 0xBF), (0x80, 0xBF)] bs
      else if b = 0xED then conts [(0x80, 0x9F), (0x80, 0xBF)] bs
      else if in_range 0xE1 0xEF b then conts [(0x80, 0xBF), (0x80, 0xBF)] bs
      else if b = 0xF0 then conts [(0x90, 0xBF), (0x80, 0xBF), (0x80, 0xBF)] bs
      else if b = 0xF4 then conts [(0x80, 0x8F), (0x80, 0xBF), (0x80, 0xBF)] bs
      else if in_range 0xF1 0xF3 b then conts [(0x80, 0xBF), (0x80, 0xBF), (0x80, 0xBF)] bs
      else None)"

lemma conts_length: "conts rs bs = Some t \<Longrightarrow> length t \<le> length bs"
  by (induction rs bs rule: conts.induct) (auto split: if_splits)

lemma utf8_rest_length: "utf8_rest bs = Some t \<Longrightarrow> length t < length bs"
  by (cases bs) (auto dest!: conts_length split: if_splits)

function utf8_valid :: "bytes \<Rightarrow> bool" where
  "utf8_valid bs =
     (bs = [] \<or> (case utf8_rest bs of None \<Rightarrow> False | Some t \<Rightarrow> utf8_valid t))"
  by pat_completeness auto
termination by (relation "measure length") (auto dest: utf8_rest_length)

declare utf8_valid.simps [simp del]

definition text_of :: "bytes \<Rightarrow> string" where
  "text_of bs = map (\<lambda>b. char_of (unat b)) bs"

definition from_utf8 :: "bytes \<Rightarrow> string option" where
  "from_utf8 bs = (if utf8_valid bs then Some (text_of bs) else None)"

text \<open>ASCII text is valid.\<close>

lemma utf8_valid_ascii: "list_all (\<lambda>b. b \<le> 0x7F) bs \<Longrightarrow> utf8_valid bs"
  by (induction bs) (simp_all add: utf8_valid.simps)

text \<open>The decimal text of an unsigned number.\<close>

definition digit :: "nat \<Rightarrow> char" where
  "digit d = char_of (48 + d)"

fun decimal :: "nat \<Rightarrow> string" where
  "decimal n = (if n < 10 then [digit n] else decimal (n div 10) @ [digit (n mod 10)])"

declare decimal.simps [simp del]

section \<open>System calls\<close>

datatype syscall_error =
    InvalidString
  | SyscallPanicked string u64 u64

definition syscall_error_text :: "syscall_error \<Rightarrow> string" where
  "syscall_error_text e =
     (case e of
        InvalidString \<Rightarrow> ''invalid string''
      | SyscallPanicked file line column \<Rightarrow>
          ''panic: '' @ file @ '' at '' @ decimal (unat line) @ '':'' @ decimal (unat column))"

definition syscall_error_into :: "syscall_error \<Rightarrow> program_error" where
  "syscall_error_into e = InternalError (syscall_error_text e)"

text \<open>The memory of the running program: the bytes at an address, where they may be loaded.\<close>

type_synonym memory_mapping = "u64 \<Rightarrow> u64 \<Rightarrow> bytes option"

definition translate_string ::
    "memory_mapping \<Rightarrow> u64 \<Rightarrow> u64 \<Rightarrow> (string, syscall_error) result" where
  "translate_string mem addr len =
     (if len = 0 then Ok []
      else case mem addr len of
        None \<Rightarrow> Err InvalidString
      | Some bytes \<Rightarrow> ok_or (from_utf8 bytes) InvalidString)"

definition push_log :: "string \<Rightarrow> invoke_context \<Rightarrow> invoke_context" where
  "push_log msg ctx = ctx\<lparr>ic_log_collector := ic_log_collector ctx @ [msg]\<rparr>"

definition sol_panic ::
    "memory_mapping \<Rightarrow> u64 \<Rightarrow> u64 \<Rightarrow> u64 \<Rightarrow> u64 \<Rightarrow> invoke_context \<Rightarrow>
     (u64, syscall_error) result \<times> invoke_context" where
  "sol_panic mem file_addr file_len line column ctx =
     (case translate_string mem file_addr file_len of
        Ok file \<Rightarrow>
          let msg = ''panic in '' @ file @ '' at line '' @ decimal (unat line) @ '', column '' @
                decimal (unat column) in
          (Err (SyscallPanicked file line column), push_log msg ctx)
      | Err e \<Rightarrow> (Err e, ctx)
      | Panic \<Rightarrow> (Panic, ctx))"

definition sol_log ::
    "memory_mapping \<Rightarrow> u64 \<Rightarrow> u64 \<Rightarrow> invoke_context \<Rightarrow>
     (u64, syscall_error) result \<times> invoke_context" where
  "sol_log mem addr len ctx =
     (case translate_string mem addr len of
        Ok message \<Rightarrow> (Ok 0, push_log message ctx)
      | Err e \<Rightarrow> (Err e, ctx)
      | Panic \<Rightarrow> (Panic, ctx))"

datatype syscall =
    SolPanic memory_mapping u64 u64 u64 u64
  | SolLog memory_mapping u64 u64

text \<open>The functions \<^verbatim>\<open>create_program_runtime\<close> registers.\<close>

primrec run_syscall ::
    "syscall \<Rightarrow> invoke_context \<Rightarrow> (u64, syscall_error) result \<times> invoke_context" where
  "run_syscall (SolPanic mem addr len line column) ctx = sol_panic mem addr len line column ctx"
| "run_syscall (SolLog mem addr len) ctx = sol_log mem addr len ctx"

lemma sol_panic_not_Ok: "fst (sol_panic mem addr len line column ctx) \<noteq> Ok r"
  by (auto simp: sol_panic_def Let_def split: result.splits)

text \<open>A system call appends at most one line to the log and touches nothing else.\<close>

lemma run_syscall_ctx:
  "run_syscall s ctx = (r, ctx') \<Longrightarrow> ctx' = ctx \<or> (\<exists>msg. ctx' = push_log msg ctx)"
  by (cases s) (auto simp: sol_panic_def sol_log_def Let_def split: result.splits)

section \<open>A run of the virtual machine\<close>

text \<open>
  The library executes the program; what it asks of this code is the interface
  \<^verbatim>\<open>ContextObject\<close> and the system calls. A run is the tree of these requests, ending in an
  instruction count, a result (the program's exit code or the text of the machine's error)
  and the input memory the program leaves.
\<close>

datatype vm_run =
    VmDone u64 "(u64, string) result" bytes
  | VmConsume u64 vm_run
  | VmRemaining "u64 \<Rightarrow> vm_run"
  | VmSyscall syscall "(u64, syscall_error) result \<Rightarrow> vm_run"

record 'exe vm_lib =
  vm_from_elf :: "bytes \<Rightarrow> ('exe, string) result"
  vm_verify :: "'exe \<Rightarrow> (unit, string) result"
  vm_memory_mapping :: "bytes \<Rightarrow> (unit, string) result"
  vm_execute_program :: "'exe \<Rightarrow> bytes \<Rightarrow> vm_run"

type_synonym vm_outcome = "u64 \<times> (u64, string) result \<times> bytes"

primrec run_vm ::
    "vm_run \<Rightarrow> invoke_context \<Rightarrow> (vm_outcome \<times> invoke_context, program_error) result" where
  "run_vm (VmDone n r mem) = (\<lambda>ctx. Ok ((n, r, mem), ctx))"
| "run_vm (VmConsume amount next) = (\<lambda>ctx. and_then (consume amount ctx) (run_vm next))"
| "run_vm (VmRemaining next) = (\<lambda>ctx. (run_vm \<circ> next) (get_remaining ctx) ctx)"
| "run_vm (VmSyscall s next) =
     (\<lambda>ctx. case run_syscall s ctx of (r, ctx') \<Rightarrow> (run_vm \<circ> next) r ctx')"

lemma consume_Panic [simp]: "consume amount ctx = Panic"
  by (simp add: consume_def Let_def)

text \<open>A run that reports what it consumed panics.\<close>

lemma run_vm_consume: "run_vm (VmConsume amount next) ctx = Panic"
  by simp

end
