(* ===== verification/System_Program.thy ===== *)
theory System_Program
  imports Runtime
begin

text \<open>
  \<^verbatim>\<open>src/programs/system_program.rs\<close>: transfers, owner changes and account creation, the two
  instructions other programs build for it, and what they preserve: the lamports of a
  transaction's accounts, and the accounts of those who did not sign.
\<close>

section \<open>Instructions\<close>

datatype system_instruction =
    SystemTransfer u64
  | SystemAssign pubkey
  | SystemCreateAccount u64 u64 pubkey

definition create_assign_instruction ::
    "system_instruction codec \<Rightarrow> pubkey \<Rightarrow> pubkey \<Rightarrow> (instruction, program_error) result" where
  "create_assign_instruction c target_pubkey new_owner_pubkey =
     and_then (ok_or (ser c (SystemAssign new_owner_pubkey)) InvalidInstructionData) (\<lambda>data.
     Ok \<lparr>ix_program_id = SYSTEM_PROGRAM_ID,
         ix_accounts =
           [\<lparr>am_pubkey = target_pubkey, am_is_signer = True, am_is_writable = True\<rparr>],
         ix_data = data\<rparr>)"

definition create_account_instruction ::
    "system_instruction codec \<Rightarrow> pubkey \<Rightarrow> pubkey \<Rightarrow> u64 \<Rightarrow> u64 \<Rightarrow> pubkey \<Rightarrow>
     (instruction, program_error) result" where
  "create_account_instruction c from_pubkey to_pubkey lamports space owner =
     and_then (ok_or (ser c (SystemCreateAccount lamports space owner)) InvalidInstructionData)
       (\<lambda>data.
     Ok \<lparr>ix_program_id = SYSTEM_PROGRAM_ID,
         ix_accounts =
           [\<lparr>am_pubkey = from_pubkey, am_is_signer = True, am_is_writable = True\<rparr>,
            \<lparr>am_pubkey = to_pubkey, am_is_signer = True, am_is_writable = True\<rparr>],
         ix_data = data\<rparr>)"

section \<open>The entrypoint\<close>

text \<open>
  The move of lamports both branches share. The second read comes after the first write, so
  it sees it when the two infos share a cell.
\<close>

definition move_lamports ::
    "account_info \<Rightarrow> account_info \<Rightarrow> u64 \<Rightarrow> heap \<Rightarrow> (heap, program_error) result" where
  "move_lamports from to lamports h =
     and_then (ai_lamports from h) (\<lambda>l.
     and_then (set_lamports from (saturating_sub l lamports) h) (\<lambda>h.
     and_then (ai_lamports to h) (\<lambda>l.
     set_lamports to (saturating_add l lamports) h)))"

definition system_transfer ::
    "u64 \<Rightarrow> account_info list \<Rightarrow> heap \<Rightarrow> (heap, program_error) result" where
  "system_transfer lamports infos h =
     (if length infos < 2 then Err (InternalError ''transfer requires 2 accounts'')
      else let from = infos ! 0; to = infos ! 1 in
      if \<not> ai_is_signer from then Err MissingRequiredSignature
      else and_then (ai_lamports from h) (\<lambda>l.
      if l < lamports then Err InsufficientFunds
      else move_lamports from to lamports h))"

definition system_assign ::
    "pubkey \<Rightarrow> account_info list \<Rightarrow> heap \<Rightarrow> (heap, program_error) result" where
  "system_assign owner infos h =
     (if length infos < 1 then Err (InternalError ''assign requires 1 account'')
      else let target_account = infos ! 0 in
      if \<not> ai_is_signer target_account then Err MissingRequiredSignature
      else set_owner target_account owner h)"

text \<open>\<^verbatim>\<open>vec![0; n]\<close> panics when the vector would be larger than \<^verbatim>\<open>isize::MAX\<close> bytes.\<close>

definition vec_zeroes :: "u64 \<Rightarrow> (bytes, program_error) result" where
  "vec_zeroes n = (if unat n < 2 ^ 63 then Ok (replicate (unat n) 0) else Panic)"

definition system_create_account ::
    "u64 \<Rightarrow> u64 \<Rightarrow> pubkey \<Rightarrow> account_info list \<Rightarrow> heap \<Rightarrow> (heap, program_error) result" where
  "system_create_account lamports space owner infos h =
     (if length infos < 2 then Err NotEnoughAccountKeys
      else let from = infos ! 0; to = infos ! 1 in
      if \<not> ai_is_signer from \<or> \<not> ai_is_signer to then Err MissingRequiredSignature
      else and_then (ai_lamports from h) (\<lambda>l.
      if l < lamports then Err InsufficientFunds
      else and_then (move_lamports from to lamports h) (\<lambda>h.
      and_then (vec_zeroes space) (\<lambda>zeroes.
      and_then (set_data to zeroes h) (\<lambda>h.
      set_owner to owner h)))))"

definition system_entrypoint ::
    "system_instruction codec \<Rightarrow> invoke_context \<Rightarrow> account_info list \<Rightarrow> heap \<Rightarrow>
     (heap, program_error) result" where
  "system_entrypoint c ctx infos h =
     and_then (ok_or (de c (ic_instruction_data ctx)) InvalidInstructionData) (\<lambda>ix.
     case ix of
       SystemTransfer lamports \<Rightarrow> system_transfer lamports infos h
     | SystemAssign owner \<Rightarrow> system_assign owner infos h
     | SystemCreateAccount lamports space owner \<Rightarrow>
         system_create_account lamports space owner infos h)"

section \<open>Moving lamports\<close>

lemma move_lamports_Ok:
  "move_lamports from to x h = Ok h' \<Longrightarrow> length h' = length h"
  by (auto simp: move_lamports_def heap_ops)

lemma move_lamports_total:
  assumes "move_lamports from to x h = Ok h'"
    and "ai_account from < length h" "ai_account to < length h"
    and "x \<le> acc_lamports (cell h from)" and "total_lamports h < 2 ^ 64"
  shows "total_lamports h' = total_lamports h"
proof -
  let ?i = "ai_account from" and ?j = "ai_account to"
  let ?l = "acc_lamports (h ! ?i)"
  define h1 where "h1 = h[?i := (h ! ?i)\<lparr>acc_lamports := saturating_sub ?l x\<rparr>]"
  define h2 where "h2 = h1[?j := (h1 ! ?j)\<lparr>acc_lamports := saturating_add (acc_lamports (h1 ! ?j)) x\<rparr>]"
  have h': "h' = h2"
    using assms(1) by (simp add: move_lamports_def heap_ops h1_def h2_def)
  have x: "unat x \<le> unat ?l" using assms(4) by (simp add: cell_def word_le_nat_alt)
  have t1: "total_lamports h1 + unat x = total_lamports h"
    using total_lamports_update [OF assms(2), of "(h ! ?i)\<lparr>acc_lamports := saturating_sub ?l x\<rparr>"] x
    by (simp add: h1_def word_nat_simps)
  have j: "?j < length h1" using assms(3) by (simp add: h1_def)
  have "unat (acc_lamports (h1 ! ?j)) + unat x < 2 ^ 64"
    using total_lamports_ge [OF j] t1 assms(5) by linarith
  then have "unat (saturating_add (acc_lamports (h1 ! ?j)) x) = unat (acc_lamports (h1 ! ?j)) + unat x"
    by (simp add: saturating_add_exact)
  then have "total_lamports h2 = total_lamports h1 + unat x"
    using total_lamports_update [OF j, of "(h1 ! ?j)\<lparr>acc_lamports :=
      saturating_add (acc_lamports (h1 ! ?j)) x\<rparr>"] by (simp add: h2_def)
  with h' t1 show ?thesis by simp
qed

lemma move_lamports_cells:
  assumes "move_lamports from to x h = Ok h'" and "ai_account from \<noteq> ai_account to"
    and "ai_account from < length h" "ai_account to < length h"
  shows "cell h' from = (cell h from)\<lparr>acc_lamports := saturating_sub (acc_lamports (cell h from)) x\<rparr>"
    and "cell h' to = (cell h to)\<lparr>acc_lamports := saturating_add (acc_lamports (cell h to)) x\<rparr>"
  using assms by (auto simp: move_lamports_def heap_ops)

lemma move_lamports_frame:
  "move_lamports from to x h = Ok h' \<Longrightarrow> i \<noteq> ai_account from \<Longrightarrow> i \<noteq> ai_account to \<Longrightarrow> h' ! i = h ! i"
  by (auto simp: move_lamports_def heap_ops)

text \<open>Only the source of a move can lose lamports, and a move touches nothing else.\<close>

lemma move_lamports_source:
  assumes "move_lamports from to x h = Ok h'" and "i < length h" and "i \<noteq> ai_account from"
  shows "acc_lamports (h ! i) \<le> acc_lamports (h' ! i)"
  using assms le_saturating_add
  by (cases "i = ai_account to") (auto simp: move_lamports_def heap_ops)

lemma move_lamports_other_fields:
  assumes "move_lamports from to x h = Ok h'" and "i < length h"
  shows "(h' ! i)\<lparr>acc_lamports := l\<rparr> = (h ! i)\<lparr>acc_lamports := l\<rparr>"
  using assms
  by (cases "i = ai_account to"; cases "i = ai_account from")
    (auto simp: move_lamports_def heap_ops nth_list_update)

section \<open>What an instruction preserves\<close>

lemma total_lamports_same:
  "i < length h \<Longrightarrow> acc_lamports a = acc_lamports (h ! i) \<Longrightarrow> total_lamports (h[i := a]) = total_lamports h"
  using total_lamports_update [of i h a] by simp

lemma system_create_account_Ok:
  assumes "system_create_account lamports space owner infos h = Ok h'"
  obtains h1 where "length infos \<ge> 2" "ai_is_signer (infos ! 0)" "ai_is_signer (infos ! 1)"
    "lamports \<le> acc_lamports (cell h (infos ! 0))"
    "move_lamports (infos ! 0) (infos ! 1) lamports h = Ok h1" "unat space < 2 ^ 63"
    "h' = h1[ai_account (infos ! 1) := (cell h1 (infos ! 1))
       \<lparr>acc_data := replicate (unat space) 0, acc_owner := owner\<rparr>]"
proof -
  let ?j = "ai_account (infos ! 1)"
  show thesis
  proof (cases "?j < length h")
    case True
    with assms show thesis
      by (auto simp: system_create_account_def Let_def vec_zeroes_def ai_lamports_def
          set_data_def set_owner_def cell_def move_lamports_Ok split: if_splits intro!: that)
  next
    case False
    with assms show thesis
      by (auto simp: system_create_account_def Let_def vec_zeroes_def ai_lamports_def
          set_data_def set_owner_def cell_def list_update_beyond move_lamports_Ok
          split: if_splits intro!: that)
  qed
qed

lemma system_transfer_Ok_iff:
  "system_transfer lamports infos h = Ok h' \<longleftrightarrow>
     length infos \<ge> 2 \<and> ai_is_signer (infos ! 0) \<and>
     lamports \<le> acc_lamports (cell h (infos ! 0)) \<and>
     move_lamports (infos ! 0) (infos ! 1) lamports h = Ok h'"
  by (auto simp: system_transfer_def Let_def ai_lamports_def)

lemma system_assign_Ok_iff:
  "system_assign owner infos h = Ok h' \<longleftrightarrow>
     infos \<noteq> [] \<and> ai_is_signer (infos ! 0) \<and>
     h' = h[ai_account (infos ! 0) := (cell h (infos ! 0))\<lparr>acc_owner := owner\<rparr>]"
  by (cases infos) (auto simp: system_assign_def set_owner_def)

lemma system_entrypoint_cases:
  assumes "system_entrypoint c ctx infos h = Ok h'"
  obtains lamports where "system_transfer lamports infos h = Ok h'"
  | owner where "system_assign owner infos h = Ok h'"
  | lamports space owner where "system_create_account lamports space owner infos h = Ok h'"
proof -
  obtain ix where ix: "de c (ic_instruction_data ctx) = Some ix"
    using assms by (auto simp: system_entrypoint_def)
  then show thesis using assms that by (cases ix) (auto simp: system_entrypoint_def)
qed

lemma system_entrypoint_length:
  "system_entrypoint c ctx infos h = Ok h' \<Longrightarrow> length h' = length h"
  by (elim system_entrypoint_cases system_create_account_Ok)
    (auto simp: system_transfer_Ok_iff system_assign_Ok_iff move_lamports_Ok)

lemma system_entrypoint_total:
  assumes ok: "system_entrypoint c ctx infos h = Ok h'"
    and wf: "infos_wf infos h" and small: "total_lamports h < 2 ^ 64"
  shows "total_lamports h' = total_lamports h"
  using ok
proof (cases rule: system_entrypoint_cases)
  case 1
  with wf small show ?thesis
    by (auto simp: system_transfer_Ok_iff intro!: move_lamports_total infos_wf_nth)
next
  case 2
  with wf infos_wf_nth [OF wf, of 0] show ?thesis
    by (auto simp: system_assign_Ok_iff cell_def intro!: total_lamports_same)
next
  case (3 lamports space owner)
  then show ?thesis
  proof (rule system_create_account_Ok)
    fix h1 assume len: "length infos \<ge> 2"
      and le: "lamports \<le> acc_lamports (cell h (infos ! 0))"
      and mv: "move_lamports (infos ! 0) (infos ! 1) lamports h = Ok h1"
      and h': "h' = h1[ai_account (infos ! 1) := (cell h1 (infos ! 1))
         \<lparr>acc_data := replicate (unat space) 0, acc_owner := owner\<rparr>]"
    have ij: "ai_account (infos ! 0) < length h" "ai_account (infos ! 1) < length h"
      using len by (auto intro!: infos_wf_nth [OF wf])
    have "total_lamports h1 = total_lamports h"
      using mv ij le small by (rule move_lamports_total)
    moreover have "total_lamports h' = total_lamports h1"
      unfolding h' using ij move_lamports_Ok [OF mv]
      by (intro total_lamports_same) (simp_all add: cell_def)
    ultimately show ?thesis by simp
  qed
qed

text \<open>An account loses lamports or changes its owner or data only if one of its infos is a signer.\<close>

definition signed :: "account_info list \<Rightarrow> nat \<Rightarrow> bool" where
  "signed infos i \<longleftrightarrow> list_ex (\<lambda>info. ai_account info = i \<and> ai_is_signer info) infos"

lemma signed_nth: "j < length infos \<Longrightarrow> ai_is_signer (infos ! j) \<Longrightarrow> signed infos (ai_account (infos ! j))"
  by (auto simp: signed_def list_ex_length)

lemma system_entrypoint_unsigned:
  assumes ok: "system_entrypoint c ctx infos h = Ok h'"
    and i: "i < length h" and unsigned: "\<not> signed infos i"
  shows "acc_lamports (h ! i) \<le> acc_lamports (h' ! i)"
    and "(h' ! i)\<lparr>acc_lamports := acc_lamports (h ! i)\<rparr> = h ! i"
proof -
  have neq: "i \<noteq> ai_account (infos ! j)" if "j < length infos" "ai_is_signer (infos ! j)" for j
    using that unsigned signed_nth by metis
  from ok have "acc_lamports (h ! i) \<le> acc_lamports (h' ! i) \<and>
      (h' ! i)\<lparr>acc_lamports := acc_lamports (h ! i)\<rparr> = h ! i"
  proof (cases rule: system_entrypoint_cases)
    case 1
    then have "0 < length infos" by (cases infos) (auto simp: system_transfer_Ok_iff)
    with 1 have "i \<noteq> ai_account (infos ! 0)"
      and mv: "\<exists>x. move_lamports (infos ! 0) (infos ! 1) x h = Ok h'"
      using neq [of 0] by (auto simp only: system_transfer_Ok_iff)
    then show ?thesis
      using i move_lamports_source move_lamports_other_fields by fastforce
  next
    case 2
    then have "i \<noteq> ai_account (infos ! 0)" using neq [of 0] by (auto simp: system_assign_Ok_iff)
    with 2 show ?thesis by (auto simp: system_assign_Ok_iff)
  next
    case (3 lamports space owner)
    then show ?thesis
    proof (rule system_create_account_Ok)
      fix h1 assume "length infos \<ge> 2" "ai_is_signer (infos ! 0)" "ai_is_signer (infos ! 1)"
        and mv: "move_lamports (infos ! 0) (infos ! 1) lamports h = Ok h1"
        and h': "h' = h1[ai_account (infos ! 1) := (cell h1 (infos ! 1))
           \<lparr>acc_data := replicate (unat space) 0, acc_owner := owner\<rparr>]"
      then have "0 < length infos" "1 < length infos" by linarith+
      with \<open>ai_is_signer (infos ! 0)\<close> \<open>ai_is_signer (infos ! 1)\<close>
      have "i \<noteq> ai_account (infos ! 0)" "i \<noteq> ai_account (infos ! 1)"
        using neq [of 0] neq [of 1] by blast+
      then show ?thesis using move_lamports_frame [OF mv] by (simp add: h')
    qed
  qed
  then show "acc_lamports (h ! i) \<le> acc_lamports (h' ! i)"
    and "(h' ! i)\<lparr>acc_lamports := acc_lamports (h ! i)\<rparr> = h ! i" by blast+
qed

end
