(* ===== verification/Token_Program.thy ===== *)
theory Token_Program
  imports System_Program
begin

text \<open>
  \<^verbatim>\<open>src/programs/token_program.rs\<close>: mints and token accounts kept in account data, with
  minting, transfers, the change of authority through the system program, and the two
  initialisations. The lemmas give each operation's effect as the mint and the token
  accounts decoded before and after, conservation of tokens where source and destination
  are two accounts, and what happens where they are one.
\<close>

section \<open>Errors\<close>

datatype token_error =
    TokenNotEnoughAccountKeys
  | TokenMissingRequiredSignature
  | AuthorityMismatch
  | TokenAccountMintMismatch
  | SourceNotOwnedBySigner
  | MintMismatch
  | AlreadyInitialized
  | MintNotInitialized
  | NotRentExempt
  | TokenInsufficientFunds

text \<open>\<^verbatim>\<open>e as u32\<close>: the position of the variant.\<close>

primrec token_error_code :: "token_error \<Rightarrow> u32" where
  "token_error_code TokenNotEnoughAccountKeys = 0"
| "token_error_code TokenMissingRequiredSignature = 1"
| "token_error_code AuthorityMismatch = 2"
| "token_error_code TokenAccountMintMismatch = 3"
| "token_error_code SourceNotOwnedBySigner = 4"
| "token_error_code MintMismatch = 5"
| "token_error_code AlreadyInitialized = 6"
| "token_error_code MintNotInitialized = 7"
| "token_error_code NotRentExempt = 8"
| "token_error_code TokenInsufficientFunds = 9"

fun token_error_into :: "token_error \<Rightarrow> program_error" where
  "token_error_into TokenInsufficientFunds = InsufficientFunds"
| "token_error_into TokenNotEnoughAccountKeys = NotEnoughAccountKeys"
| "token_error_into TokenMissingRequiredSignature = MissingRequiredSignature"
| "token_error_into e = Custom (token_error_code e)"

abbreviation token_err :: "token_error \<Rightarrow> ('a, program_error) result" where
  "token_err e \<equiv> Err (token_error_into e)"

text \<open>
  The error type of \<^verbatim>\<open>solana_program\<close>, by the one variant the conversion tells apart and
  the debug text of any other.
\<close>

datatype external_error = ExternalInvalidAccountData | ExternalOther string

primrec from_external :: "external_error \<Rightarrow> program_error" where
  "from_external ExternalInvalidAccountData = InvalidAccountData"
| "from_external (ExternalOther t) = InternalError (''external program error: '' @ t)"

section \<open>State\<close>

record mint =
  mint_authority :: pubkey
  mint_supply :: u64
  mint_decimals :: u8
  mint_is_initialized :: bool

record token_account =
  ta_mint :: pubkey
  ta_owner :: pubkey
  ta_amount :: u64
  ta_is_initialized :: bool

definition MINT_LEN :: nat where "MINT_LEN = 32 + 8 + 1 + 1"
definition TOKEN_ACCOUNT_LEN :: nat where "TOKEN_ACCOUNT_LEN = 32 + 32 + 8 + 1"

text \<open>The two implementations of \<^verbatim>\<open>Pack\<close> are the same over their codecs.\<close>

definition unpack_from_slice :: "'a codec \<Rightarrow> bytes \<Rightarrow> ('a, external_error) result" where
  "unpack_from_slice c src = ok_or (de c src) ExternalInvalidAccountData"

definition pack_into_slice :: "'a codec \<Rightarrow> 'a \<Rightarrow> bytes \<Rightarrow> (bytes, program_error) result" where
  "pack_into_slice c x dst =
     and_then (unwrap (ser c x)) (\<lambda>packed.
       if length packed > length dst then Panic else Ok (packed @ drop (length packed) dst))"

datatype token_instruction =
    TokenMint u64
  | TokenTransfer u64
  | TokenSetAuthority pubkey
  | TokenInitializeMint u8 pubkey
  | TokenInitializeAccount

text \<open>
  The rent and clock sysvars of \<^verbatim>\<open>solana_program\<close>: decoding, by \<^verbatim>\<open>bincode::options()\<close> in
  the token program and \<^verbatim>\<open>bincode::deserialize\<close> in the loader, and the two questions the
  programs ask.
\<close>

record 'rent sysvars =
  rent_de :: "bytes \<Rightarrow> 'rent option"
  rent_de_free :: "bytes \<Rightarrow> 'rent option"
  rent_is_exempt :: "'rent \<Rightarrow> u64 \<Rightarrow> nat \<Rightarrow> bool"
  rent_minimum_balance :: "'rent \<Rightarrow> nat \<Rightarrow> u64"
  clock_slot :: "bytes \<Rightarrow> u64 option"

text \<open>The codecs of the token program.\<close>

record token_codecs =
  tc_instruction :: "token_instruction codec"
  tc_mint :: "mint codec"
  tc_account :: "token_account codec"

section \<open>Operations\<close>

definition unpack_info :: "'a codec \<Rightarrow> account_info \<Rightarrow> heap \<Rightarrow> ('a, program_error) result" where
  "unpack_info c info h =
     and_then (try_borrow_data info h) (\<lambda>data. map_err from_external (unpack_from_slice c data))"

definition pack_info ::
    "'a codec \<Rightarrow> 'a \<Rightarrow> account_info \<Rightarrow> heap \<Rightarrow> (heap, program_error) result" where
  "pack_info c x info h =
     and_then (try_borrow_data info h) (\<lambda>dst.
     and_then (pack_into_slice c x dst) (\<lambda>data. set_data info data h))"

definition token_mint ::
    "token_codecs \<Rightarrow> u64 \<Rightarrow> account_info list \<Rightarrow> heap \<Rightarrow> (heap, program_error) result" where
  "token_mint tc amount infos h =
     (if length infos < 3 then token_err TokenNotEnoughAccountKeys
      else let mint_authority_info = infos ! 0; mint_info = infos ! 1; destination_info = infos ! 2 in
      if \<not> ai_is_signer mint_authority_info then token_err TokenMissingRequiredSignature
      else and_then (unpack_info (tc_mint tc) mint_info h) (\<lambda>mint.
      if mint_authority mint \<noteq> ai_pubkey mint_authority_info then token_err AuthorityMismatch
      else and_then (unpack_info (tc_account tc) destination_info h) (\<lambda>destination_account.
      if ta_mint destination_account \<noteq> ai_pubkey mint_info then token_err TokenAccountMintMismatch
      else
      let mint = mint\<lparr>mint_supply := saturating_add (mint_supply mint) amount\<rparr>;
          destination_account = destination_account
            \<lparr>ta_amount := saturating_add (ta_amount destination_account) amount\<rparr> in
      and_then (pack_info (tc_mint tc) mint mint_info h) (\<lambda>h.
      pack_info (tc_account tc) destination_account destination_info h))))"

definition token_transfer ::
    "token_codecs \<Rightarrow> u64 \<Rightarrow> account_info list \<Rightarrow> heap \<Rightarrow> (heap, program_error) result" where
  "token_transfer tc amount infos h =
     (if length infos < 3 then token_err TokenNotEnoughAccountKeys
      else let owner_info = infos ! 0; source_info = infos ! 1; destination_info = infos ! 2 in
      if \<not> ai_is_signer owner_info then token_err TokenMissingRequiredSignature
      else and_then (unpack_info (tc_account tc) source_info h) (\<lambda>source_account.
      if ta_owner source_account \<noteq> ai_pubkey owner_info then token_err SourceNotOwnedBySigner
      else and_then (unpack_info (tc_account tc) destination_info h) (\<lambda>destination_account.
      if ta_mint source_account \<noteq> ta_mint destination_account then token_err MintMismatch
      else if ta_amount source_account < amount then token_err TokenInsufficientFunds
      else
      let source_account = source_account
            \<lparr>ta_amount := saturating_sub (ta_amount source_account) amount\<rparr>;
          destination_account = destination_account
            \<lparr>ta_amount := saturating_add (ta_amount destination_account) amount\<rparr> in
      and_then (pack_info (tc_account tc) source_account source_info h) (\<lambda>h.
      pack_info (tc_account tc) destination_account destination_info h))))"

definition token_set_authority ::
    "system_instruction codec \<Rightarrow> executor \<Rightarrow> pubkey \<Rightarrow> invoke_context \<Rightarrow> account_info list \<Rightarrow>
     heap \<Rightarrow> program_cache \<Rightarrow> (invoke_context \<times> heap) outcome" where
  "token_set_authority sc execute new_authority ctx infos h cache =
     (if length infos < 2 then (token_err TokenNotEnoughAccountKeys, cache)
      else let target_account_info = infos ! 0; current_authority_info = infos ! 1 in
      if \<not> ai_is_signer current_authority_info
      then (token_err TokenMissingRequiredSignature, cache)
      else run_then (lift_result
             (create_assign_instruction sc (ai_pubkey target_account_info) new_authority) cache)
        (\<lambda>assign_instruction. invoke execute ctx assign_instruction [target_account_info] h))"

definition token_initialize_mint ::
    "token_codecs \<Rightarrow> 'rent sysvars \<Rightarrow> u8 \<Rightarrow> pubkey \<Rightarrow> account_info list \<Rightarrow> heap \<Rightarrow>
     (heap, program_error) result" where
  "token_initialize_mint tc sv decimals authority infos h =
     (if length infos < 2 then token_err TokenNotEnoughAccountKeys
      else let mint_info = infos ! 0; rent_info = infos ! 1 in
      and_then (try_borrow_data rent_info h) (\<lambda>rent_data.
      and_then (ok_or (rent_de sv rent_data)
          (InternalError ''failed to deserialize rent sysvar'')) (\<lambda>rent.
      and_then (map_err (\<lambda>_. InvalidAccountData) (unpack_info (tc_mint tc) mint_info h)) (\<lambda>mint.
      if mint_is_initialized mint then token_err AlreadyInitialized
      else and_then (ai_lamports mint_info h) (\<lambda>lamports.
      and_then (try_borrow_data mint_info h) (\<lambda>data.
      if \<not> rent_is_exempt sv rent lamports (length data) then token_err NotRentExempt
      else
      let mint = mint\<lparr>mint_authority := authority, mint_decimals := decimals,
            mint_is_initialized := True, mint_supply := 0\<rparr> in
      pack_info (tc_mint tc) mint mint_info h))))))"

definition token_initialize_account ::
    "token_codecs \<Rightarrow> 'rent sysvars \<Rightarrow> account_info list \<Rightarrow> heap \<Rightarrow> (heap, program_error) result" where
  "token_initialize_account tc sv infos h =
     (if length infos < 4 then token_err TokenNotEnoughAccountKeys
      else let token_account_info = infos ! 0; mint_info = infos ! 1; owner_info = infos ! 2;
               rent_info = infos ! 3 in
      and_then (try_borrow_data rent_info h) (\<lambda>rent_data.
      and_then (ok_or (rent_de sv rent_data)
          (InternalError ''failed to deserialize rent sysvar'')) (\<lambda>rent.
      and_then (map_err (\<lambda>_. InvalidAccountData) (unpack_info (tc_account tc) token_account_info h))
        (\<lambda>token_account.
      if ta_is_initialized token_account then token_err AlreadyInitialized
      else and_then (ai_lamports token_account_info h) (\<lambda>lamports.
      and_then (try_borrow_data token_account_info h) (\<lambda>data.
      if \<not> rent_is_exempt sv rent lamports (length data) then token_err NotRentExempt
      else and_then (map_err (\<lambda>_. InvalidAccountData) (unpack_info (tc_mint tc) mint_info h)) (\<lambda>mint.
      if \<not> mint_is_initialized mint then token_err MintNotInitialized
      else
      let token_account = token_account\<lparr>ta_mint := ai_pubkey mint_info,
            ta_owner := ai_pubkey owner_info, ta_is_initialized := True, ta_amount := 0\<rparr> in
      pack_info (tc_account tc) token_account token_account_info h)))))))"

definition with_ctx ::
    "invoke_context \<Rightarrow> (heap, program_error) result \<Rightarrow> program_cache \<Rightarrow>
     (invoke_context \<times> heap) outcome" where
  "with_ctx ctx r cache = lift_result (and_then r (\<lambda>h. Ok (ctx, h))) cache"

definition token_entrypoint ::
    "token_codecs \<Rightarrow> system_instruction codec \<Rightarrow> 'rent sysvars \<Rightarrow> executor \<Rightarrow> invoke_context \<Rightarrow>
     account_info list \<Rightarrow> heap \<Rightarrow> program_cache \<Rightarrow> (invoke_context \<times> heap) outcome" where
  "token_entrypoint tc sc sv execute ctx infos h cache =
     run_then (lift_result
         (ok_or (de (tc_instruction tc) (ic_instruction_data ctx)) InvalidInstructionData) cache)
       (\<lambda>ix cache. case ix of
          TokenMint amount \<Rightarrow> with_ctx ctx (token_mint tc amount infos h) cache
        | TokenTransfer amount \<Rightarrow> with_ctx ctx (token_transfer tc amount infos h) cache
        | TokenSetAuthority new_authority \<Rightarrow>
            token_set_authority sc execute new_authority ctx infos h cache
        | TokenInitializeMint decimals authority \<Rightarrow>
            with_ctx ctx (token_initialize_mint tc sv decimals authority infos h) cache
        | TokenInitializeAccount \<Rightarrow>
            with_ctx ctx (token_initialize_account tc sv infos h) cache)"

section \<open>Packed state\<close>

text \<open>
  What the operations rely on: a packed value has a fixed length, \<open>n\<close>, and unpacking is
  the inverse of packing. An account that unpacks has exactly that length, so packing into it
  cannot panic.
\<close>

locale packable = strict_codec c "\<lambda>_. True" + sized_codec c n for c :: "'a codec" and n
begin

lemma unpack_info_Ok:
  "unpack_info c info h = Ok x \<longleftrightarrow> ser c x = Some (acc_data (cell h info))"
  using de_iff by (auto simp: unpack_info_def unpack_from_slice_def try_borrow_data_def)

lemma unpack_info_length:
  "unpack_info c info h = Ok x \<Longrightarrow> length (acc_data (cell h info)) = n"
  using ser_length by (auto simp: unpack_info_Ok)

lemma de_length: "de c bs = Some x \<Longrightarrow> length bs = n"
  using de_exact ser_length by blast

lemma pack_info_Ok:
  assumes "length (acc_data (cell h info)) = n"
  obtains bs where "ser c x = Some bs" "length bs = n"
    "pack_info c x info h = Ok (h[ai_account info := (cell h info)\<lparr>acc_data := bs\<rparr>])"
proof -
  obtain bs where bs: "ser c x = Some bs" using ser_total by blast
  moreover from this have "length bs = n" by (rule ser_length)
  ultimately show thesis
    using assms that by (simp add: pack_info_def pack_into_slice_def try_borrow_data_def set_data_def)
qed

lemma pack_info_short:
  "length (acc_data (cell h info)) < n \<Longrightarrow> pack_info c x info h = Panic"
  using ser_total [of x] ser_length
  by (auto simp: pack_info_def pack_into_slice_def try_borrow_data_def and_then_Panic_iff)

end

definition decoded :: "'a codec \<Rightarrow> heap \<Rightarrow> nat \<Rightarrow> 'a option" where
  "decoded c h i = (if i < length h then de c (acc_data (h ! i)) else None)"

lemma unpack_info_decoded:
  "ai_account info < length h \<Longrightarrow>
     unpack_info c info h = ok_or (decoded c h (ai_account info)) InvalidAccountData"
  by (cases "de c (acc_data (h ! ai_account info))")
    (simp_all add: unpack_info_def unpack_from_slice_def try_borrow_data_def decoded_def cell_def)

lemma decoded_length:
  "packable c n \<Longrightarrow> decoded c h i = Some x \<Longrightarrow> i < length h \<and> length (acc_data (h ! i)) = n"
  using packable.de_length by (fastforce simp: decoded_def split: if_splits)

lemma pack_info_decoded:
  assumes c: "packable c n" and i: "ai_account info < length h"
    and len: "length (acc_data (cell h info)) = n"
  obtains h' where "pack_info c x info h = Ok h'" "length h' = length h"
    "decoded c h' = (decoded c h)(ai_account info \<mapsto> x)"
    "\<And>j. j \<noteq> ai_account info \<Longrightarrow> h' ! j = h ! j"
    "length (acc_data (cell h' info)) = n"
proof (rule packable.pack_info_Ok [OF c len, of x])
  fix bs assume bs: "ser c x = Some bs" "length bs = n"
    and pack: "pack_info c x info h = Ok (h[ai_account info := (cell h info)\<lparr>acc_data := bs\<rparr>])"
  have dec: "de c bs = Some x"
    using bs(1) strict_codec.de_iff [OF packable.axioms(1) [OF c]] by blast
  show thesis
  proof (rule that [OF pack])
    show "decoded c (h[ai_account info := (cell h info)\<lparr>acc_data := bs\<rparr>]) =
        (decoded c h)(ai_account info \<mapsto> x)"
      using dec i by (auto simp: decoded_def fun_eq_iff)
  qed (use i bs(2) in \<open>auto simp: cell_def\<close>)
qed

lemma pack_info_frame:
  assumes c: "packable c n" "length (acc_data (cell h info)) = n"
    and c': "packable c' m" "m \<noteq> n"
    and pack: "pack_info c x info h = Ok h'"
  shows "decoded c' h' = decoded c' h"
proof (rule packable.pack_info_Ok [OF c, of x])
  fix bs assume bs: "length bs = n"
    and "pack_info c x info h = Ok (h[ai_account info := (cell h info)\<lparr>acc_data := bs\<rparr>])"
  then have h': "h' = h[ai_account info := (cell h info)\<lparr>acc_data := bs\<rparr>]" using pack by simp
  have none: "de c' d = None" if "length d = n" for d
    using packable.de_length [OF c'(1), of d] that c'(2) by (cases "de c' d") auto
  have "decoded c' h' j = decoded c' h j" for j
    using bs c(2) none
    by (cases "j = ai_account info") (auto simp: h' decoded_def cell_def)
  then show ?thesis by blast
qed

text \<open>A pack writes the data of one account and no other field of any.\<close>

lemma pack_info_only_data: "pack_info c x info h = Ok h' \<Longrightarrow> only_data h h'"
  by (auto simp: pack_info_def dest: set_data_only_data)

lemma pack_two_only_data:
  "pack_info c x a h = Ok h1 \<Longrightarrow> pack_info c' y b h1 = Ok h' \<Longrightarrow> only_data h h'"
  by (metis only_data_trans pack_info_only_data)

lemma token_operations_only_data:
  "token_mint tc amount infos h = Ok h' \<Longrightarrow> only_data h h'"
  "token_transfer tc amount infos h = Ok h' \<Longrightarrow> only_data h h'"
  "token_initialize_mint tc sv decimals authority infos h = Ok h' \<Longrightarrow> only_data h h'"
  "token_initialize_account tc sv infos h = Ok h' \<Longrightarrow> only_data h h'"
  by (auto simp: token_mint_def token_transfer_def token_initialize_mint_def
      token_initialize_account_def Let_def dest: pack_two_only_data pack_info_only_data
      split: if_splits)

end
