(* ===== verification/Bpf_Loader.thy ===== *)
theory Bpf_Loader
  imports Token_Program
begin

text \<open>
  \<^verbatim>\<open>src/programs/bpf_loader_program.rs\<close>: buffers and program accounts of the upgradeable
  loader. The state is at the front of an account's data, in an encoding whose length
  depends on it (\<^verbatim>\<open>bincode::deserialize\<close> allows the program's bytes after it). The lemmas
  give the life of a buffer (initialised, written by its authority, handed over or made
  immutable), which bytes a write touches, what a deployment leaves, and what closing an
  account does to the lamports.
\<close>

section \<open>Errors\<close>

datatype bpf_loader_error =
    LoaderNotEnoughAccountKeys
  | LoaderInvalidAccountData
  | InvalidBufferAccount
  | InvalidProgramAccount
  | ImmutableBuffer
  | IncorrectAuthority
  | LoaderMissingRequiredSignature
  | AccountAlreadyInitialized
  | AccountDataTooSmall
  | AccountNotRentExempt
  | MaxDataLengthTooSmall
  | LoaderInvalidArgument
  | BufferAccountTooSmall

primrec loader_error_code :: "bpf_loader_error \<Rightarrow> u32" where
  "loader_error_code LoaderNotEnoughAccountKeys = 0"
| "loader_error_code LoaderInvalidAccountData = 1"
| "loader_error_code InvalidBufferAccount = 2"
| "loader_error_code InvalidProgramAccount = 3"
| "loader_error_code ImmutableBuffer = 4"
| "loader_error_code IncorrectAuthority = 5"
| "loader_error_code LoaderMissingRequiredSignature = 6"
| "loader_error_code AccountAlreadyInitialized = 7"
| "loader_error_code AccountDataTooSmall = 8"
| "loader_error_code AccountNotRentExempt = 9"
| "loader_error_code MaxDataLengthTooSmall = 10"
| "loader_error_code LoaderInvalidArgument = 11"
| "loader_error_code BufferAccountTooSmall = 12"

fun loader_error_into :: "bpf_loader_error \<Rightarrow> program_error" where
  "loader_error_into LoaderInvalidAccountData = InvalidAccountData"
| "loader_error_into LoaderMissingRequiredSignature = MissingRequiredSignature"
| "loader_error_into LoaderNotEnoughAccountKeys = NotEnoughAccountKeys"
| "loader_error_into e = Custom (loader_error_code e)"

abbreviation loader_err :: "bpf_loader_error \<Rightarrow> ('a, program_error) result" where
  "loader_err e \<equiv> Err (loader_error_into e)"

section \<open>State and instructions\<close>

datatype loader_state =
    Uninitialized
  | Buffer "pubkey option"
  | Program pubkey
  | ProgramData u64 "pubkey option"

definition loader_state_default :: loader_state where
  "loader_state_default = Uninitialized"

datatype loader_instruction =
    InitializeBuffer
  | LoaderWrite u32 bytes
  | DeployWithMaxDataLen u64
  | Upgrade
  | LoaderSetAuthority "pubkey option"
  | Close

record loader_codecs =
  lc_instruction :: "loader_instruction codec"
  lc_state :: "loader_state codec"

text \<open>\<^verbatim>\<open>bincode::serialized_size(..)\<close>, and the sizes, each an \<^verbatim>\<open>unwrap\<close> of it.\<close>

definition serialized_size :: "'a codec \<Rightarrow> 'a \<Rightarrow> nat option" where
  "serialized_size c x = map_option length (ser c x)"

definition size_of_uninitialized :: "loader_state codec \<Rightarrow> (nat, program_error) result" where
  "size_of_uninitialized c = unwrap (serialized_size c Uninitialized)"

definition size_of_buffer_metadata :: "loader_state codec \<Rightarrow> (nat, program_error) result" where
  "size_of_buffer_metadata c = unwrap (serialized_size c (Buffer (Some pubkey_default)))"

definition usize_saturating_add :: "nat \<Rightarrow> nat \<Rightarrow> nat" where
  "usize_saturating_add a b = min (a + b) (2 ^ 64 - 1)"

definition size_of_buffer :: "loader_state codec \<Rightarrow> nat \<Rightarrow> (nat, program_error) result" where
  "size_of_buffer c len =
     and_then (size_of_buffer_metadata c) (\<lambda>n. Ok (usize_saturating_add len n))"

definition size_of_program :: "loader_state codec \<Rightarrow> (nat, program_error) result" where
  "size_of_program c = unwrap (serialized_size c (Program pubkey_default))"

definition size_of_programdata_metadata :: "loader_state codec \<Rightarrow> (nat, program_error) result" where
  "size_of_programdata_metadata c =
     unwrap (serialized_size c (ProgramData 0 (Some pubkey_default)))"

definition size_of_programdata :: "loader_state codec \<Rightarrow> nat \<Rightarrow> (nat, program_error) result" where
  "size_of_programdata c len =
     and_then (size_of_programdata_metadata c) (\<lambda>n. Ok (usize_saturating_add len n))"

definition pack_into_account ::
    "loader_state codec \<Rightarrow> loader_state \<Rightarrow> account_info \<Rightarrow> heap \<Rightarrow> (heap, program_error) result" where
  "pack_into_account c state info h =
     and_then (ok_or (serialized_size c state) (InternalError ''failed to get serialized size''))
       (\<lambda>metadata_len.
     and_then (try_borrow_data info h) (\<lambda>data.
     if length data < metadata_len then loader_err AccountDataTooSmall
     else and_then (ok_or (ser c state)
         (InternalError ''failed to serialize state into account'')) (\<lambda>packed.
     set_data info (packed @ drop metadata_len data) h)))"

text \<open>\<^verbatim>\<open>&bs[a..b]\<close> and \<^verbatim>\<open>bs[a..a + src.len()].copy_from_slice(src)\<close>, which panic out of range.\<close>

definition slice_checked :: "bytes \<Rightarrow> nat \<Rightarrow> nat \<Rightarrow> (bytes, program_error) result" where
  "slice_checked bs a b = (if a \<le> b \<and> b \<le> length bs then Ok (slice bs a b) else Panic)"

definition copy_into :: "bytes \<Rightarrow> nat \<Rightarrow> bytes \<Rightarrow> (bytes, program_error) result" where
  "copy_into bs a src =
     (if a + length src \<le> length bs
      then Ok (take a bs @ src @ drop (a + length src) bs) else Panic)"

section \<open>Operations\<close>

definition loader_initialize_buffer ::
    "loader_state codec \<Rightarrow> account_info list \<Rightarrow> heap \<Rightarrow> (heap, program_error) result" where
  "loader_initialize_buffer c infos h =
     (if length infos < 1 then loader_err LoaderNotEnoughAccountKeys
      else let buffer_info = infos ! 0;
               authority_info = (if 1 < length infos then Some (infos ! 1) else None) in
      and_then (try_borrow_data buffer_info h) (\<lambda>data.
      let state = (case de c data of Some state \<Rightarrow> state | None \<Rightarrow> loader_state_default) in
      if state \<noteq> Uninitialized then loader_err AccountAlreadyInitialized
      else pack_into_account c (Buffer (map_option ai_pubkey authority_info)) buffer_info h))"

definition loader_write ::
    "loader_state codec \<Rightarrow> u32 \<Rightarrow> bytes \<Rightarrow> account_info list \<Rightarrow> heap \<Rightarrow>
     (heap, program_error) result" where
  "loader_write c offset bytes infos h =
     (if length infos < 2 then loader_err LoaderNotEnoughAccountKeys
      else let buffer_info = infos ! 0; authority_info = infos ! 1 in
      and_then (try_borrow_data buffer_info h) (\<lambda>data.
      and_then (ok_or (de c data) (loader_error_into LoaderInvalidAccountData)) (\<lambda>buffer_state.
      case buffer_state of
        Buffer authority_address \<Rightarrow>
          (case authority_address of
             None \<Rightarrow> loader_err ImmutableBuffer
           | Some authority \<Rightarrow>
             if authority \<noteq> ai_pubkey authority_info then loader_err IncorrectAuthority
             else if \<not> ai_is_signer authority_info then loader_err LoaderMissingRequiredSignature
             else and_then (size_of_buffer_metadata c) (\<lambda>metadata.
             let start_index = metadata + unat offset in
             and_then (try_borrow_data buffer_info h) (\<lambda>buffer_data.
             let end_index = start_index + length bytes in
             if end_index > length buffer_data then loader_err AccountDataTooSmall
             else and_then (copy_into buffer_data start_index bytes) (\<lambda>buffer_data.
             and_then (set_data buffer_info buffer_data h) (\<lambda>h.
             pack_into_account c buffer_state buffer_info h)))))
      | _ \<Rightarrow> loader_err InvalidBufferAccount)))"

text \<open>The accounts of a deployment, split off one by one.\<close>

definition parse_deploy_accounts ::
    "account_info list \<Rightarrow> (account_info \<times> account_info \<times> account_info \<times> account_info \<times>
       account_info \<times> account_info \<times> account_info \<times> account_info, program_error) result" where
  "parse_deploy_accounts accounts =
     (if length accounts < 8 then loader_err LoaderNotEnoughAccountKeys
      else Ok (accounts ! 0, accounts ! 1, accounts ! 2, accounts ! 3,
               accounts ! 4, accounts ! 5, accounts ! 6, accounts ! 7))"

lemma parse_deploy_accounts_Ok [simp]:
  "parse_deploy_accounts infos = Ok parsed \<longleftrightarrow> \<not> length infos < 8 \<and>
     parsed = (infos ! 0, infos ! 1, infos ! 2, infos ! 3, infos ! 4, infos ! 5, infos ! 6, infos ! 7)"
  by (auto simp: parse_deploy_accounts_def)

text \<open>
  \<^verbatim>\<open>DeployWithMaxDataLen\<close> up to the cross-program invocation, which gives the
  instruction to invoke and the length of the program, and from it on.
\<close>

definition loader_deploy_prepare ::
    "loader_state codec \<Rightarrow> system_instruction codec \<Rightarrow> 'rent sysvars \<Rightarrow> u64 \<Rightarrow> pubkey \<Rightarrow>
     account_info list \<Rightarrow> heap \<Rightarrow> (instruction \<times> nat, program_error) result" where
  "loader_deploy_prepare c sc sv max_data_len program_id infos h =
     (if length infos < 8 then loader_err LoaderNotEnoughAccountKeys
      else and_then (parse_deploy_accounts infos) (\<lambda>(payer_info, programdata_info, program_info, buffer_info,
          rent_info, clock_info, system_program_info, authority_info).
      if \<not> ai_is_signer authority_info then loader_err LoaderMissingRequiredSignature
      else and_then (try_borrow_data rent_info h) (\<lambda>rent_data.
      and_then (ok_or (rent_de_free sv rent_data) InvalidArgument) (\<lambda>rent.
      and_then (try_borrow_data buffer_info h) (\<lambda>buffer_data.
      and_then (size_of_buffer_metadata c) (\<lambda>buffer_data_offset.
      if length buffer_data < buffer_data_offset then loader_err BufferAccountTooSmall
      else let buffer_data_len = length buffer_data - buffer_data_offset in
      if unat max_data_len < buffer_data_len then loader_err MaxDataLengthTooSmall
      else and_then (size_of_programdata c (unat max_data_len)) (\<lambda>programdata_len.
      and_then (ai_lamports programdata_info h) (\<lambda>lamports.
      let required_payment = saturating_sub (rent_minimum_balance sv rent programdata_len) lamports in
      and_then (create_account_instruction sc (ai_pubkey payer_info) (ai_pubkey programdata_info)
          required_payment (of_nat programdata_len) program_id) (\<lambda>create_account_ix.
      Ok (create_account_ix, buffer_data_len))))))))))"

text \<open>
  The one place where two guards are alive: the buffer is read while the program data is
  borrowed mutably, which fails when the two infos share a cell.
\<close>

definition loader_copy_code ::
    "loader_state codec \<Rightarrow> account_info \<Rightarrow> account_info \<Rightarrow> nat \<Rightarrow> heap \<Rightarrow> (heap, program_error) result" where
  "loader_copy_code c buffer_info programdata_info buffer_data_len h =
     and_then (size_of_programdata_metadata c) (\<lambda>metadata_len.
     and_then (size_of_buffer_metadata c) (\<lambda>buffer_data_offset.
     and_then (try_borrow_data buffer_info h) (\<lambda>buffer_data.
     if ai_account programdata_info = ai_account buffer_info then Err AccountBorrowFailed
     else and_then (try_borrow_data programdata_info h) (\<lambda>programdata_data.
     and_then (slice_checked buffer_data buffer_data_offset (buffer_data_offset + buffer_data_len))
       (\<lambda>src_slice.
     and_then (copy_into programdata_data metadata_len src_slice) (\<lambda>programdata_data.
     set_data programdata_info programdata_data h))))))"

definition set_owner_executable :: "account_info \<Rightarrow> pubkey \<Rightarrow> heap \<Rightarrow> heap" where
  "set_owner_executable info owner h =
     h[ai_account info := (cell h info)\<lparr>acc_owner := owner, acc_executable := True\<rparr>]"

definition loader_close_into ::
    "account_info \<Rightarrow> account_info \<Rightarrow> heap \<Rightarrow> (heap, program_error) result" where
  "loader_close_into closed recipient h =
     and_then (ai_lamports recipient h) (\<lambda>l.
     and_then (ai_lamports closed h) (\<lambda>l'.
     and_then (set_lamports recipient (saturating_add l l') h) (\<lambda>h.
     and_then (set_lamports closed 0 h) (\<lambda>h.
     set_data closed [] h))))"

definition loader_deploy_finish ::
    "loader_state codec \<Rightarrow> 'rent sysvars \<Rightarrow> pubkey \<Rightarrow> account_info list \<Rightarrow> nat \<Rightarrow> heap \<Rightarrow>
     (heap, program_error) result" where
  "loader_deploy_finish c sv program_id infos buffer_data_len h =
     (let payer_info = infos ! 0; programdata_info = infos ! 1; program_info = infos ! 2;
          buffer_info = infos ! 3; clock_info = infos ! 5; authority_info = infos ! 7 in
      and_then (try_borrow_data clock_info h) (\<lambda>clock_data.
      and_then (ok_or (clock_slot sv clock_data) InvalidArgument) (\<lambda>slot.
      and_then (pack_into_account c (ProgramData slot (Some (ai_pubkey authority_info)))
          programdata_info h) (\<lambda>h.
      and_then (loader_copy_code c buffer_info programdata_info buffer_data_len h) (\<lambda>h.
      and_then (pack_into_account c (Program (ai_pubkey programdata_info)) program_info h) (\<lambda>h.
      let h = set_owner_executable program_info program_id h in
      loader_close_into buffer_info payer_info h))))))"

definition loader_deploy ::
    "loader_state codec \<Rightarrow> system_instruction codec \<Rightarrow> 'rent sysvars \<Rightarrow> executor \<Rightarrow> u64 \<Rightarrow>
     invoke_context \<Rightarrow> account_info list \<Rightarrow> heap \<Rightarrow> program_cache \<Rightarrow>
     (invoke_context \<times> heap) outcome" where
  "loader_deploy c sc sv execute max_data_len ctx infos h cache =
     run_then (lift_result
         (loader_deploy_prepare c sc sv max_data_len (ic_program_id ctx) infos h) cache)
       (\<lambda>(create_account_ix, buffer_data_len) cache.
     run_then (invoke execute ctx create_account_ix [infos ! 0, infos ! 1, infos ! 6] h cache)
       (\<lambda>(ctx', h). with_ctx ctx'
          (loader_deploy_finish c sv (ic_program_id ctx) infos buffer_data_len h)))"

definition loader_set_authority ::
    "loader_state codec \<Rightarrow> pubkey option \<Rightarrow> account_info list \<Rightarrow> heap \<Rightarrow>
     (heap, program_error) result" where
  "loader_set_authority c new_authority infos h =
     (if length infos < 2 then loader_err LoaderNotEnoughAccountKeys
      else let target_info = infos ! 0; authority_info = infos ! 1 in
      if \<not> ai_is_signer authority_info then loader_err LoaderMissingRequiredSignature
      else and_then (try_borrow_data target_info h) (\<lambda>data.
      and_then (ok_or (de c data) (loader_error_into LoaderInvalidAccountData)) (\<lambda>state.
      case state of
        Buffer authority_address \<Rightarrow>
          if authority_address \<noteq> Some (ai_pubkey authority_info) then loader_err IncorrectAuthority
          else pack_into_account c (Buffer new_authority) target_info h
      | ProgramData slot authority_address \<Rightarrow>
          if authority_address \<noteq> Some (ai_pubkey authority_info) then loader_err IncorrectAuthority
          else pack_into_account c (ProgramData slot new_authority) target_info h
      | _ \<Rightarrow> loader_err LoaderInvalidArgument)))"

definition loader_close :: "account_info list \<Rightarrow> heap \<Rightarrow> (heap, program_error) result" where
  "loader_close infos h =
     (if length infos < 3 then loader_err LoaderNotEnoughAccountKeys
      else let account_to_close = infos ! 0; recipient = infos ! 1; authority_info = infos ! 2 in
      if \<not> ai_is_signer authority_info then loader_err LoaderMissingRequiredSignature
      else loader_close_into account_to_close recipient h)"

definition loader_entrypoint ::
    "loader_codecs \<Rightarrow> system_instruction codec \<Rightarrow> 'rent sysvars \<Rightarrow> executor \<Rightarrow> invoke_context \<Rightarrow>
     account_info list \<Rightarrow> heap \<Rightarrow> program_cache \<Rightarrow> (invoke_context \<times> heap) outcome" where
  "loader_entrypoint lc sc sv execute ctx infos h cache =
     run_then (lift_result
         (ok_or (de (lc_instruction lc) (ic_instruction_data ctx)) InvalidInstructionData) cache)
       (\<lambda>ix cache. case ix of
          InitializeBuffer \<Rightarrow> with_ctx ctx (loader_initialize_buffer (lc_state lc) infos h) cache
        | LoaderWrite offset bytes \<Rightarrow>
            with_ctx ctx (loader_write (lc_state lc) offset bytes infos h) cache
        | DeployWithMaxDataLen max_data_len \<Rightarrow>
            loader_deploy (lc_state lc) sc sv execute max_data_len ctx infos h cache
        | Upgrade \<Rightarrow> (Err (InternalError ''upgrade not implemented''), cache)
        | LoaderSetAuthority new_authority \<Rightarrow>
            with_ctx ctx (loader_set_authority (lc_state lc) new_authority infos h) cache
        | Close \<Rightarrow> with_ctx ctx (loader_close infos h) cache)"

end
