(* ===== verification/Loader_Laws.thy ===== *)
theory Loader_Laws
  imports Bpf_Loader
begin

text \<open>
  What the upgradeable loader (\<^verbatim>\<open>src/programs/bpf_loader_program.rs\<close>) keeps: the life of a
  buffer, the bytes a write reaches, the accounts a deployment leaves, and the lamports.
\<close>

lemma pack_only_data: "pack_into_account c st info h = Ok h' \<Longrightarrow> only_data h h'"
  by (auto simp: pack_into_account_def split: if_splits dest: set_data_only_data)

section \<open>The state at the front of the data\<close>

text \<open>
  The layout the loader relies on: the encoding of a state is a prefix code whose lengths
  are those of a tag of four bytes, an eight-byte slot, and an optional 32-byte key after one
  byte.
\<close>

locale loader_layout = lenient_codec c "\<lambda>_. True" for c :: "loader_state codec" +
  assumes length_uninitialized: "ser c Uninitialized = Some bs \<Longrightarrow> length bs = 4"
    and length_buffer: "ser c (Buffer a) = Some bs \<Longrightarrow> length bs = (if a = None then 5 else 37)"
    and length_program: "ser c (Program p) = Some bs \<Longrightarrow> length bs = 36"
    and length_programdata:
      "ser c (ProgramData s a) = Some bs \<Longrightarrow> length bs = (if a = None then 13 else 45)"
begin

lemma buffer_metadata: "size_of_buffer_metadata c = Ok 37"
  using ser_total [of "Buffer (Some pubkey_default)"] length_buffer
  by (auto simp: size_of_buffer_metadata_def serialized_size_def)

lemma programdata_metadata: "size_of_programdata_metadata c = Ok 45"
  using ser_total [of "ProgramData 0 (Some pubkey_default)"] length_programdata
  by (auto simp: size_of_programdata_metadata_def serialized_size_def)

lemma sizes:
  "size_of_uninitialized c = Ok 4" "size_of_program c = Ok 36"
  "size_of_buffer c n = Ok (min (n + 37) (2 ^ 64 - 1))"
  "size_of_programdata c n = Ok (min (n + 45) (2 ^ 64 - 1))"
  using ser_total [of Uninitialized] ser_total [of "Program pubkey_default"]
    length_uninitialized length_program
  by (auto simp: size_of_uninitialized_def size_of_program_def serialized_size_def
      size_of_buffer_def size_of_programdata_def usize_saturating_add_def
      buffer_metadata programdata_metadata)

lemma pack_Ok:
  assumes "pack_into_account c st info h = Ok h'"
  obtains packed where "ser c st = Some packed" "length packed \<le> length (acc_data (cell h info))"
    "h' = h[ai_account info := (cell h info)
       \<lparr>acc_data := packed @ drop (length packed) (acc_data (cell h info))\<rparr>]"
proof -
  obtain packed where "ser c st = Some packed" using ser_total by blast
  with assms show thesis
    by (intro that [of packed])
      (auto simp: pack_into_account_def serialized_size_def try_borrow_data_def set_data_def
        split: if_splits)
qed

text \<open>What is packed is what is read back, whatever bytes follow it.\<close>

lemma pack_read:
  assumes "pack_into_account c st info h = Ok h'" and "ai_account info < length h"
  shows "de c (acc_data (cell h' info)) = Some st"
  using assms(1)
proof (rule pack_Ok)
  fix packed
  assume "ser c st = Some packed" and "h' = h[ai_account info := (cell h info)
    \<lparr>acc_data := packed @ drop (length packed) (acc_data (cell h info))\<rparr>]"
  then show ?thesis using de_ser [of st packed] assms(2) by (simp add: cell_def)
qed

lemma pack_data_length:
  assumes "pack_into_account c st info h = Ok h'" and "ai_account info < length h"
  shows "length (acc_data (cell h' info)) = length (acc_data (cell h info))"
  using assms(1) by (rule pack_Ok) (use assms(2) in \<open>auto simp: cell_def\<close>)

text \<open>Packing the state an account already holds changes nothing.\<close>

lemma pack_same:
  assumes "de c (acc_data (cell h info)) = Some st"
  shows "pack_into_account c st info h = Ok h"
proof -
  obtain packed rest where packed: "ser c st = Some packed"
    and data: "acc_data (cell h info) = packed @ rest"
    using de_prefix [OF assms] by blast
  have "(cell h info)\<lparr>acc_data := packed @ rest\<rparr> = cell h info" by (simp flip: data)
  then have "h[ai_account info := (cell h info)\<lparr>acc_data := packed @ rest\<rparr>] = h"
    by (simp only: cell_def list_update_id)
  with packed data show ?thesis
    by (simp add: pack_into_account_def serialized_size_def try_borrow_data_def set_data_def)
qed

section \<open>Buffers\<close>

lemma initialize_buffer_Ok:
  assumes "loader_initialize_buffer c infos h = Ok h'" and "ai_account (infos ! 0) < length h"
  shows "de c (acc_data (cell h (infos ! 0))) \<in> {None, Some Uninitialized}"
    and "de c (acc_data (cell h' (infos ! 0))) =
      Some (Buffer (if 1 < length infos then Some (ai_pubkey (infos ! 1)) else None))"
    and "only_data h h'"
proof -
  let ?st = "Buffer (if 1 < length infos then Some (ai_pubkey (infos ! 1)) else None)"
  have old: "de c (acc_data (cell h (infos ! 0))) \<in> {None, Some Uninitialized}"
    and pack: "pack_into_account c ?st (infos ! 0) h = Ok h'"
    using assms(1)
    by (auto simp: loader_initialize_buffer_def Let_def try_borrow_data_def loader_state_default_def
        split: if_splits option.splits)
  then show "de c (acc_data (cell h (infos ! 0))) \<in> {None, Some Uninitialized}"
    "de c (acc_data (cell h' (infos ! 0))) = Some ?st" "only_data h h'"
    using pack_read [OF pack assms(2)] pack_only_data by blast+
qed

lemma initialize_buffer_again:
  assumes "infos \<noteq> []" and "de c (acc_data (cell h (infos ! 0))) = Some (Buffer a)"
  shows "loader_initialize_buffer c infos h = Err (Custom 7)"
  using assms by (cases infos) (auto simp: loader_initialize_buffer_def try_borrow_data_def)

text \<open>
  A successful write is by the buffer's authority, which signed, and replaces exactly the
  bytes from offset 37 on that it names: the state in front survives.
\<close>

lemma write_Ok:
  assumes "loader_write c offset bytes infos h = Ok h'" and i: "ai_account (infos ! 0) < length h"
  defines "data \<equiv> acc_data (cell h (infos ! 0))" and "start \<equiv> 37 + unat offset"
  shows "de c data = Some (Buffer (Some (ai_pubkey (infos ! 1))))"
    and "ai_is_signer (infos ! 1)" and "start + length bytes \<le> length data"
    and "h' = h[ai_account (infos ! 0) := (cell h (infos ! 0))
      \<lparr>acc_data := take start data @ bytes @ drop (start + length bytes) data\<rparr>]"
proof -
  let ?info = "infos ! 0" and ?st = "Buffer (Some (ai_pubkey (infos ! 1)))"
  let ?new = "take start data @ bytes @ drop (start + length bytes) data"
  let ?h = "h[ai_account ?info := (cell h ?info)\<lparr>acc_data := ?new\<rparr>]"
  have main: "de c data = Some ?st \<and> ai_is_signer (infos ! 1) \<and> start + length bytes \<le> length data \<and>
      pack_into_account c ?st ?info ?h = Ok h'"
    using assms(1)
    by (auto simp: loader_write_def Let_def try_borrow_data_def copy_into_def set_data_def
        buffer_metadata data_def start_def split: if_splits loader_state.splits option.splits)
  then obtain packed rest where packed: "ser c ?st = Some packed" "data = packed @ rest"
    using de_prefix by blast
  have "length packed = 37" using length_buffer [OF packed(1)] by simp
  then have "?new = packed @ (take (start - 37) rest @ bytes @ drop (start + length bytes) data)"
    by (simp add: packed(2) start_def)
  then have "de c ?new = Some ?st" using de_ser [OF TrueI packed(1)] by metis
  then have "pack_into_account c ?st ?info ?h = Ok ?h"
    using i by (intro pack_same) (simp add: cell_def)
  with main show "de c data = Some ?st" "ai_is_signer (infos ! 1)"
    "start + length bytes \<le> length data" "h' = ?h" by simp_all
qed

text \<open>A buffer without an authority is immutable for every instruction but \<^verbatim>\<open>Close\<close>.\<close>

lemma immutable_buffer:
  assumes "length infos \<ge> 2" and "de c (acc_data (cell h (infos ! 0))) = Some (Buffer None)"
  shows "loader_write c offset bytes infos h = Err (Custom 4)"
    and "ai_is_signer (infos ! 1) \<Longrightarrow> loader_set_authority c a infos h = Err (Custom 5)"
    and "loader_initialize_buffer c infos h = Err (Custom 7)"
proof -
  have "infos \<noteq> []" using assms(1) by auto
  then show "loader_initialize_buffer c infos h = Err (Custom 7)"
    using assms(2) by (rule initialize_buffer_again)
qed (use assms in \<open>auto simp: loader_write_def loader_set_authority_def Let_def try_borrow_data_def\<close>)

lemma set_authority_Ok:
  assumes ok: "loader_set_authority c new infos h = Ok h'" and i: "ai_account (infos ! 0) < length h"
  shows "ai_is_signer (infos ! 1) \<and> only_data h h' \<and>
    (de c (acc_data (cell h (infos ! 0))) = Some (Buffer (Some (ai_pubkey (infos ! 1)))) \<and>
       de c (acc_data (cell h' (infos ! 0))) = Some (Buffer new) \<or>
     (\<exists>slot. de c (acc_data (cell h (infos ! 0))) =
         Some (ProgramData slot (Some (ai_pubkey (infos ! 1)))) \<and>
       de c (acc_data (cell h' (infos ! 0))) = Some (ProgramData slot new)))"
proof -
  have signer: "ai_is_signer (infos ! 1)"
    using ok by (auto simp: loader_set_authority_def Let_def split: if_splits)
  obtain st where st: "de c (acc_data (cell h (infos ! 0))) = Some st"
    using ok by (auto simp: loader_set_authority_def Let_def try_borrow_data_def split: if_splits)
  then show ?thesis
  proof (cases st)
    case (Buffer a)
    with ok st have "a = Some (ai_pubkey (infos ! 1))"
      and pack: "pack_into_account c (Buffer new) (infos ! 0) h = Ok h'"
      by (auto simp: loader_set_authority_def Let_def try_borrow_data_def split: if_splits)
    with st Buffer signer show ?thesis
      using pack_read [OF pack i] pack_only_data [OF pack] by simp
  next
    case (ProgramData s a)
    with ok st have "a = Some (ai_pubkey (infos ! 1))"
      and pack: "pack_into_account c (ProgramData s new) (infos ! 0) h = Ok h'"
      by (auto simp: loader_set_authority_def Let_def try_borrow_data_def split: if_splits)
    with st ProgramData signer show ?thesis
      using pack_read [OF pack i] pack_only_data [OF pack] by simp
  qed (use ok st in \<open>auto simp: loader_set_authority_def Let_def try_borrow_data_def split: if_splits\<close>)
qed

end

section \<open>Closing an account\<close>

lemma close_into_Ok:
  "loader_close_into closed recipient h = Ok h' \<longleftrightarrow>
     (let h1 = h[ai_account recipient := (cell h recipient)
        \<lparr>acc_lamports := saturating_add (acc_lamports (cell h recipient)) (acc_lamports (cell h closed))\<rparr>];
        h2 = h1[ai_account closed := (cell h1 closed)\<lparr>acc_lamports := 0\<rparr>] in
      h' = h2[ai_account closed := (cell h2 closed)\<lparr>acc_data := []\<rparr>])"
  by (auto simp: loader_close_into_def heap_ops Let_def)

lemma close_into_length: "loader_close_into closed recipient h = Ok h' \<Longrightarrow> length h' = length h"
  by (auto simp: close_into_Ok Let_def)

lemma close_into_total_ok: "\<exists>h'. loader_close_into closed recipient h = Ok h'"
  by (simp add: loader_close_into_def heap_ops)

lemma close_into_two:
  assumes "loader_close_into closed recipient h = Ok h'"
    and "ai_account closed < length h" "ai_account recipient < length h"
    and "ai_account closed \<noteq> ai_account recipient"
  shows "h' = h[ai_account recipient := (cell h recipient)
      \<lparr>acc_lamports := saturating_add (acc_lamports (cell h recipient)) (acc_lamports (cell h closed))\<rparr>,
      ai_account closed := (cell h closed)\<lparr>acc_lamports := 0, acc_data := []\<rparr>]"
  using assms by (simp add: close_into_Ok Let_def cell_def)

lemma close_into_conserves:
  assumes ok: "loader_close_into closed recipient h = Ok h'"
    and ij: "ai_account closed < length h" "ai_account recipient < length h"
    and two: "ai_account closed \<noteq> ai_account recipient" and small: "total_lamports h < 2 ^ 64"
  shows "total_lamports h' = total_lamports h"
proof -
  let ?i = "ai_account closed" and ?j = "ai_account recipient"
  let ?sum = "saturating_add (acc_lamports (h ! ?j)) (acc_lamports (h ! ?i))"
  let ?h1 = "h[?j := (h ! ?j)\<lparr>acc_lamports := ?sum\<rparr>]"
  have h': "h' = ?h1[?i := (h ! ?i)\<lparr>acc_lamports := 0, acc_data := []\<rparr>]"
    using close_into_two [OF ok ij two] by (simp add: cell_def)
  have "unat ?sum = unat (acc_lamports (h ! ?j)) + unat (acc_lamports (h ! ?i))"
    using total_lamports_two [OF ij two] small by (intro saturating_add_exact) simp
  moreover have "total_lamports ?h1 + unat (acc_lamports (h ! ?j)) = total_lamports h + unat ?sum"
    using total_lamports_update [OF ij(2), of "(h ! ?j)\<lparr>acc_lamports := ?sum\<rparr>"] by simp
  moreover have "total_lamports h' + unat (acc_lamports (h ! ?i)) = total_lamports ?h1"
    using total_lamports_update [of ?i ?h1 "(h ! ?i)\<lparr>acc_lamports := 0, acc_data := []\<rparr>"] ij two
    by (simp add: h')
  ultimately show ?thesis by simp
qed

text \<open>Closing an account into itself burns its lamports.\<close>

lemma close_into_self:
  assumes "loader_close_into closed recipient h = Ok h'" and "ai_account closed < length h"
    and "ai_account closed = ai_account recipient"
  shows "h' = h[ai_account closed := (cell h closed)\<lparr>acc_lamports := 0, acc_data := []\<rparr>]"
  using assms by (simp add: close_into_Ok Let_def cell_def)

section \<open>Deployment\<close>

context loader_layout
begin

lemma copy_code_Ok:
  assumes "loader_copy_code c buffer_info programdata_info n h = Ok h'"
  shows "ai_account programdata_info \<noteq> ai_account buffer_info"
    and "37 + n \<le> length (acc_data (cell h buffer_info))"
    and "45 + n \<le> length (acc_data (cell h programdata_info))"
    and "h' = h[ai_account programdata_info := (cell h programdata_info)\<lparr>acc_data :=
      take 45 (acc_data (cell h programdata_info)) @
      slice (acc_data (cell h buffer_info)) 37 (37 + n) @
      drop (45 + n) (acc_data (cell h programdata_info))\<rparr>]"
  using assms
  by (auto simp: loader_copy_code_def programdata_metadata buffer_metadata try_borrow_data_def
      slice_checked_def copy_into_def set_data_def slice_def split: if_splits)

text \<open>
  What a deployment leaves when its four accounts are four cells: the program's code is the
  buffer's, the state in front of it names the slot and the authority, the program account is
  executable and names the program data, and the buffer is empty, its lamports with the payer.
\<close>

lemma deploy_finish_Ok:
  assumes ok: "loader_deploy_finish c sv program_id infos n h = Ok h'"
    and wf: "infos_wf infos h" and len: "length infos \<ge> 8"
    and distinct: "distinct (map (\<lambda>i. ai_account (infos ! i)) [0, 1, 2, 3])"
  defines "code \<equiv> slice (acc_data (cell h (infos ! 3))) 37 (37 + n)"
  shows "\<exists>slot. clock_slot sv (acc_data (cell h (infos ! 5))) = Some slot \<and>
      de c (acc_data (cell h' (infos ! 1))) =
        Some (ProgramData slot (Some (ai_pubkey (infos ! 7))))"
    and "slice (acc_data (cell h' (infos ! 1))) 45 (45 + n) = code" and "length code = n"
    and "de c (acc_data (cell h' (infos ! 2))) = Some (Program (ai_pubkey (infos ! 1)))"
    and "acc_executable (cell h' (infos ! 2))" and "acc_owner (cell h' (infos ! 2)) = program_id"
    and "acc_data (cell h' (infos ! 3)) = []" and "acc_lamports (cell h' (infos ! 3)) = 0"
    and "acc_lamports (cell h' (infos ! 0)) =
      saturating_add (acc_lamports (cell h (infos ! 0))) (acc_lamports (cell h (infos ! 3)))"
proof -
  let ?I = "\<lambda>i. ai_account (infos ! i)"
  have lt: "?I 0 < length h" "?I 1 < length h" "?I 2 < length h" "?I 3 < length h"
    using len by (auto intro!: infos_wf_nth [OF wf])
  have neq: "?I 0 \<noteq> ?I 1" "?I 0 \<noteq> ?I 2" "?I 0 \<noteq> ?I 3" "?I 1 \<noteq> ?I 2" "?I 1 \<noteq> ?I 3" "?I 2 \<noteq> ?I 3"
    using distinct by auto
  let ?auth = "ai_pubkey (infos ! 7)" and ?prog = "Program (ai_pubkey (infos ! 1))"
  obtain slot h1 h2 h3 where slot: "clock_slot sv (acc_data (cell h (infos ! 5))) = Some slot"
    and p1: "pack_into_account c (ProgramData slot (Some ?auth)) (infos ! 1) h = Ok h1"
    and cp: "loader_copy_code c (infos ! 3) (infos ! 1) n h1 = Ok h2"
    and p3: "pack_into_account c ?prog (infos ! 2) h2 = Ok h3"
    and cl: "loader_close_into (infos ! 3) (infos ! 0)
      (set_owner_executable (infos ! 2) program_id h3) = Ok h'"
    using ok by (auto simp: loader_deploy_finish_def Let_def try_borrow_data_def)
  let ?h4 = "set_owner_executable (infos ! 2) program_id h3"
  from p1 obtain packed where ser1: "ser c (ProgramData slot (Some ?auth)) = Some packed"
    and h1: "h1 = h[?I 1 := (cell h (infos ! 1))
       \<lparr>acc_data := packed @ drop (length packed) (acc_data (cell h (infos ! 1)))\<rparr>]"
    by (rule pack_Ok)
  have packed: "length packed = 45" using length_programdata [OF ser1] by simp
  let ?rest = "slice (acc_data (cell h1 (infos ! 3))) 37 (37 + n) @
    drop (45 + n) (acc_data (cell h1 (infos ! 1)))"
  have h2: "h2 = h1[?I 1 := (cell h1 (infos ! 1))\<lparr>acc_data := packed @ ?rest\<rparr>]"
    using copy_code_Ok(4) [OF cp] lt packed by (simp add: h1 cell_def)
  from p3 obtain q where h3: "h3 = h2[?I 2 := (cell h2 (infos ! 2))
      \<lparr>acc_data := q @ drop (length q) (acc_data (cell h2 (infos ! 2)))\<rparr>]"
    by (rule pack_Ok)
  have l: "length h1 = length h" "length h2 = length h" "length h3 = length h" "length ?h4 = length h"
    by (simp_all add: h1 h2 h3 set_owner_executable_def)
  have h': "h' = ?h4[?I 0 := (cell ?h4 (infos ! 0))\<lparr>acc_lamports :=
      saturating_add (acc_lamports (cell ?h4 (infos ! 0))) (acc_lamports (cell ?h4 (infos ! 3)))\<rparr>,
      ?I 3 := (cell ?h4 (infos ! 3))\<lparr>acc_lamports := 0, acc_data := []\<rparr>]"
    using close_into_two [OF cl] lt neq l by simp
  have c1: "cell h' (infos ! 1) = cell h2 (infos ! 1)"
    using neq by (simp add: h' set_owner_executable_def h3 cell_def)
  have d1: "acc_data (cell h2 (infos ! 1)) = packed @ ?rest"
    using lt l by (simp add: h2 cell_def)
  have buffer: "cell h1 (infos ! 3) = cell h (infos ! 3)"
    using neq by (simp add: h1 cell_def)
  show "length code = n"
    using copy_code_Ok(2) [OF cp] by (simp add: code_def slice_def buffer)
  then show "slice (acc_data (cell h' (infos ! 1))) 45 (45 + n) = code"
    using packed c1 d1 buffer by (simp add: slice_def code_def)
  show "\<exists>slot. clock_slot sv (acc_data (cell h (infos ! 5))) = Some slot \<and>
      de c (acc_data (cell h' (infos ! 1))) = Some (ProgramData slot (Some ?auth))"
    using slot de_ser [OF TrueI ser1] c1 d1 by simp
  have c2: "cell h' (infos ! 2) = cell ?h4 (infos ! 2)"
    using neq by (simp add: h' cell_def)
  show "de c (acc_data (cell h' (infos ! 2))) = Some ?prog"
    unfolding c2 using pack_read [OF p3] lt l by (simp add: set_owner_executable_def cell_def)
  show "acc_executable (cell h' (infos ! 2))" "acc_owner (cell h' (infos ! 2)) = program_id"
    unfolding c2 using lt l by (simp_all add: set_owner_executable_def cell_def)
  have c03: "cell ?h4 (infos ! 0) = cell h (infos ! 0)" "cell ?h4 (infos ! 3) = cell h (infos ! 3)"
    using neq by (simp_all add: set_owner_executable_def h1 h2 h3 cell_def)
  show "acc_data (cell h' (infos ! 3)) = []" "acc_lamports (cell h' (infos ! 3)) = 0"
    "acc_lamports (cell h' (infos ! 0)) =
      saturating_add (acc_lamports (cell h (infos ! 0))) (acc_lamports (cell h (infos ! 3)))"
    unfolding h' using lt l neq c03 by (simp_all add: cell_def)
qed

end

end
