(* ===== verification/Token_Ledger.thy ===== *)
theory Token_Ledger
  imports Token_Program
begin

text \<open>
  The contract of the token program (\<^verbatim>\<open>src/programs/token_program.rs\<close>): minting and
  transferring refine an abstract ledger, transfers between two accounts conserve every
  mint's tokens and transfers from an account to itself create them, and an initialised
  account cannot be initialised again.
\<close>

section \<open>Refinement of a ledger of tokens\<close>

text \<open>
  The specification forgets bytes: a ledger holds the mints and the token accounts by cell.
  \<open>spec_mint\<close> and \<open>spec_transfer\<close> are what the two operations promise, every error
  included; the two writes of a transfer are in the code's order, so that a transfer from a
  cell to itself is part of the specification.
\<close>

record token_ledger =
  lg_mints :: "nat \<Rightarrow> mint option"
  lg_accounts :: "nat \<Rightarrow> token_account option"

definition ledger :: "token_codecs \<Rightarrow> heap \<Rightarrow> token_ledger" where
  "ledger tc h = \<lparr>lg_mints = decoded (tc_mint tc) h, lg_accounts = decoded (tc_account tc) h\<rparr>"

definition spec_transfer ::
    "u64 \<Rightarrow> account_info list \<Rightarrow> token_ledger \<Rightarrow> (token_ledger, program_error) result" where
  "spec_transfer amount infos L =
     (if length infos < 3 then Err NotEnoughAccountKeys
      else if \<not> ai_is_signer (infos ! 0) then Err MissingRequiredSignature
      else let s = ai_account (infos ! 1); d = ai_account (infos ! 2) in
      case (lg_accounts L s, lg_accounts L d) of
        (Some source, Some destination) \<Rightarrow>
          if ta_owner source \<noteq> ai_pubkey (infos ! 0) then Err (Custom 4)
          else if ta_mint source \<noteq> ta_mint destination then Err (Custom 5)
          else if ta_amount source < amount then Err InsufficientFunds
          else Ok (L\<lparr>lg_accounts := (lg_accounts L)
            (s \<mapsto> source\<lparr>ta_amount := ta_amount source - amount\<rparr>,
             d \<mapsto> destination\<lparr>ta_amount := saturating_add (ta_amount destination) amount\<rparr>)\<rparr>)
      | (Some source, None) \<Rightarrow>
          if ta_owner source \<noteq> ai_pubkey (infos ! 0) then Err (Custom 4) else Err InvalidAccountData
      | (None, _) \<Rightarrow> Err InvalidAccountData)"

definition spec_mint ::
    "u64 \<Rightarrow> account_info list \<Rightarrow> token_ledger \<Rightarrow> (token_ledger, program_error) result" where
  "spec_mint amount infos L =
     (if length infos < 3 then Err NotEnoughAccountKeys
      else if \<not> ai_is_signer (infos ! 0) then Err MissingRequiredSignature
      else let m = ai_account (infos ! 1); d = ai_account (infos ! 2) in
      case (lg_mints L m, lg_accounts L d) of
        (Some mint, Some destination) \<Rightarrow>
          if mint_authority mint \<noteq> ai_pubkey (infos ! 0) then Err (Custom 2)
          else if ta_mint destination \<noteq> ai_pubkey (infos ! 1) then Err (Custom 3)
          else Ok \<lparr>lg_mints = (lg_mints L)
              (m \<mapsto> mint\<lparr>mint_supply := saturating_add (mint_supply mint) amount\<rparr>),
            lg_accounts = (lg_accounts L)
              (d \<mapsto> destination\<lparr>ta_amount := saturating_add (ta_amount destination) amount\<rparr>)\<rparr>
      | (Some mint, None) \<Rightarrow>
          if mint_authority mint \<noteq> ai_pubkey (infos ! 0) then Err (Custom 2)
          else Err InvalidAccountData
      | (None, _) \<Rightarrow> Err InvalidAccountData)"

definition token_laws :: "token_codecs \<Rightarrow> bool" where
  "token_laws tc \<longleftrightarrow>
     packable (tc_mint tc) MINT_LEN \<and> packable (tc_account tc) TOKEN_ACCOUNT_LEN"

lemma token_lens [simp]: "MINT_LEN \<noteq> TOKEN_ACCOUNT_LEN" "TOKEN_ACCOUNT_LEN \<noteq> MINT_LEN"
  by (simp_all add: MINT_LEN_def TOKEN_ACCOUNT_LEN_def)

lemma saturating_sub_exact: "b \<le> a \<Longrightarrow> saturating_sub a b = a - b"
  by (simp add: saturating_sub_def)

text \<open>Two packs in a row, the second into a cell that may be the first.\<close>

lemma pack_two_decoded:
  assumes c: "packable c n" and c': "packable c' n'"
    and i: "ai_account a < length h" "length (acc_data (cell h a)) = n"
    and j: "ai_account b < length h" "length (acc_data (cell h b)) = n'"
    and same: "ai_account a = ai_account b \<Longrightarrow> n = n'"
  obtains h1 h' where "pack_info c x a h = Ok h1" "pack_info c' y b h1 = Ok h'"
    "decoded c h1 = (decoded c h)(ai_account a \<mapsto> x)"
    "decoded c' h' = (decoded c' h1)(ai_account b \<mapsto> y)"
    "length (acc_data (cell h1 b)) = n'"
proof (rule pack_info_decoded [OF c i, of x])
  fix h1
  assume 1: "pack_info c x a h = Ok h1" "length h1 = length h"
    "decoded c h1 = (decoded c h)(ai_account a \<mapsto> x)"
    "\<And>j. j \<noteq> ai_account a \<Longrightarrow> h1 ! j = h ! j" "length (acc_data (cell h1 a)) = n"
  have len: "length (acc_data (cell h1 b)) = n'"
    using 1(4,5) i(2) j(2) same by (cases "ai_account b = ai_account a") (auto simp: cell_def)
  have "ai_account b < length h1" using 1(2) j(1) by simp
  from pack_info_decoded [OF c' this len, of y] obtain h' where
    "pack_info c' y b h1 = Ok h'" "decoded c' h' = (decoded c' h1)(ai_account b \<mapsto> y)"
    by blast
  with 1(1,3) len that show thesis by blast
qed


lemma ledger_sel [simp]:
  "lg_mints (ledger tc h) = decoded (tc_mint tc) h"
  "lg_accounts (ledger tc h) = decoded (tc_account tc) h"
  by (simp_all add: ledger_def)

definition abs_result :: "('a \<Rightarrow> 'b) \<Rightarrow> ('a, 'e) result \<Rightarrow> ('b, 'e) result" where
  "abs_result f r = and_then r (\<lambda>a. Ok (f a))"

lemma abs_result_simps [simp]:
  "abs_result f (Ok a) = Ok (f a)" "abs_result f (Err e) = Err e" "abs_result f Panic = Panic"
  by (simp_all add: abs_result_def)

lemma infos_wf_2: "infos_wf infos h \<Longrightarrow> \<not> length infos < 3 \<Longrightarrow>
    ai_account (infos ! 1) < length h \<and> ai_account (infos ! 2) < length h"
  by (auto intro!: infos_wf_nth)

lemma transfer_refines:
  assumes laws: "token_laws tc" and wf: "infos_wf infos h"
  shows "abs_result (ledger tc) (token_transfer tc amount infos h) =
    spec_transfer amount infos (ledger tc h)"
proof (cases "length infos < 3 \<or> \<not> ai_is_signer (infos ! 0)")
  case True
  then show ?thesis by (auto simp: token_transfer_def spec_transfer_def)
next
  case False
  let ?c = "tc_account tc" and ?a = "infos ! 1" and ?b = "infos ! 2"
  have ij: "ai_account ?a < length h" "ai_account ?b < length h"
    using infos_wf_2 [OF wf] False by simp_all
  note unpack = unpack_info_decoded [OF ij(1), of ?c] unpack_info_decoded [OF ij(2), of ?c]
  have cm: "packable (tc_mint tc) MINT_LEN" and ca: "packable ?c TOKEN_ACCOUNT_LEN"
    using laws by (simp_all add: token_laws_def)
  show ?thesis
  proof (cases "\<exists>src dst. decoded ?c h (ai_account ?a) = Some src \<and>
      decoded ?c h (ai_account ?b) = Some dst")
    case True
    then obtain src dst where dec: "decoded ?c h (ai_account ?a) = Some src"
      "decoded ?c h (ai_account ?b) = Some dst" by blast
    let ?src = "src\<lparr>ta_amount := saturating_sub (ta_amount src) amount\<rparr>"
    let ?dst = "dst\<lparr>ta_amount := saturating_add (ta_amount dst) amount\<rparr>"
    have len: "length (acc_data (cell h ?a)) = TOKEN_ACCOUNT_LEN"
        "length (acc_data (cell h ?b)) = TOKEN_ACCOUNT_LEN"
      using decoded_length [OF ca] dec by (auto simp: cell_def)
    obtain h1 h' where packs: "pack_info ?c ?src ?a h = Ok h1" "pack_info ?c ?dst ?b h1 = Ok h'"
      and d1: "decoded ?c h1 = (decoded ?c h)(ai_account ?a \<mapsto> ?src)"
      and d2: "decoded ?c h' = (decoded ?c h1)(ai_account ?b \<mapsto> ?dst)"
      and len1: "length (acc_data (cell h1 ?b)) = TOKEN_ACCOUNT_LEN"
      by (rule pack_two_decoded [OF ca ca ij(1) len(1) ij(2) len(2), of ?src ?dst]) auto
    have mints: "decoded (tc_mint tc) h' = decoded (tc_mint tc) h"
      using pack_info_frame [OF ca len(1) cm _ packs(1)]
        pack_info_frame [OF ca len1 cm _ packs(2)] by simp
    have "ledger tc h' = (ledger tc h)\<lparr>lg_accounts := (decoded ?c h)
        (ai_account ?a \<mapsto> ?src, ai_account ?b \<mapsto> ?dst)\<rparr>"
      using d1 d2 mints by (simp add: ledger_def)
    then show ?thesis
      using False dec unpack packs
      by (auto simp: token_transfer_def spec_transfer_def Let_def saturating_sub_def)
  next
    case none: False
    then show ?thesis
      using False unpack
      by (cases "decoded ?c h (ai_account ?a)"; cases "decoded ?c h (ai_account ?b)")
        (auto simp: token_transfer_def spec_transfer_def Let_def)
  qed
qed

lemma mint_refines:
  assumes laws: "token_laws tc" and wf: "infos_wf infos h"
  shows "abs_result (ledger tc) (token_mint tc amount infos h) =
    spec_mint amount infos (ledger tc h)"
proof (cases "length infos < 3 \<or> \<not> ai_is_signer (infos ! 0)")
  case True
  then show ?thesis by (auto simp: token_mint_def spec_mint_def)
next
  case False
  let ?m = "tc_mint tc" and ?c = "tc_account tc" and ?a = "infos ! 1" and ?b = "infos ! 2"
  have ij: "ai_account ?a < length h" "ai_account ?b < length h"
    using infos_wf_2 [OF wf] False by simp_all
  note unpack = unpack_info_decoded [OF ij(1), of ?m] unpack_info_decoded [OF ij(2), of ?c]
  have cm: "packable ?m MINT_LEN" and ca: "packable ?c TOKEN_ACCOUNT_LEN"
    using laws by (simp_all add: token_laws_def)
  show ?thesis
  proof (cases "\<exists>mint dst. decoded ?m h (ai_account ?a) = Some mint \<and>
      decoded ?c h (ai_account ?b) = Some dst")
    case True
    then obtain mint dst where dec: "decoded ?m h (ai_account ?a) = Some mint"
      "decoded ?c h (ai_account ?b) = Some dst" by blast
    let ?mint = "mint\<lparr>mint_supply := saturating_add (mint_supply mint) amount\<rparr>"
    let ?dst = "dst\<lparr>ta_amount := saturating_add (ta_amount dst) amount\<rparr>"
    have len: "length (acc_data (cell h ?a)) = MINT_LEN"
        "length (acc_data (cell h ?b)) = TOKEN_ACCOUNT_LEN"
      using decoded_length [OF cm] decoded_length [OF ca] dec by (auto simp: cell_def)
    then have differ: "ai_account ?a = ai_account ?b \<Longrightarrow> MINT_LEN = TOKEN_ACCOUNT_LEN"
      by (simp add: cell_def)
    obtain h1 h' where packs: "pack_info ?m ?mint ?a h = Ok h1" "pack_info ?c ?dst ?b h1 = Ok h'"
      and d1: "decoded ?m h1 = (decoded ?m h)(ai_account ?a \<mapsto> ?mint)"
      and d2: "decoded ?c h' = (decoded ?c h1)(ai_account ?b \<mapsto> ?dst)"
      and len1: "length (acc_data (cell h1 ?b)) = TOKEN_ACCOUNT_LEN"
      by (rule pack_two_decoded [OF cm ca ij(1) len(1) ij(2) len(2) differ, of ?mint ?dst])
    have "decoded ?c h1 = decoded ?c h" "decoded ?m h' = decoded ?m h1"
      using pack_info_frame [OF cm len(1) ca _ packs(1)]
        pack_info_frame [OF ca len1 cm _ packs(2)] by simp_all
    then have "ledger tc h' = \<lparr>lg_mints = (decoded ?m h)(ai_account ?a \<mapsto> ?mint),
        lg_accounts = (decoded ?c h)(ai_account ?b \<mapsto> ?dst)\<rparr>"
      using d1 d2 by (simp add: ledger_def)
    then show ?thesis
      using False dec unpack packs by (auto simp: token_mint_def spec_mint_def Let_def)
  next
    case none: False
    then show ?thesis
      using False unpack
      by (cases "decoded ?m h (ai_account ?a)"; cases "decoded ?c h (ai_account ?b)")
        (auto simp: token_mint_def spec_mint_def Let_def)
  qed
qed

section \<open>Conservation\<close>

text \<open>The tokens of a mint that the accounts of a heap hold.\<close>

definition held :: "pubkey \<Rightarrow> token_account option \<Rightarrow> nat" where
  "held m t = (case t of Some a \<Rightarrow> if ta_mint a = m then unat (ta_amount a) else 0 | None \<Rightarrow> 0)"

definition tokens_held :: "token_codecs \<Rightarrow> pubkey \<Rightarrow> heap \<Rightarrow> nat" where
  "tokens_held tc m h = (\<Sum>i \<in> {..<length h}. held m (decoded (tc_account tc) h i))"

lemma held_simps [simp]:
  "held m None = 0" "held m (Some a) = (if ta_mint a = m then unat (ta_amount a) else 0)"
  by (simp_all add: held_def)

lemma sum_fun_upd:
  assumes "i < (n :: nat)"
  shows "(\<Sum>j \<in> {..<n}. g ((f(i := x)) j)) + g (f i) = (\<Sum>j \<in> {..<n}. g (f j)) + (g x :: nat)"
proof -
  have i: "finite {..<n}" "i \<in> {..<n}" using assms by simp_all
  show ?thesis
    unfolding sum.remove [OF i, of "\<lambda>j. g (f j)"] sum.remove [OF i, of "\<lambda>j. g ((f(i := x)) j)"]
    by simp
qed

lemmas token_lengths = token_operations_only_data [THEN only_data_length]

lemma transfer_Ok:
  assumes "token_laws tc" and "infos_wf infos h"
    and ok: "token_transfer tc amount infos h = Ok h'"
  obtains src dst where
    "length infos \<ge> 3" "ai_is_signer (infos ! 0)"
    "decoded (tc_account tc) h (ai_account (infos ! 1)) = Some src"
    "decoded (tc_account tc) h (ai_account (infos ! 2)) = Some dst"
    "ta_owner src = ai_pubkey (infos ! 0)" "ta_mint src = ta_mint dst" "amount \<le> ta_amount src"
    "decoded (tc_account tc) h' = (decoded (tc_account tc) h)
      (ai_account (infos ! 1) \<mapsto> src\<lparr>ta_amount := ta_amount src - amount\<rparr>,
       ai_account (infos ! 2) \<mapsto> dst\<lparr>ta_amount := saturating_add (ta_amount dst) amount\<rparr>)"
proof -
  have spec: "spec_transfer amount infos (ledger tc h) = Ok (ledger tc h')"
    using transfer_refines [OF assms(1,2), of amount] ok by simp
  then obtain src dst where d:
    "decoded (tc_account tc) h (ai_account (infos ! 1)) = Some src"
    "decoded (tc_account tc) h (ai_account (infos ! 2)) = Some dst"
    by (auto simp: spec_transfer_def Let_def split: if_splits option.splits)
  from spec d show thesis
    by (intro that [of src dst])
      (auto simp: spec_transfer_def Let_def ledger_def split: if_splits)
qed

lemma transfer_conserves:
  assumes laws: "token_laws tc" and wf: "infos_wf infos h"
    and ok: "token_transfer tc amount infos h = Ok h'"
    and two: "ai_account (infos ! 1) \<noteq> ai_account (infos ! 2)"
    and room: "\<And>dst. decoded (tc_account tc) h (ai_account (infos ! 2)) = Some dst \<Longrightarrow>
      unat (ta_amount dst) + unat amount < 2 ^ 64"
  shows "tokens_held tc m h' = tokens_held tc m h"
proof (rule transfer_Ok [OF laws wf ok])
  let ?c = "tc_account tc" and ?i = "ai_account (infos ! 1)" and ?j = "ai_account (infos ! 2)"
  fix src dst :: token_account
  let ?src = "src\<lparr>ta_amount := ta_amount src - amount\<rparr>"
  let ?dst = "dst\<lparr>ta_amount := saturating_add (ta_amount dst) amount\<rparr>"
  assume len: "length infos \<ge> 3" and src: "decoded ?c h ?i = Some src"
    and dst: "decoded ?c h ?j = Some dst" and mint: "ta_mint src = ta_mint dst"
    and le: "amount \<le> ta_amount src"
    and d': "decoded ?c h' = (decoded ?c h)(?i \<mapsto> ?src, ?j \<mapsto> ?dst)"
  have ij: "?i < length h" "?j < length h"
    using len infos_wf_2 [OF wf] by simp_all
  let ?f = "(decoded ?c h)(?i \<mapsto> ?src)"
  have "tokens_held tc m h' + held m (?f ?j) = (\<Sum>k \<in> {..<length h}. held m (?f k)) + held m (Some ?dst)"
    using sum_fun_upd [OF ij(2), of "held m" ?f "Some ?dst"] token_lengths(2) [OF ok]
    by (simp add: tokens_held_def d')
  moreover have "(\<Sum>k \<in> {..<length h}. held m (?f k)) + held m (decoded ?c h ?i) =
      tokens_held tc m h + held m (Some ?src)"
    using sum_fun_upd [OF ij(1), of "held m" "decoded ?c h" "Some ?src"]
    by (simp add: tokens_held_def)
  moreover have "unat (ta_amount src - amount) + unat amount = unat (ta_amount src)"
    using le by (simp add: unat_sub word_le_nat_alt)
  moreover have "unat (saturating_add (ta_amount dst) amount) = unat (ta_amount dst) + unat amount"
    using room [OF dst] by (intro saturating_add_exact) simp
  moreover have "?f ?j = Some dst" using two dst by simp
  ultimately show ?thesis
    using src mint by (simp split: if_splits)
qed

section \<open>Initialisation\<close>

text \<open>Every field is assigned, so nothing of the old state is left.\<close>

lemma all_fields_assigned:
  "m\<lparr>mint_authority := a, mint_decimals := d, mint_is_initialized := b, mint_supply := s\<rparr> =
     \<lparr>mint_authority = a, mint_supply = s, mint_decimals = d, mint_is_initialized = b\<rparr>"
  "t\<lparr>ta_mint := k, ta_owner := w, ta_is_initialized := b, ta_amount := n\<rparr> =
     \<lparr>ta_mint = k, ta_owner = w, ta_amount = n, ta_is_initialized = b\<rparr>"
  for m :: mint and t :: token_account
  by simp_all

lemma initialize_mint_Ok:
  assumes laws: "token_laws tc" and i: "ai_account (infos ! 0) < length h"
    and ok: "token_initialize_mint tc sv decimals authority infos h = Ok h'"
  shows "\<exists>old. decoded (tc_mint tc) h (ai_account (infos ! 0)) = Some old \<and>
      \<not> mint_is_initialized old"
    and "decoded (tc_mint tc) h' = (decoded (tc_mint tc) h)(ai_account (infos ! 0) \<mapsto>
      \<lparr>mint_authority = authority, mint_supply = 0, mint_decimals = decimals,
       mint_is_initialized = True\<rparr>)"
proof -
  let ?c = "tc_mint tc" and ?a = "infos ! 0"
  let ?new = "\<lparr>mint_authority = authority, mint_supply = 0, mint_decimals = decimals,
    mint_is_initialized = True\<rparr>"
  obtain old where old: "decoded ?c h (ai_account ?a) = Some old" "\<not> mint_is_initialized old"
    and pack: "pack_info ?c ?new ?a h = Ok h'"
    using ok unpack_info_decoded [OF i, of ?c]
    by (auto simp: token_initialize_mint_def Let_def all_fields_assigned split: if_splits)
  have cm: "packable ?c MINT_LEN" using laws by (simp add: token_laws_def)
  have "length (acc_data (cell h ?a)) = MINT_LEN"
    using decoded_length [OF cm old(1)] by (simp add: cell_def)
  from pack_info_decoded [OF cm i this, of ?new] pack
  have "decoded ?c h' = (decoded ?c h)(ai_account ?a \<mapsto> ?new)" by (metis result.inject(1))
  with old show "\<exists>old. decoded ?c h (ai_account ?a) = Some old \<and> \<not> mint_is_initialized old"
    and "decoded ?c h' = (decoded ?c h)(ai_account ?a \<mapsto> ?new)" by blast+
qed

lemma initialize_account_Ok:
  assumes laws: "token_laws tc" and wf: "infos_wf infos h"
    and ok: "token_initialize_account tc sv infos h = Ok h'"
  shows "\<exists>old. decoded (tc_account tc) h (ai_account (infos ! 0)) = Some old \<and>
      \<not> ta_is_initialized old"
    and "\<exists>m. decoded (tc_mint tc) h (ai_account (infos ! 1)) = Some m \<and> mint_is_initialized m"
    and "decoded (tc_account tc) h' = (decoded (tc_account tc) h)(ai_account (infos ! 0) \<mapsto>
      \<lparr>ta_mint = ai_pubkey (infos ! 1), ta_owner = ai_pubkey (infos ! 2), ta_amount = 0,
       ta_is_initialized = True\<rparr>)"
proof -
  let ?c = "tc_account tc" and ?a = "infos ! 0"
  let ?new = "\<lparr>ta_mint = ai_pubkey (infos ! 1), ta_owner = ai_pubkey (infos ! 2), ta_amount = 0,
    ta_is_initialized = True\<rparr>"
  have "\<not> length infos < 4" using ok by (auto simp: token_initialize_account_def)
  then have i: "ai_account ?a < length h" "ai_account (infos ! 1) < length h"
    by (auto intro!: infos_wf_nth [OF wf])
  obtain old m where old: "decoded ?c h (ai_account ?a) = Some old" "\<not> ta_is_initialized old"
    and m: "decoded (tc_mint tc) h (ai_account (infos ! 1)) = Some m" "mint_is_initialized m"
    and pack: "pack_info ?c ?new ?a h = Ok h'"
    using ok unpack_info_decoded [OF i(1), of ?c] unpack_info_decoded [OF i(2), of "tc_mint tc"]
    by (auto simp: token_initialize_account_def Let_def all_fields_assigned split: if_splits)
  have ca: "packable ?c TOKEN_ACCOUNT_LEN" using laws by (simp add: token_laws_def)
  have "length (acc_data (cell h ?a)) = TOKEN_ACCOUNT_LEN"
    using decoded_length [OF ca old(1)] by (simp add: cell_def)
  from pack_info_decoded [OF ca i(1) this, of ?new] pack
  have "decoded ?c h' = (decoded ?c h)(ai_account ?a \<mapsto> ?new)" by (metis result.inject(1))
  with old m show "\<exists>old. decoded ?c h (ai_account ?a) = Some old \<and> \<not> ta_is_initialized old"
    and "\<exists>m. decoded (tc_mint tc) h (ai_account (infos ! 1)) = Some m \<and> mint_is_initialized m"
    and "decoded ?c h' = (decoded ?c h)(ai_account ?a \<mapsto> ?new)" by blast+
qed

section \<open>Absence of panics\<close>

lemma unpack_info_not_Panic [simp]: "unpack_info c info h \<noteq> Panic"
  by (simp add: unpack_info_def unpack_from_slice_def try_borrow_data_def and_then_Panic_iff)

lemma pack_info_not_Panic:
  "packable c n \<Longrightarrow> unpack_info c info h = Ok x \<Longrightarrow> pack_info c y info h \<noteq> Panic"
  by (metis packable.pack_info_Ok packable.unpack_info_length result.distinct(3))

lemma spec_not_Panic: "spec_transfer amount infos L \<noteq> Panic" "spec_mint amount infos L \<noteq> Panic"
  by (auto simp: spec_transfer_def spec_mint_def Let_def split: option.splits)

lemma token_operations_not_Panic:
  assumes laws: "token_laws tc" and wf: "infos_wf infos h"
  shows "token_mint tc amount infos h \<noteq> Panic" "token_transfer tc amount infos h \<noteq> Panic"
    "token_initialize_mint tc sv decimals authority infos h \<noteq> Panic"
    "token_initialize_account tc sv infos h \<noteq> Panic"
proof -
  show "token_mint tc amount infos h \<noteq> Panic"
    using mint_refines [OF laws wf, of amount] spec_not_Panic(2) by (metis abs_result_simps(3))
  show "token_transfer tc amount infos h \<noteq> Panic"
    using transfer_refines [OF laws wf, of amount] spec_not_Panic(1) by (metis abs_result_simps(3))
  have "packable (tc_mint tc) MINT_LEN" "packable (tc_account tc) TOKEN_ACCOUNT_LEN"
    using laws by (simp_all add: token_laws_def)
  note pack = pack_info_not_Panic [OF this(1)] pack_info_not_Panic [OF this(2)]
  show "token_initialize_mint tc sv decimals authority infos h \<noteq> Panic"
    "token_initialize_account tc sv infos h \<noteq> Panic"
    by (auto simp: token_initialize_mint_def token_initialize_account_def Let_def
        and_then_Panic_iff try_borrow_data_def ai_lamports_def split: if_splits dest: pack)
qed

end
