(* ===== verification/Executor_Laws.thy ===== *)
theory Executor_Laws
  imports Executor
begin

text \<open>
  What an instruction that succeeds has done, over the whole executor of
  \<^verbatim>\<open>src/runtime.rs\<close>: it ran a native program, created no lamports, kept the keys of the
  accounts, and would have succeeded with any bytecode cache.
\<close>

section \<open>Each program\<close>

lemma move_lamports_keys:
  "move_lamports from to x h = Ok h' \<Longrightarrow> map acc_pubkey h' = map acc_pubkey h"
proof -
  assume mv: "move_lamports from to x h = Ok h'"
  define h1 where "h1 = h[ai_account from := (cell h from)
    \<lparr>acc_lamports := saturating_sub (acc_lamports (cell h from)) x\<rparr>]"
  have "h' = h1[ai_account to := (cell h1 to)
      \<lparr>acc_lamports := saturating_add (acc_lamports (cell h1 to)) x\<rparr>]"
    using mv by (simp add: move_lamports_def heap_ops h1_def)
  then have "map acc_pubkey h' = map acc_pubkey h1"
    by (simp add: same_keys_update cell_def)
  also have "\<dots> = map acc_pubkey h"
    by (simp add: h1_def same_keys_update cell_def)
  finally show ?thesis .
qed

lemma system_keys:
  assumes "system_entrypoint c ctx infos h = Ok h'"
  shows "map acc_pubkey h' = map acc_pubkey h"
  using assms
proof (cases rule: system_entrypoint_cases)
  case (1 lamports)
  then show ?thesis by (auto simp: system_transfer_Ok_iff dest: move_lamports_keys)
next
  case (2 owner)
  then show ?thesis by (auto simp: system_assign_Ok_iff cell_def same_keys_update)
next
  case (3 lamports space owner)
  then show ?thesis
    by (rule system_create_account_Ok) (auto simp: cell_def same_keys_update dest: move_lamports_keys)
qed

lemma system_sound:
  "system_entrypoint c ctx infos h = Ok h' \<Longrightarrow> infos_wf infos h \<Longrightarrow> sound_step h h'"
  using system_keys system_entrypoint_total by (metis order_refl sound_step_def)

lemma close_into_sound:
  assumes ok: "loader_close_into closed recipient h = Ok h'"
    and ij: "ai_account closed < length h" "ai_account recipient < length h"
  shows "sound_step h h'"
proof (cases "ai_account closed = ai_account recipient")
  case True
  let ?i = "ai_account closed"
  have h': "h' = h[?i := (h ! ?i)\<lparr>acc_lamports := 0, acc_data := []\<rparr>]"
    using close_into_self [OF ok ij(1) True] by (simp add: cell_def)
  have "total_lamports h' + unat (acc_lamports (h ! ?i)) = total_lamports h"
    using total_lamports_update [OF ij(1), of "(h ! ?i)\<lparr>acc_lamports := 0, acc_data := []\<rparr>"]
    by (simp add: h')
  then show ?thesis by (simp add: sound_step_def h' same_keys_update)
next
  case False
  have "map acc_pubkey h' = map acc_pubkey h"
    using close_into_two [OF ok ij False] by (simp add: map_update cell_def)
      (metis ij length_map list_update_id nth_map list_update_swap)
  then show ?thesis
    using close_into_conserves [OF ok ij False] by (simp add: sound_step_def)
qed

lemma deploy_finish_sound:
  assumes ok: "loader_deploy_finish c sv program_id infos n h = Ok h'"
    and wf: "infos_wf infos h" and len: "length infos \<ge> 8"
  shows "sound_step h h'"
proof -
  obtain slot h1 h2 h3
    where p1: "pack_into_account c (ProgramData slot (Some (ai_pubkey (infos ! 7)))) (infos ! 1) h = Ok h1"
    and cp: "loader_copy_code c (infos ! 3) (infos ! 1) n h1 = Ok h2"
    and p3: "pack_into_account c (Program (ai_pubkey (infos ! 1))) (infos ! 2) h2 = Ok h3"
    and cl: "loader_close_into (infos ! 3) (infos ! 0)
      (set_owner_executable (infos ! 2) program_id h3) = Ok h'"
    using ok by (auto simp: loader_deploy_finish_def Let_def try_borrow_data_def)
  have "only_data h1 h2"
    using cp by (auto simp: loader_copy_code_def split: if_splits dest: set_data_only_data)
  then have od: "only_data h h3"
    using pack_only_data [OF p1] pack_only_data [OF p3] by (metis only_data_trans)
  let ?h4 = "set_owner_executable (infos ! 2) program_id h3"
  have "sound_step h3 ?h4"
    unfolding set_owner_executable_def by (rule sound_step_update) (simp_all add: cell_def)
  with only_data_sound [OF od] have s4: "sound_step h ?h4" by (rule sound_step_trans)
  have "length ?h4 = length h" using sound_step_length [OF s4] .
  then have "ai_account (infos ! 3) < length ?h4" "ai_account (infos ! 0) < length ?h4"
    using len by (auto intro!: infos_wf_nth [OF wf])
  with cl have "sound_step ?h4 h'" by (intro close_into_sound)
  with s4 show ?thesis by (rule sound_step_trans)
qed

text \<open>A program keeps soundness of the executor it calls.\<close>

definition executor_sound :: "executor \<Rightarrow> bool" where
  "executor_sound e \<longleftrightarrow>
     (\<forall>ix ctx infos h cache ctx' h'.
        infos_wf infos h \<longrightarrow> fst (e ix ctx infos h cache) = Ok (ctx', h') \<longrightarrow> sound_step h h')"

lemma executor_soundD:
  "executor_sound e \<Longrightarrow> infos_wf infos h \<Longrightarrow> fst (e ix ctx infos h cache) = Ok (ctx', h') \<Longrightarrow>
     sound_step h h'"
  by (simp add: executor_sound_def)

lemma invoke_sound:
  "executor_sound e \<Longrightarrow> infos_wf infos h \<Longrightarrow> fst (invoke e ctx ix infos h cache) = Ok (ctx', h') \<Longrightarrow>
     sound_step h h'"
  by (auto simp: invoke_def run_then_Ok_iff dest: executor_soundD)

lemma with_ctx_Ok: "fst (with_ctx ctx r cache) = Ok (ctx', h') \<longleftrightarrow> r = Ok h' \<and> ctx' = ctx"
  by (auto simp: with_ctx_def lift_result_def)

lemma lift_result_fst [simp]: "fst (lift_result r cache) = r" "snd (lift_result r cache) = cache"
  by (simp_all add: lift_result_def)

lemma infos_wf_select:
  "infos_wf infos h \<Longrightarrow> list_all (\<lambda>i. i < length infos) is \<Longrightarrow> infos_wf (map ((!) infos) is) h"
  by (auto simp: infos_wf_def list_all_iff)

lemma token_sound:
  assumes e: "executor_sound e" and wf: "infos_wf infos h"
    and ok: "fst (token_entrypoint tc sc sv e ctx infos h cache) = Ok (ctx', h')"
  shows "sound_step h h'"
proof -
  obtain ix where ix: "de (tc_instruction tc) (ic_instruction_data ctx) = Some ix"
    using ok by (auto simp: token_entrypoint_def run_then_Ok_iff)
  show ?thesis
  proof (cases ix)
    case (TokenSetAuthority k)
    with ok ix have "fst (token_set_authority sc e k ctx infos h cache) = Ok (ctx', h')"
      by (simp add: token_entrypoint_def)
    then obtain aix c where "length infos \<ge> 2"
      and "fst (invoke e ctx aix [infos ! 0] h c) = Ok (ctx', h')"
      by (auto simp: token_set_authority_def Let_def run_then_Ok_iff split: if_splits)
    moreover from this have "infos_wf [infos ! 0] h"
      using infos_wf_select [OF wf, of "[0]"] by (cases infos) auto
    ultimately show ?thesis using invoke_sound [OF e] by blast
  qed (use ok ix in \<open>auto simp: token_entrypoint_def with_ctx_Ok
      dest!: token_operations_only_data only_data_sound\<close>)
qed

lemma loader_initialize_buffer_only_data:
  "loader_initialize_buffer c infos h = Ok h' \<Longrightarrow> only_data h h'"
  by (auto simp: loader_initialize_buffer_def Let_def dest: pack_only_data split: if_splits)

lemma loader_set_authority_only_data:
  assumes "loader_set_authority c a infos h = Ok h'"
  shows "only_data h h'"
proof -
  obtain st where "de c (acc_data (cell h (infos ! 0))) = Some st"
    using assms by (auto simp: loader_set_authority_def Let_def try_borrow_data_def split: if_splits)
  with assms show ?thesis
    by (cases st) (auto simp: loader_set_authority_def Let_def try_borrow_data_def
        dest: pack_only_data split: if_splits)
qed

lemmas loader_operations_only_data =
  loader_initialize_buffer_only_data loader_set_authority_only_data

lemma loader_write_only_data:
  assumes "loader_write c offset bytes infos h = Ok h'"
  shows "only_data h h'"
proof -
  obtain st where "de c (acc_data (cell h (infos ! 0))) = Some st"
    using assms by (auto simp: loader_write_def Let_def try_borrow_data_def split: if_splits)
  with assms obtain data st h1 where "set_data (infos ! 0) data h = Ok h1"
    and "pack_into_account c st (infos ! 0) h1 = Ok h'"
    by (cases st)
      (auto simp: loader_write_def Let_def try_borrow_data_def split: if_splits option.splits)
  then show ?thesis by (metis set_data_only_data pack_only_data only_data_trans)
qed

lemma loader_sound:
  assumes e: "executor_sound e" and wf: "infos_wf infos h"
    and ok: "fst (loader_entrypoint lc sc sv e ctx infos h cache) = Ok (ctx', h')"
  shows "sound_step h h'"
proof -
  obtain ix where ix: "de (lc_instruction lc) (ic_instruction_data ctx) = Some ix"
    using ok by (auto simp: loader_entrypoint_def run_then_Ok_iff)
  show ?thesis
  proof (cases ix)
    case (DeployWithMaxDataLen m)
    let ?c = "lc_state lc"
    from ok ix DeployWithMaxDataLen
    have "fst (loader_deploy ?c sc sv e m ctx infos h cache) = Ok (ctx', h')"
      by (simp add: loader_entrypoint_def)
    then obtain aix n c1 ctx1 h1
      where prep: "loader_deploy_prepare ?c sc sv m (ic_program_id ctx) infos h = Ok (aix, n)"
        and inv: "fst (invoke e ctx aix [infos ! 0, infos ! 1, infos ! 6] h c1) = Ok (ctx1, h1)"
        and fin: "loader_deploy_finish ?c sv (ic_program_id ctx) infos n h1 = Ok h'"
      by (auto simp: loader_deploy_def run_then_Ok_iff with_ctx_Ok)
    have len: "length infos \<ge> 8"
      using prep by (auto simp: loader_deploy_prepare_def split: if_splits)
    then have "list_all (\<lambda>i. i < length infos) [0, 1, 6]" by (cases infos) auto
    then have "infos_wf [infos ! 0, infos ! 1, infos ! 6] h"
      using infos_wf_select [OF wf, of "[0, 1, 6]"] by simp
    then have s1: "sound_step h h1" using inv by (rule invoke_sound [OF e])
    then have "infos_wf infos h1" using wf infos_wf_length [OF sound_step_length] by blast
    with s1 fin len show ?thesis by (metis deploy_finish_sound sound_step_trans)
  next
    case Close
    with ok ix have len: "\<not> length infos < 3"
      and cl: "loader_close_into (infos ! 0) (infos ! 1) h = Ok h'"
      by (auto simp: loader_entrypoint_def with_ctx_Ok loader_close_def Let_def split: if_splits)
    from len have "ai_account (infos ! 0) < length h" "ai_account (infos ! 1) < length h"
      by (auto intro!: infos_wf_nth [OF wf])
    with cl show ?thesis by (rule close_into_sound)
  qed (use ok ix in \<open>auto simp: loader_entrypoint_def with_ctx_Ok
      dest!: loader_operations_only_data loader_write_only_data only_data_sound\<close>)
qed

section \<open>The chain\<close>

text \<open>
  A BPF program can fail, but it cannot succeed: after a run that ends with code 0 the
  executor meters the instructions, and \<^verbatim>\<open>consume\<close> panics.
\<close>

lemma rbpf_run_never_Ok: "rbpf_run vm bytecode ix ctx infos h \<noteq> Ok r"
  by (auto simp: rbpf_run_def split: if_splits)

lemma rbpf_never_Ok: "fst (rbpf_execute vm ix ctx infos h cache) \<noteq> Ok r"
  by (cases r) (auto simp: rbpf_execute_def run_then_Ok_iff rbpf_run_never_Ok)

lemma chained_Ok:
  assumes "fst (chained_execute env e ix ctx infos h cache) = Ok r"
  shows "is_native (ix_program_id ix)"
    and "fst (native_execute env e ix ctx infos h cache) = Ok r"
proof -
  have bpf: "fst (rbpf_execute (env_vm env) ix ctx infos h c) \<noteq> Ok r" for c
    by (rule rbpf_never_Ok)
  with assms show "is_native (ix_program_id ix)"
    by (cases "is_native (ix_program_id ix)")
      (auto simp: chained_execute_def Let_def run_then_Ok_iff simp del: split_paired_All
        split: if_splits)
  with assms show "fst (native_execute env e ix ctx infos h cache) = Ok r"
    by (simp add: chained_execute_def)
qed

lemma chained_sound: "executor_sound e \<Longrightarrow> executor_sound (chained_execute env e)"
  unfolding executor_sound_def [of "chained_execute env e"]
proof (intro allI impI)
  fix ix ctx infos h cache ctx' h'
  assume e: "executor_sound e" and wf: "infos_wf infos h"
    and "fst (chained_execute env e ix ctx infos h cache) = Ok (ctx', h')"
  then have native: "is_native (ix_program_id ix)"
    and ok: "fst (native_execute env e ix ctx infos h cache) = Ok (ctx', h')"
    by (blast dest: chained_Ok)+
  from native consider (system) "ix_program_id ix = SYSTEM_PROGRAM_ID"
    | (token) "ix_program_id ix = TOKEN_PROGRAM_ID"
    | (loader) "ix_program_id ix = BPF_LOADER_UPGRADEABLE_PROGRAM_ID"
    unfolding is_native_def by blast
  then show "sound_step h h'"
  proof cases
    case system
    with ok have "system_entrypoint (env_system env) ctx infos h = Ok h'"
      by (simp add: native_execute_def with_ctx_Ok)
    then show ?thesis using wf by (rule system_sound)
  next
    case token
    with ok have "fst (token_entrypoint (env_token env) (env_system env) (env_sysvars env) e
        ctx infos h cache) = Ok (ctx', h')" by (simp add: native_execute_def)
    with e wf show ?thesis by (rule token_sound)
  next
    case loader
    with ok have "fst (loader_entrypoint (env_loader env) (env_system env) (env_sysvars env) e
        ctx infos h cache) = Ok (ctx', h')" by (simp add: native_execute_def)
    with e wf show ?thesis by (rule loader_sound)
  qed
qed

lemma executor_at_sound: "executor_sound (executor_at env n)"
proof (induction n)
  case 0
  show ?case unfolding executor_sound_def executor_at.simps by (intro allI impI) simp
next
  case (Suc n)
  then show ?case unfolding executor_at.simps by (rule chained_sound)
qed

lemma execute_program_sound: "executor_sound (execute_program env)"
  unfolding execute_program_def by (rule executor_at_sound)

section \<open>The cache\<close>

text \<open>Success does not depend on the bytecode cache.\<close>

definition cache_free :: "executor \<Rightarrow> bool" where
  "cache_free e \<longleftrightarrow>
     (\<forall>ix ctx infos h c c' r. fst (e ix ctx infos h c) = Ok r \<longrightarrow> fst (e ix ctx infos h c') = Ok r)"

lemma cache_freeD:
  "cache_free e \<Longrightarrow> fst (e ix ctx infos h c) = Ok r \<Longrightarrow> fst (e ix ctx infos h c') = Ok r"
  unfolding cache_free_def by blast

lemma run_then_cache_free:
  assumes ok: "fst (run_then m f) = Ok b"
    and m: "\<And>a. fst m = Ok a \<Longrightarrow> fst m' = Ok a"
    and f: "\<And>a b d d'. fst (f a d) = Ok b \<Longrightarrow> fst (f a d') = Ok b"
  shows "fst (run_then m' f) = Ok b"
proof -
  obtain a where a: "fst m = Ok a" and "fst (f a (snd m)) = Ok b"
    using ok by (auto simp: run_then_Ok_iff)
  from this(2) have "fst (f a (snd m')) = Ok b" by (rule f)
  with m [OF a] show ?thesis by (auto simp: run_then_Ok_iff)
qed

lemma with_ctx_fst: "fst (with_ctx ctx r c) = and_then r (\<lambda>h. Ok (ctx, h))"
  by (simp add: with_ctx_def)

lemma invoke_cache_free:
  assumes "cache_free e" and "fst (invoke e ctx ix infos h c) = Ok r"
  shows "fst (invoke e ctx ix infos h c') = Ok r"
  using assms(2) unfolding invoke_def
  by (rule run_then_cache_free) (auto dest: cache_freeD [OF assms(1)])

lemma token_cache_free:
  assumes e: "cache_free e" and ok: "fst (token_entrypoint tc sc sv e ctx infos h c) = Ok r"
  shows "fst (token_entrypoint tc sc sv e ctx infos h c') = Ok r"
  using ok unfolding token_entrypoint_def
proof (rule run_then_cache_free)
  fix ix d d' b
  have auth: "fst (token_set_authority sc e k ctx infos h d') = Ok b"
    if "fst (token_set_authority sc e k ctx infos h d) = Ok b" for k
    using that unfolding token_set_authority_def
    by (auto simp: Let_def split: if_splits elim!: run_then_cache_free
        intro: invoke_cache_free [OF e])
  assume "fst (case ix of TokenMint amount \<Rightarrow> with_ctx ctx (token_mint tc amount infos h) d
        | TokenTransfer amount \<Rightarrow> with_ctx ctx (token_transfer tc amount infos h) d
        | TokenSetAuthority k \<Rightarrow> token_set_authority sc e k ctx infos h d
        | TokenInitializeMint dec a \<Rightarrow> with_ctx ctx (token_initialize_mint tc sv dec a infos h) d
        | TokenInitializeAccount \<Rightarrow> with_ctx ctx (token_initialize_account tc sv infos h) d) = Ok b"
  then show "fst (case ix of TokenMint amount \<Rightarrow> with_ctx ctx (token_mint tc amount infos h) d'
        | TokenTransfer amount \<Rightarrow> with_ctx ctx (token_transfer tc amount infos h) d'
        | TokenSetAuthority k \<Rightarrow> token_set_authority sc e k ctx infos h d'
        | TokenInitializeMint dec a \<Rightarrow> with_ctx ctx (token_initialize_mint tc sv dec a infos h) d'
        | TokenInitializeAccount \<Rightarrow> with_ctx ctx (token_initialize_account tc sv infos h) d') = Ok b"
    using auth by (cases ix) (simp_all only: token_instruction.case with_ctx_fst)
qed simp

lemma loader_cache_free:
  assumes e: "cache_free e" and ok: "fst (loader_entrypoint lc sc sv e ctx infos h c) = Ok r"
  shows "fst (loader_entrypoint lc sc sv e ctx infos h c') = Ok r"
  using ok unfolding loader_entrypoint_def
proof (rule run_then_cache_free)
  fix ix d d' b
  have fin: "fst (with_ctx x y d) = Ok z \<Longrightarrow> fst (with_ctx x y d') = Ok z" for x y z d d'
    by (simp only: with_ctx_fst)
  have deploy: "fst (loader_deploy c sc sv e n ctx infos h d') = Ok b"
    if "fst (loader_deploy c sc sv e n ctx infos h d) = Ok b" for c n
    using that unfolding loader_deploy_def
    by (rule run_then_cache_free)
      (auto elim!: run_then_cache_free intro: invoke_cache_free [OF e] fin)
  assume "fst (case ix of
          InitializeBuffer \<Rightarrow> with_ctx ctx (loader_initialize_buffer (lc_state lc) infos h) d
        | LoaderWrite offset bytes \<Rightarrow>
            with_ctx ctx (loader_write (lc_state lc) offset bytes infos h) d
        | DeployWithMaxDataLen n \<Rightarrow> loader_deploy (lc_state lc) sc sv e n ctx infos h d
        | Upgrade \<Rightarrow> (Err (InternalError ''upgrade not implemented''), d)
        | LoaderSetAuthority a \<Rightarrow>
            with_ctx ctx (loader_set_authority (lc_state lc) a infos h) d
        | Close \<Rightarrow> with_ctx ctx (loader_close infos h) d) = Ok b"
  then show "fst (case ix of
          InitializeBuffer \<Rightarrow> with_ctx ctx (loader_initialize_buffer (lc_state lc) infos h) d'
        | LoaderWrite offset bytes \<Rightarrow>
            with_ctx ctx (loader_write (lc_state lc) offset bytes infos h) d'
        | DeployWithMaxDataLen n \<Rightarrow> loader_deploy (lc_state lc) sc sv e n ctx infos h d'
        | Upgrade \<Rightarrow> (Err (InternalError ''upgrade not implemented''), d')
        | LoaderSetAuthority a \<Rightarrow>
            with_ctx ctx (loader_set_authority (lc_state lc) a infos h) d'
        | Close \<Rightarrow> with_ctx ctx (loader_close infos h) d') = Ok b"
    using deploy by (cases ix) (simp_all only: loader_instruction.case with_ctx_fst fst_conv)
qed simp

lemma chained_cache_free: "cache_free e \<Longrightarrow> cache_free (chained_execute env e)"
  unfolding cache_free_def [of "chained_execute env e"]
proof (intro allI impI)
  fix ix ctx infos h c c' r
  assume e: "cache_free e" and "fst (chained_execute env e ix ctx infos h c) = Ok r"
  then have native: "is_native (ix_program_id ix)"
    and ok: "fst (native_execute env e ix ctx infos h c) = Ok r"
    by (blast dest: chained_Ok)+
  from native ok have "fst (native_execute env e ix ctx infos h c') = Ok r"
    unfolding is_native_def native_execute_def
    by (auto simp only: with_ctx_fst program_ids_distinct if_True if_False refl
        intro: token_cache_free [OF e] loader_cache_free [OF e])
  with native show "fst (chained_execute env e ix ctx infos h c') = Ok r"
    by (simp add: chained_execute_def)
qed

lemma executor_at_cache_free: "cache_free (executor_at env n)"
proof (induction n)
  case 0
  show ?case unfolding cache_free_def executor_at.simps by (intro allI impI) simp
next
  case (Suc n)
  then show ?case unfolding executor_at.simps by (rule chained_cache_free)
qed

lemma execute_program_cache_free: "cache_free (execute_program env)"
  unfolding execute_program_def by (rule executor_at_cache_free)

section \<open>What cross-program invocation passes on\<close>

text \<open>
  The invoke context keeps the instruction data of the outer instruction, and the system
  program reads its instruction from there, not from the instruction it was invoked with. The
  layouts below tell the encodings apart by variant and length.
\<close>

primrec system_tag :: "system_instruction \<Rightarrow> u32" where
  "system_tag (SystemTransfer l) = 0"
| "system_tag (SystemAssign k) = 1"
| "system_tag (SystemCreateAccount l s k) = 2"

locale system_layout = strict_codec c "\<lambda>_. True" + tagged_codec c system_tag
  for c :: "system_instruction codec" +
  assumes length_create: "ser c (SystemCreateAccount l s k) = Some bs \<Longrightarrow> length bs = 52"
begin

lemma no_instruction:
  assumes "take 4 bs = le_bytes 4 (2 :: u32)" and "length bs \<noteq> 52"
  shows "de c bs = None"
proof (cases "de c bs")
  case (Some x)
  then have x: "ser c x = Some bs" by (rule de_exact)
  have "le_bytes 4 (system_tag x) = le_bytes 4 (2 :: u32)" using ser_tag [OF x] assms(1) by simp
  then have "system_tag x = 2" by (simp add: le_bytes_inj)
  then obtain l s k where "x = SystemCreateAccount l s k" by (cases x) simp_all
  with x assms(2) length_create show ?thesis by blast
qed simp

end

definition token_tag :: "token_instruction \<Rightarrow> u32" where
  "token_tag ix =
     (case ix of TokenMint _ \<Rightarrow> 0 | TokenTransfer _ \<Rightarrow> 1 | TokenSetAuthority _ \<Rightarrow> 2
      | TokenInitializeMint _ _ \<Rightarrow> 3 | TokenInitializeAccount \<Rightarrow> 4)"

locale token_layout = strict_codec c "\<lambda>_. True" + tagged_codec c token_tag
  for c :: "token_instruction codec" +
  assumes length_set_authority: "ser c (TokenSetAuthority k) = Some bs \<Longrightarrow> length bs = 36"
begin

lemma set_authority_data:
  "de c bs = Some (TokenSetAuthority k) \<Longrightarrow> take 4 bs = le_bytes 4 (2 :: u32) \<and> length bs = 36"
  using de_exact [of bs "TokenSetAuthority k"] ser_tag [of "TokenSetAuthority k" bs]
    length_set_authority [of k bs] by (simp add: token_tag_def)

end

definition loader_tag :: "loader_instruction \<Rightarrow> u32" where
  "loader_tag ix =
     (case ix of InitializeBuffer \<Rightarrow> 0 | LoaderWrite _ _ \<Rightarrow> 1 | DeployWithMaxDataLen _ \<Rightarrow> 2
      | Upgrade \<Rightarrow> 3 | LoaderSetAuthority _ \<Rightarrow> 4 | Close \<Rightarrow> 5)"

locale loader_ix_layout = lenient_codec c valid + tagged_codec c loader_tag
  for c :: "loader_instruction codec" and valid +
  assumes length_deploy: "ser c (DeployWithMaxDataLen n) = Some bs \<Longrightarrow> length bs = 12"
begin

lemma deploy_data:
  "ser c (DeployWithMaxDataLen n) = Some bs \<Longrightarrow> take 4 bs = le_bytes 4 (2 :: u32) \<and> length bs = 12"
  using ser_tag [of "DeployWithMaxDataLen n" bs] length_deploy [of n bs]
  by (simp add: loader_tag_def)

end

lemma executor_at_Suc_system:
  "ix_program_id ix = SYSTEM_PROGRAM_ID \<Longrightarrow>
     execute_program env ix ctx infos h cache =
       with_ctx ctx (system_entrypoint (env_system env) ctx infos h) cache"
  by (simp add: execute_program_def numeral_2_eq_2 chained_system)

text \<open>An invocation of the system program under outer data it cannot read fails.\<close>

lemma invoke_system_unreadable:
  assumes "ix_program_id ix = SYSTEM_PROGRAM_ID"
    and "de (env_system env) (ic_instruction_data ctx) = None"
  shows "invoke (execute_program env) ctx ix infos h cache = (Err InvalidInstructionData, cache)"
  using assms
  by (simp add: invoke_def executor_at_Suc_system with_ctx_def system_entrypoint_def lift_result_def)

lemma set_authority_unreadable:
  assumes "de (env_system env) (ic_instruction_data ctx) = None" and "\<And>x. \<exists>bs. ser (env_system env) x = Some bs"
    and "length infos \<ge> 2" and "ai_is_signer (infos ! 1)"
  shows "token_set_authority (env_system env) (execute_program env) k ctx infos h cache =
    (Err InvalidInstructionData, cache)"
proof -
  obtain bs where "ser (env_system env) (SystemAssign k) = Some bs" using assms(2) by blast
  then obtain ix where
    "create_assign_instruction (env_system env) (ai_pubkey (infos ! 0)) k = Ok ix"
    by (simp add: create_assign_instruction_def)
  moreover from this have "ix_program_id ix = SYSTEM_PROGRAM_ID"
    by (rule create_instruction_program)
  ultimately show ?thesis
    using assms(1,3,4)
    by (simp add: token_set_authority_def invoke_system_unreadable)
qed

lemma deploy_unreadable:
  assumes "de (env_system env) (ic_instruction_data ctx) = None"
  shows "fst (loader_deploy c (env_system env) sv (execute_program env) n ctx infos h cache) \<noteq> Ok r"
proof
  assume "fst (loader_deploy c (env_system env) sv (execute_program env) n ctx infos h cache) = Ok r"
  then obtain ix m c1 r1 where
    prep: "loader_deploy_prepare c (env_system env) sv n (ic_program_id ctx) infos h = Ok (ix, m)"
    and inv: "fst (invoke (execute_program env) ctx ix [infos ! 0, infos ! 1, infos ! 6] h c1) = Ok r1"
    by (cases r) (auto simp: loader_deploy_def run_then_Ok_iff)
  from prep have "ix_program_id ix = SYSTEM_PROGRAM_ID"
    by (auto simp: loader_deploy_prepare_def Let_def create_instruction_program split: if_splits)
  with inv assms show False by (simp add: invoke_system_unreadable)
qed

end
