(* ===== verification/Wire.thy ===== *)
theory Wire
  imports Executor_Laws
begin

text \<open>
  A concrete layout for the codecs the model takes as parameters: little-endian integers of
  their width, a byte for a boolean and for the presence of an option, four bytes for a
  variant, eight bytes for a length. It is what \<^verbatim>\<open>bincode\<close> documents for its fixed-width
  configuration, and it shows that the laws assumed of the parameters can hold: every locale
  of the serialisation interface is interpreted here on the types of the program. The same
  is done for Base58.
\<close>

section \<open>Formats\<close>

text \<open>
  A format writes a value and reads one from the front of a byte string. Its law is that
  reading succeeds exactly on what is written.
\<close>

locale wire_format =
  fixes put :: "'a \<Rightarrow> bytes" and get :: "bytes \<Rightarrow> ('a \<times> bytes) option" and valid :: "'a \<Rightarrow> bool"
  assumes get_iff: "get bs = Some (x, t) \<longleftrightarrow> valid x \<and> bs = put x @ t"

text \<open>The two directions of the law, as they are proved for a type with variants.\<close>

lemma wire_formatI:
  assumes "\<And>x t. valid x \<Longrightarrow> get (put x @ t) = Some (x, t)"
    and "\<And>bs x t. get bs = Some (x, t) \<Longrightarrow> valid x \<and> bs = put x @ t"
  shows "wire_format put get valid"
  using assms by unfold_locales blast

definition strict_of :: "('a \<Rightarrow> bytes) \<Rightarrow> (bytes \<Rightarrow> ('a \<times> bytes) option) \<Rightarrow> 'a codec" where
  "strict_of put get =
     \<lparr>ser = (\<lambda>x. Some (put x)),
      de = (\<lambda>bs. case get bs of Some (x, t) \<Rightarrow> if t = [] then Some x else None | None \<Rightarrow> None)\<rparr>"

definition lenient_of :: "('a \<Rightarrow> bytes) \<Rightarrow> (bytes \<Rightarrow> ('a \<times> bytes) option) \<Rightarrow> 'a codec" where
  "lenient_of put get = \<lparr>ser = (\<lambda>x. Some (put x)), de = (\<lambda>bs. map_option fst (get bs))\<rparr>"

lemma strict_of_sel [simp]:
  "ser (strict_of put get) x = Some (put x)"
  "de (strict_of put get) bs = Some x \<longleftrightarrow> get bs = Some (x, [])"
  by (auto simp: strict_of_def split: option.splits if_splits)

lemma lenient_of_sel [simp]:
  "ser (lenient_of put get) x = Some (put x)"
  "de (lenient_of put get) bs = Some x \<longleftrightarrow> (\<exists>t. get bs = Some (x, t))"
  by (auto simp: lenient_of_def)

context wire_format
begin

lemma get_put: "valid x \<Longrightarrow> get (put x @ t) = Some (x, t)"
  by (simp add: get_iff)

lemma strict: "strict_codec (strict_of put get) valid"
  by unfold_locales (auto simp: get_iff)

lemma lenient: "lenient_codec (lenient_of put get) valid"
  by unfold_locales (auto simp: get_iff)

end

text \<open>Sequencing of readers.\<close>

definition get_then ::
    "('a \<times> bytes) option \<Rightarrow> ('a \<Rightarrow> bytes \<Rightarrow> ('b \<times> bytes) option) \<Rightarrow> ('b \<times> bytes) option" where
  "get_then r f = (case r of Some (a, bs) \<Rightarrow> f a bs | None \<Rightarrow> None)"

definition got :: "'a \<Rightarrow> bytes \<Rightarrow> ('a \<times> bytes) option" where
  "got x bs = Some (x, bs)"

lemma get_then_Some [simp]:
  "get_then r f = Some y \<longleftrightarrow> (\<exists>a bs. r = Some (a, bs) \<and> f a bs = Some y)"
  by (auto simp: get_then_def split: option.splits)

lemma get_then_eval [simp]: "get_then (Some (a, bs)) f = f a bs"
  by (simp add: get_then_def)

lemma got_Some [simp]: "got x bs = Some (y, t) \<longleftrightarrow> y = x \<and> t = bs"
  by (auto simp: got_def)

definition get_bytes :: "nat \<Rightarrow> bytes \<Rightarrow> (bytes \<times> bytes) option" where
  "get_bytes n bs = (if n \<le> length bs then Some (take n bs, drop n bs) else None)"

lemma get_bytes_Some [simp]: "get_bytes n bs = Some (x, t) \<longleftrightarrow> length x = n \<and> bs = x @ t"
  by (auto simp: get_bytes_def)

definition get_u64 :: "bytes \<Rightarrow> (u64 \<times> bytes) option" where
  "get_u64 bs = get_then (get_bytes 8 bs) (\<lambda>x. got (of_le_bytes x))"

definition get_u32 :: "bytes \<Rightarrow> (u32 \<times> bytes) option" where
  "get_u32 bs = get_then (get_bytes 4 bs) (\<lambda>x. got (of_le_bytes x))"

definition get_u8 :: "bytes \<Rightarrow> (u8 \<times> bytes) option" where
  "get_u8 bs = (case bs of [] \<Rightarrow> None | b # t \<Rightarrow> Some (b, t))"

definition get_bool :: "bytes \<Rightarrow> (bool \<times> bytes) option" where
  "get_bool bs = get_then (get_u8 bs)
     (\<lambda>b. if b = 0 then got False else if b = 1 then got True else (\<lambda>_. None))"

definition get_key :: "bytes \<Rightarrow> (pubkey \<times> bytes) option" where
  "get_key bs = get_then (get_bytes 32 bs) (\<lambda>x. got (pubkey_of_bytes x))"

definition put_option :: "('a \<Rightarrow> bytes) \<Rightarrow> 'a option \<Rightarrow> bytes" where
  "put_option put x = (case x of None \<Rightarrow> [0] | Some y \<Rightarrow> 1 # put y)"

definition get_option ::
    "(bytes \<Rightarrow> ('a \<times> bytes) option) \<Rightarrow> bytes \<Rightarrow> ('a option \<times> bytes) option" where
  "get_option get bs = get_then (get_bool bs)
     (\<lambda>b bs. if b then get_then (get bs) (\<lambda>x. got (Some x)) else got None bs)"

lemma get_u64_Some [simp]: "get_u64 bs = Some (x, t) \<longleftrightarrow> bs = le_bytes 8 x @ t"
  by (auto simp: get_u64_def le_bytes_of_le_bytes of_le_bytes_le_bytes
      intro: exI [of _ "le_bytes 8 x"])

lemma get_u32_Some [simp]: "get_u32 bs = Some (x, t) \<longleftrightarrow> bs = le_bytes 4 x @ t"
  by (auto simp: get_u32_def le_bytes_of_le_bytes of_le_bytes_le_bytes
      intro: exI [of _ "le_bytes 4 x"])

lemma get_u8_Some [simp]: "get_u8 bs = Some (x, t) \<longleftrightarrow> bs = x # t"
  by (auto simp: get_u8_def split: list.splits)

lemma get_bool_Some [simp]: "get_bool bs = Some (x, t) \<longleftrightarrow> bs = bool_byte x # t"
  by (cases bs; cases x) (auto simp: get_bool_def get_u8_def get_then_def got_def bool_byte_def)

lemma get_key_Some [simp]: "get_key bs = Some (x, t) \<longleftrightarrow> bs = pubkey_bytes x @ t"
  by (auto simp: get_key_def pubkey_bytes_of_bytes intro: exI [of _ "pubkey_bytes x"])

lemma get_option_Some [simp]:
  "get_option get bs = Some (x, t) \<longleftrightarrow>
     (case x of None \<Rightarrow> bs = 0 # t | Some y \<Rightarrow> \<exists>r. bs = 1 # r \<and> get r = Some (y, t))"
  by (auto simp: get_option_def bool_byte_def split: if_splits option.splits)

lemma get_eval [simp]:
  "get_u64 (le_bytes 8 l @ t) = Some (l, t)" "get_u32 (le_bytes 4 n @ t) = Some (n, t)"
  "get_u8 (b # t) = Some (b, t)" "get_key (pubkey_bytes k @ t) = Some (k, t)"
  "get_option get_key (put_option pubkey_bytes a @ t) = Some (a, t)"
  by (auto simp: put_option_def split: option.splits)

lemma get_eval_end [simp]:
  "get_u64 (le_bytes 8 l) = Some (l, [])" "get_u32 (le_bytes 4 n) = Some (n, [])"
  "get_key (pubkey_bytes k) = Some (k, [])"
  by simp_all

text \<open>Vectors, with their length first.\<close>

primrec get_many :: "(bytes \<Rightarrow> ('a \<times> bytes) option) \<Rightarrow> nat \<Rightarrow> bytes \<Rightarrow> ('a list \<times> bytes) option" where
  "get_many get 0 bs = Some ([], bs)"
| "get_many get (Suc n) bs =
     get_then (get bs) (\<lambda>x bs. get_then (get_many get n bs) (\<lambda>xs. got (x # xs)))"

definition put_vec :: "('a \<Rightarrow> bytes) \<Rightarrow> 'a list \<Rightarrow> bytes" where
  "put_vec put xs = le_bytes 8 (of_nat (length xs) :: u64) @ concat (map put xs)"

definition get_vec :: "(bytes \<Rightarrow> ('a \<times> bytes) option) \<Rightarrow> bytes \<Rightarrow> ('a list \<times> bytes) option" where
  "get_vec get bs = get_then (get_u64 bs) (\<lambda>n. get_many get (unat n))"

definition vec_valid :: "('a \<Rightarrow> bool) \<Rightarrow> 'a list \<Rightarrow> bool" where
  "vec_valid valid xs \<longleftrightarrow> length xs < 2 ^ 64 \<and> list_all valid xs"

context wire_format
begin

lemma get_many_iff:
  "get_many get n bs = Some (xs, t) \<longleftrightarrow>
     length xs = n \<and> list_all valid xs \<and> bs = concat (map put xs) @ t"
proof (induction n arbitrary: bs xs)
  case (Suc n)
  show ?case by (cases xs) (auto simp: get_iff Suc.IH)
qed auto

lemma vec: "wire_format (put_vec put) (get_vec get) (vec_valid valid)"
proof
  fix bs t and xs :: "'a list"
  have eq: "unat n = length xs \<longleftrightarrow> n = of_nat (length xs) \<and> length xs < 2 ^ 64" for n :: u64
  proof
    assume "unat n = length xs"
    then show "n = of_nat (length xs) \<and> length xs < 2 ^ 64"
      using unsigned_less [of n, where 'a = nat] by (simp flip: \<open>unat n = length xs\<close>)
  next
    assume "n = of_nat (length xs) \<and> length xs < 2 ^ 64"
    then show "unat n = length xs" using unat_of_nat_exact [of "length xs", where 'a = 64] by simp
  qed
  have "get_vec get bs = Some (xs, t) \<longleftrightarrow>
      (\<exists>n. (unat n = length xs \<and> list_all valid xs) \<and> bs = le_bytes 8 (n :: u64) @ concat (map put xs) @ t)"
    by (auto simp: get_vec_def get_many_iff)
  also have "\<dots> \<longleftrightarrow> vec_valid valid xs \<and> bs = put_vec put xs @ t"
    unfolding eq by (auto simp: put_vec_def vec_valid_def)
  finally show "get_vec get bs = Some (xs, t) \<longleftrightarrow> vec_valid valid xs \<and> bs = put_vec put xs @ t" .
qed

end

interpretation byte_wire: wire_format "\<lambda>b. [b]" get_u8 "\<lambda>_. True"
  by unfold_locales auto

interpretation key_wire: wire_format pubkey_bytes get_key "\<lambda>_. True"
  by unfold_locales simp

interpretation bytes_wire: wire_format "put_vec (\<lambda>b. [b])" "get_vec get_u8" "vec_valid (\<lambda>_. True)"
  by (rule byte_wire.vec)

section \<open>The instructions and states of the programs\<close>

primrec put_system :: "system_instruction \<Rightarrow> bytes" where
  "put_system (SystemTransfer lamports) = le_bytes 4 (0 :: u32) @ le_bytes 8 lamports"
| "put_system (SystemAssign owner) = le_bytes 4 (1 :: u32) @ pubkey_bytes owner"
| "put_system (SystemCreateAccount lamports space owner) =
     le_bytes 4 (2 :: u32) @ le_bytes 8 lamports @ le_bytes 8 space @ pubkey_bytes owner"

definition get_system :: "bytes \<Rightarrow> (system_instruction \<times> bytes) option" where
  "get_system bs = get_then (get_u32 bs) (\<lambda>tag bs.
     if tag = 0 then get_then (get_u64 bs) (\<lambda>l. got (SystemTransfer l))
     else if tag = 1 then get_then (get_key bs) (\<lambda>k. got (SystemAssign k))
     else if tag = 2 then get_then (get_u64 bs) (\<lambda>l bs. get_then (get_u64 bs) (\<lambda>s bs.
       get_then (get_key bs) (\<lambda>k. got (SystemCreateAccount l s k))))
     else None)"

text \<open>A tag read back is the tag written.\<close>

lemma le_bytes_append_inj [simp]:
  "LENGTH('a) \<le> 8 * n \<Longrightarrow> le_bytes n v @ s = le_bytes n w @ t \<longleftrightarrow> v = w \<and> s = t"
  for v w :: "'a::len word"
  by (simp add: le_bytes_inj)

interpretation system_wire: wire_format put_system get_system "\<lambda>_. True"
proof (rule wire_formatI)
  fix x t assume "(\<lambda>_. True) x"
  then show "get_system (put_system x @ t) = Some (x, t)"
    by (cases x) (simp_all add: get_system_def got_def)
next
  fix bs x t assume "get_system bs = Some (x, t)"
  then show "(\<lambda>_. True) x \<and> bs = put_system x @ t"
    by (auto simp: get_system_def put_option_def split: if_splits option.splits)
qed

definition put_mint :: "mint \<Rightarrow> bytes" where
  "put_mint m = pubkey_bytes (mint_authority m) @ le_bytes 8 (mint_supply m) @
     [mint_decimals m, bool_byte (mint_is_initialized m)]"

definition get_mint :: "bytes \<Rightarrow> (mint \<times> bytes) option" where
  "get_mint bs = get_then (get_key bs) (\<lambda>a bs. get_then (get_u64 bs) (\<lambda>s bs.
     get_then (get_u8 bs) (\<lambda>d bs. get_then (get_bool bs) (\<lambda>i.
     got \<lparr>mint_authority = a, mint_supply = s, mint_decimals = d, mint_is_initialized = i\<rparr>))))"

interpretation mint_wire: wire_format put_mint get_mint "\<lambda>_. True"
proof
  fix bs t and x :: mint
  show "get_mint bs = Some (x, t) \<longleftrightarrow> True \<and> bs = put_mint x @ t"
    by (cases x) (auto simp: get_mint_def put_mint_def)
qed

definition put_token_account :: "token_account \<Rightarrow> bytes" where
  "put_token_account a = pubkey_bytes (ta_mint a) @ pubkey_bytes (ta_owner a) @
     le_bytes 8 (ta_amount a) @ [bool_byte (ta_is_initialized a)]"

definition get_token_account :: "bytes \<Rightarrow> (token_account \<times> bytes) option" where
  "get_token_account bs = get_then (get_key bs) (\<lambda>m bs. get_then (get_key bs) (\<lambda>w bs.
     get_then (get_u64 bs) (\<lambda>n bs. get_then (get_bool bs) (\<lambda>i.
     got \<lparr>ta_mint = m, ta_owner = w, ta_amount = n, ta_is_initialized = i\<rparr>))))"

interpretation token_account_wire: wire_format put_token_account get_token_account "\<lambda>_. True"
proof
  fix bs t and x :: token_account
  show "get_token_account bs = Some (x, t) \<longleftrightarrow> True \<and> bs = put_token_account x @ t"
    by (cases x) (auto simp: get_token_account_def put_token_account_def)
qed

primrec put_token :: "token_instruction \<Rightarrow> bytes" where
  "put_token (TokenMint n) = le_bytes 4 (0 :: u32) @ le_bytes 8 n"
| "put_token (TokenTransfer n) = le_bytes 4 (1 :: u32) @ le_bytes 8 n"
| "put_token (TokenSetAuthority k) = le_bytes 4 (2 :: u32) @ pubkey_bytes k"
| "put_token (TokenInitializeMint d k) = le_bytes 4 (3 :: u32) @ [d] @ pubkey_bytes k"
| "put_token TokenInitializeAccount = le_bytes 4 (4 :: u32)"

definition get_token :: "bytes \<Rightarrow> (token_instruction \<times> bytes) option" where
  "get_token bs = get_then (get_u32 bs) (\<lambda>tag bs.
     if tag = 0 then get_then (get_u64 bs) (\<lambda>n. got (TokenMint n))
     else if tag = 1 then get_then (get_u64 bs) (\<lambda>n. got (TokenTransfer n))
     else if tag = 2 then get_then (get_key bs) (\<lambda>k. got (TokenSetAuthority k))
     else if tag = 3 then get_then (get_u8 bs) (\<lambda>d bs. get_then (get_key bs)
       (\<lambda>k. got (TokenInitializeMint d k)))
     else if tag = 4 then got TokenInitializeAccount bs
     else None)"

interpretation token_wire: wire_format put_token get_token "\<lambda>_. True"
proof (rule wire_formatI)
  fix x t assume "(\<lambda>_. True) x"
  then show "get_token (put_token x @ t) = Some (x, t)"
    by (cases x) (simp_all add: get_token_def got_def)
next
  fix bs x t assume "get_token bs = Some (x, t)"
  then show "(\<lambda>_. True) x \<and> bs = put_token x @ t"
    by (auto simp: get_token_def put_option_def split: if_splits option.splits)
qed

primrec put_state :: "loader_state \<Rightarrow> bytes" where
  "put_state Uninitialized = le_bytes 4 (0 :: u32)"
| "put_state (Buffer a) = le_bytes 4 (1 :: u32) @ put_option pubkey_bytes a"
| "put_state (Program p) = le_bytes 4 (2 :: u32) @ pubkey_bytes p"
| "put_state (ProgramData s a) =
     le_bytes 4 (3 :: u32) @ le_bytes 8 s @ put_option pubkey_bytes a"

definition get_state :: "bytes \<Rightarrow> (loader_state \<times> bytes) option" where
  "get_state bs = get_then (get_u32 bs) (\<lambda>tag bs.
     if tag = 0 then got Uninitialized bs
     else if tag = 1 then get_then (get_option get_key bs) (\<lambda>a. got (Buffer a))
     else if tag = 2 then get_then (get_key bs) (\<lambda>p. got (Program p))
     else if tag = 3 then get_then (get_u64 bs) (\<lambda>s bs.
       get_then (get_option get_key bs) (\<lambda>a. got (ProgramData s a)))
     else None)"

interpretation state_wire: wire_format put_state get_state "\<lambda>_. True"
proof (rule wire_formatI)
  fix x t assume "(\<lambda>_. True) x"
  then show "get_state (put_state x @ t) = Some (x, t)"
    by (cases x) (simp_all add: get_state_def got_def)
next
  fix bs x t assume "get_state bs = Some (x, t)"
  then show "(\<lambda>_. True) x \<and> bs = put_state x @ t"
    by (auto simp: get_state_def put_option_def split: if_splits option.splits)
qed

primrec put_loader :: "loader_instruction \<Rightarrow> bytes" where
  "put_loader InitializeBuffer = le_bytes 4 (0 :: u32)"
| "put_loader (LoaderWrite offset bs) =
     le_bytes 4 (1 :: u32) @ le_bytes 4 offset @ put_vec (\<lambda>b. [b]) bs"
| "put_loader (DeployWithMaxDataLen n) = le_bytes 4 (2 :: u32) @ le_bytes 8 n"
| "put_loader Upgrade = le_bytes 4 (3 :: u32)"
| "put_loader (LoaderSetAuthority a) = le_bytes 4 (4 :: u32) @ put_option pubkey_bytes a"
| "put_loader Close = le_bytes 4 (5 :: u32)"

definition get_loader :: "bytes \<Rightarrow> (loader_instruction \<times> bytes) option" where
  "get_loader bs = get_then (get_u32 bs) (\<lambda>tag bs.
     if tag = 0 then got InitializeBuffer bs
     else if tag = 1 then get_then (get_u32 bs) (\<lambda>offset bs.
       get_then (get_vec get_u8 bs) (\<lambda>x. got (LoaderWrite offset x)))
     else if tag = 2 then get_then (get_u64 bs) (\<lambda>n. got (DeployWithMaxDataLen n))
     else if tag = 3 then got Upgrade bs
     else if tag = 4 then get_then (get_option get_key bs) (\<lambda>a. got (LoaderSetAuthority a))
     else if tag = 5 then got Close bs
     else None)"

primrec loader_valid :: "loader_instruction \<Rightarrow> bool" where
  "loader_valid InitializeBuffer = True"
| "loader_valid (LoaderWrite offset bs) = vec_valid (\<lambda>_. True) bs"
| "loader_valid (DeployWithMaxDataLen n) = True"
| "loader_valid Upgrade = True"
| "loader_valid (LoaderSetAuthority a) = True"
| "loader_valid Close = True"

interpretation loader_wire: wire_format put_loader get_loader loader_valid
proof (rule wire_formatI)
  fix x t assume "loader_valid x"
  then show "get_loader (put_loader x @ t) = Some (x, t)"
    by (cases x) (simp_all add: get_loader_def bytes_wire.get_iff bytes_wire.get_put got_def)
next
  fix bs x t assume "get_loader bs = Some (x, t)"
  then show "loader_valid x \<and> bs = put_loader x @ t"
    by (auto simp: get_loader_def bytes_wire.get_iff bytes_wire.get_put put_option_def split: if_splits option.splits)
qed

section \<open>The laws hold\<close>

definition system_codec :: "system_instruction codec" where
  "system_codec = strict_of put_system get_system"

definition token_codec :: "token_instruction codec" where
  "token_codec = strict_of put_token get_token"

definition mint_codec :: "mint codec" where
  "mint_codec = strict_of put_mint get_mint"

definition token_account_codec :: "token_account codec" where
  "token_account_codec = strict_of put_token_account get_token_account"

definition loader_codec :: "loader_instruction codec" where
  "loader_codec = lenient_of put_loader get_loader"

definition state_codec :: "loader_state codec" where
  "state_codec = lenient_of put_state get_state"

lemmas codec_defs = system_codec_def token_codec_def mint_codec_def token_account_codec_def
  loader_codec_def state_codec_def

interpretation system_codec: system_layout system_codec
proof (intro system_layout.intro system_layout_axioms.intro)
  show "strict_codec system_codec (\<lambda>_. True)"
    unfolding system_codec_def by (rule system_wire.strict)
  show "tagged_codec system_codec system_tag"
  proof
    fix x bs assume "ser system_codec x = Some bs"
    then show "take 4 bs = le_bytes 4 (system_tag x)" by (cases x) (auto simp: system_codec_def)
  qed
qed (auto simp: system_codec_def)

interpretation token_codec: token_layout token_codec
proof (intro token_layout.intro token_layout_axioms.intro)
  show "strict_codec token_codec (\<lambda>_. True)"
    unfolding token_codec_def by (rule token_wire.strict)
  show "tagged_codec token_codec token_tag"
  proof
    fix x bs assume "ser token_codec x = Some bs"
    then show "take 4 bs = le_bytes 4 (token_tag x)"
      by (cases x) (auto simp: token_codec_def token_tag_def)
  qed
qed (auto simp: token_codec_def)

interpretation loader_codec: loader_ix_layout loader_codec loader_valid
proof (intro loader_ix_layout.intro loader_ix_layout_axioms.intro)
  show "lenient_codec loader_codec loader_valid"
    unfolding loader_codec_def by (rule loader_wire.lenient)
  show "tagged_codec loader_codec loader_tag"
  proof
    fix x bs assume "ser loader_codec x = Some bs"
    then show "take 4 bs = le_bytes 4 (loader_tag x)"
      by (cases x) (auto simp: loader_codec_def loader_tag_def)
  qed
qed (auto simp: loader_codec_def)

interpretation mint_codec: packable mint_codec MINT_LEN
proof (rule packable.intro)
  show "strict_codec mint_codec (\<lambda>_. True)"
    unfolding mint_codec_def by (rule mint_wire.strict)
  show "sized_codec mint_codec MINT_LEN"
    by unfold_locales (auto simp: mint_codec_def put_mint_def MINT_LEN_def)
qed

interpretation token_account_codec: packable token_account_codec TOKEN_ACCOUNT_LEN
proof (rule packable.intro)
  show "strict_codec token_account_codec (\<lambda>_. True)"
    unfolding token_account_codec_def by (rule token_account_wire.strict)
  show "sized_codec token_account_codec TOKEN_ACCOUNT_LEN"
    by unfold_locales (auto simp: token_account_codec_def put_token_account_def TOKEN_ACCOUNT_LEN_def)
qed

interpretation state_codec: loader_layout state_codec
proof (intro loader_layout.intro loader_layout_axioms.intro)
  show "lenient_codec state_codec (\<lambda>_. True)"
    unfolding state_codec_def by (rule state_wire.lenient)
qed (auto simp: state_codec_def put_option_def split: option.splits)

definition wire_token :: token_codecs where
  "wire_token = \<lparr>tc_instruction = token_codec, tc_mint = mint_codec, tc_account = token_account_codec\<rparr>"

definition wire_loader :: loader_codecs where
  "wire_loader = \<lparr>lc_instruction = loader_codec, lc_state = state_codec\<rparr>"

lemma wire_token_laws: "token_laws wire_token"
  unfolding token_laws_def wire_token_def
  by (simp add: mint_codec.packable_axioms token_account_codec.packable_axioms)

lemma de_put [simp]:
  "de system_codec (put_system ix) = Some ix" "de token_codec (put_token tix) = Some tix"
  "de mint_codec (put_mint m) = Some m"
  "de token_account_codec (put_token_account a) = Some a"
  "de state_codec (put_state st @ t) = Some st" "de state_codec (put_state st) = Some st"
  by (simp_all add: codec_defs system_wire.get_iff token_wire.get_iff mint_wire.get_iff
      token_account_wire.get_iff state_wire.get_iff)

lemma de_put_loader [simp]: "loader_valid lix \<Longrightarrow> de loader_codec (put_loader lix) = Some lix"
  by (simp add: loader_codec_def loader_wire.get_iff)

text \<open>
  Sysvars and a virtual machine to run the model with: the rent is a number of lamports per
  byte, the clock a slot, and the machine stops at once with code 0.
\<close>

definition wire_sysvars :: "u64 sysvars" where
  "wire_sysvars =
     \<lparr>rent_de = (\<lambda>bs. map_option fst (get_u64 bs)), rent_de_free = (\<lambda>bs. map_option fst (get_u64 bs)),
      rent_is_exempt = (\<lambda>r l n. unat r * n \<le> unat l),
      rent_minimum_balance = (\<lambda>r n. r * of_nat n), clock_slot = (\<lambda>bs. map_option fst (get_u64 bs))\<rparr>"

definition wire_vm :: "bytes vm_lib" where
  "wire_vm =
     \<lparr>vm_from_elf = Ok, vm_verify = (\<lambda>_. Ok ()), vm_memory_mapping = (\<lambda>_. Ok ()),
      vm_execute_program = (\<lambda>_ mem. VmDone 1 (Ok 0) mem)\<rparr>"

definition wire_env :: "(u64, bytes) env" where
  "wire_env = \<lparr>env_system = system_codec, env_token = wire_token, env_loader = wire_loader,
     env_sysvars = wire_sysvars, env_vm = wire_vm\<rparr>"

lemmas wire_defs = wire_token_def wire_loader_def wire_sysvars_def wire_vm_def wire_env_def

declare put_system.simps [simp del] put_token.simps [simp del] put_state.simps [simp del]
  put_loader.simps [simp del]

section \<open>Accounts and transactions\<close>

definition hash_of_bytes :: "bytes \<Rightarrow> hash" where
  "hash_of_bytes bs = Hash (of_be_bytes bs)"

definition signature_of_bytes :: "bytes \<Rightarrow> signature" where
  "signature_of_bytes bs = Signature (of_be_bytes bs)"

definition get_hash :: "bytes \<Rightarrow> (hash \<times> bytes) option" where
  "get_hash bs = get_then (get_bytes 32 bs) (\<lambda>x. got (hash_of_bytes x))"

definition get_signature :: "bytes \<Rightarrow> (signature \<times> bytes) option" where
  "get_signature bs = get_then (get_bytes 64 bs) (\<lambda>x. got (signature_of_bytes x))"

lemma hash_bytes_inverse [simp]:
  "hash_of_bytes (hash_bytes h) = h" "signature_of_bytes (signature_bytes s) = s"
  by (cases h, simp add: hash_of_bytes_def of_be_bytes_be_bytes)
    (cases s, simp add: signature_of_bytes_def of_be_bytes_be_bytes)

lemma hash_bytes_of_bytes:
  "length bs = 32 \<Longrightarrow> hash_bytes (hash_of_bytes bs) = bs"
  "length cs = 64 \<Longrightarrow> signature_bytes (signature_of_bytes cs) = cs"
  by (simp_all add: hash_of_bytes_def signature_of_bytes_def be_bytes_of_be_bytes)

lemma get_hash_Some [simp]: "get_hash bs = Some (x, t) \<longleftrightarrow> bs = hash_bytes x @ t"
  by (auto simp: get_hash_def hash_bytes_of_bytes intro: exI [of _ "hash_bytes x"])

lemma get_signature_Some [simp]: "get_signature bs = Some (x, t) \<longleftrightarrow> bs = signature_bytes x @ t"
  by (auto simp: get_signature_def hash_bytes_of_bytes intro: exI [of _ "signature_bytes x"])

interpretation signature_wire: wire_format signature_bytes get_signature "\<lambda>_. True"
  by unfold_locales simp

interpretation keys_wire: wire_format "put_vec pubkey_bytes" "get_vec get_key" "vec_valid (\<lambda>_. True)"
  by (rule key_wire.vec)

definition put_account :: "account \<Rightarrow> bytes" where
  "put_account a = pubkey_bytes (acc_pubkey a) @ le_bytes 8 (acc_lamports a) @
     put_vec (\<lambda>b. [b]) (acc_data a) @ pubkey_bytes (acc_owner a) @
     bool_byte (acc_executable a) # le_bytes 8 (acc_rent_epoch a)"

definition get_account :: "bytes \<Rightarrow> (account \<times> bytes) option" where
  "get_account bs = get_then (get_key bs) (\<lambda>k bs. get_then (get_u64 bs) (\<lambda>l bs.
     get_then (get_vec get_u8 bs) (\<lambda>d bs. get_then (get_key bs) (\<lambda>w bs.
     get_then (get_bool bs) (\<lambda>x bs. get_then (get_u64 bs) (\<lambda>r.
     got \<lparr>acc_pubkey = k, acc_lamports = l, acc_data = d, acc_owner = w, acc_executable = x,
          acc_rent_epoch = r\<rparr>))))))"

definition account_valid :: "account \<Rightarrow> bool" where
  "account_valid a \<longleftrightarrow> length (acc_data a) < 2 ^ 64"

lemma vec_valid_bytes [simp]: "vec_valid (\<lambda>_. True) xs \<longleftrightarrow> length xs < 2 ^ 64"
  by (simp add: vec_valid_def list_all_iff)

interpretation account_wire: wire_format put_account get_account account_valid
proof
  fix bs t and x :: account
  show "get_account bs = Some (x, t) \<longleftrightarrow> account_valid x \<and> bs = put_account x @ t"
    by (cases x) (auto simp: get_account_def put_account_def account_valid_def bytes_wire.get_iff)
qed

definition put_meta :: "account_meta \<Rightarrow> bytes" where
  "put_meta m = pubkey_bytes (am_pubkey m) @ [bool_byte (am_is_signer m), bool_byte (am_is_writable m)]"

definition get_meta :: "bytes \<Rightarrow> (account_meta \<times> bytes) option" where
  "get_meta bs = get_then (get_key bs) (\<lambda>k bs. get_then (get_bool bs) (\<lambda>s bs.
     get_then (get_bool bs) (\<lambda>w. got \<lparr>am_pubkey = k, am_is_signer = s, am_is_writable = w\<rparr>)))"

interpretation meta_wire: wire_format put_meta get_meta "\<lambda>_. True"
proof
  fix bs t and x :: account_meta
  show "get_meta bs = Some (x, t) \<longleftrightarrow> True \<and> bs = put_meta x @ t"
    by (cases x) (auto simp: get_meta_def put_meta_def)
qed

interpretation metas_wire: wire_format "put_vec put_meta" "get_vec get_meta" "vec_valid (\<lambda>_. True)"
  by (rule meta_wire.vec)

definition put_ix :: "instruction \<Rightarrow> bytes" where
  "put_ix ix = pubkey_bytes (ix_program_id ix) @ put_vec put_meta (ix_accounts ix) @
     put_vec (\<lambda>b. [b]) (ix_data ix)"

definition get_ix :: "bytes \<Rightarrow> (instruction \<times> bytes) option" where
  "get_ix bs = get_then (get_key bs) (\<lambda>k bs. get_then (get_vec get_meta bs) (\<lambda>ms bs.
     get_then (get_vec get_u8 bs) (\<lambda>d. got \<lparr>ix_program_id = k, ix_accounts = ms, ix_data = d\<rparr>)))"

definition ix_valid :: "instruction \<Rightarrow> bool" where
  "ix_valid ix \<longleftrightarrow> length (ix_accounts ix) < 2 ^ 64 \<and> length (ix_data ix) < 2 ^ 64"

interpretation ix_wire: wire_format put_ix get_ix ix_valid
proof
  fix bs t and x :: instruction
  show "get_ix bs = Some (x, t) \<longleftrightarrow> ix_valid x \<and> bs = put_ix x @ t"
    by (cases x)
      (auto simp: get_ix_def put_ix_def ix_valid_def bytes_wire.get_iff metas_wire.get_iff)
qed

interpretation ixs_wire: wire_format "put_vec put_ix" "get_vec get_ix" "vec_valid ix_valid"
  by (rule ix_wire.vec)

definition put_message :: "message \<Rightarrow> bytes" where
  "put_message m = put_vec pubkey_bytes (msg_account_keys m) @
     hash_bytes (msg_recent_blockhash m) @ put_vec put_ix (msg_instructions m)"

definition get_message :: "bytes \<Rightarrow> (message \<times> bytes) option" where
  "get_message bs = get_then (get_vec get_key bs) (\<lambda>ks bs. get_then (get_hash bs) (\<lambda>h bs.
     get_then (get_vec get_ix bs) (\<lambda>ixs.
     got \<lparr>msg_account_keys = ks, msg_recent_blockhash = h, msg_instructions = ixs\<rparr>)))"

definition message_valid :: "message \<Rightarrow> bool" where
  "message_valid m \<longleftrightarrow> length (msg_account_keys m) < 2 ^ 64 \<and> vec_valid ix_valid (msg_instructions m)"

interpretation message_wire: wire_format put_message get_message message_valid
proof
  fix bs t and x :: message
  show "get_message bs = Some (x, t) \<longleftrightarrow> message_valid x \<and> bs = put_message x @ t"
    by (cases x) (auto simp: get_message_def put_message_def message_valid_def
        keys_wire.get_iff ixs_wire.get_iff)
qed

definition message_codec :: "message codec" where
  "message_codec = strict_of put_message get_message"

definition account_codec :: "account codec" where
  "account_codec = strict_of put_account get_account"

text \<open>The pair the Merkle leaves hash.\<close>

definition leaf_codec :: "(pubkey \<times> account) codec" where
  "leaf_codec = \<lparr>ser = (\<lambda>(k, a). Some (pubkey_bytes k @ put_account a)), de = (\<lambda>_. None)\<rparr>"

interpretation message_codec: strict_codec message_codec message_valid
  unfolding message_codec_def by (rule message_wire.strict)

interpretation account_codec: strict_codec account_codec account_valid
  unfolding account_codec_def by (rule account_wire.strict)

text \<open>A database that is a list of pairs, with which the RocksDB store is a store.\<close>

definition list_db :: "(bytes, bytes) hashmap rocksdb" where
  "list_db = \<lparr>db_get = map_of, db_put = (\<lambda>db k v. Some (AList.update k v db)), db_iter = map Some\<rparr>"

interpretation rocks: account_store
  "rocks_load list_db account_codec" "rocks_store list_db account_codec" "\<lambda>_. True" account_valid
  by (rule rocks_is_store)
    (auto simp: rocks_get_put_def list_db_def map_of_update account_codec.strict_codec_axioms)

text \<open>A digest and a signature scheme to run the model with.\<close>

definition wire_crypto :: crypto where
  "wire_crypto = \<lparr>key_from_bytes = (\<lambda>_. True), key_verify = (\<lambda>k m s. s = ucast k),
     key_verify_strict = (\<lambda>k m s. s = ucast k), sha256 = (\<lambda>bs. of_be_bytes (take 32 (rev bs)))\<rparr>"

end
