(* ===== verification/Base58.thy ===== *)
theory Base58
  imports Core_Types
begin

text \<open>
  The text form of keys (\<^verbatim>\<open>src/types.rs\<close>) over a concrete Base58: the digits of the number
  the bytes are, with a digit 1 for each leading zero byte. It shows that the law the
  development assumes of the library's encoder and decoder holds for the documented format.
\<close>

section \<open>Digits\<close>

fun to_digits :: "nat \<Rightarrow> nat \<Rightarrow> nat list" where
  "to_digits b n = (if n = 0 \<or> b \<le> 1 then [] else to_digits b (n div b) @ [n mod b])"

declare to_digits.simps [simp del]

definition of_digits :: "nat \<Rightarrow> nat list \<Rightarrow> nat" where
  "of_digits b ds = foldl (\<lambda>v d. v * b + d) 0 ds"

lemma of_digits_snoc [simp]: "of_digits b (ds @ [d]) = of_digits b ds * b + d"
  by (simp add: of_digits_def)

lemma of_digits_Nil [simp]: "of_digits b [] = 0"
  by (simp add: of_digits_def)

lemma of_to_digits: "1 < b \<Longrightarrow> of_digits b (to_digits b n) = n"
  by (induction b n rule: to_digits.induct) (subst to_digits.simps, auto)

lemma to_digits_0 [simp]: "to_digits b 0 = []"
  by (simp add: to_digits.simps)

lemma to_digits_step: "1 < b \<Longrightarrow> d < b \<Longrightarrow> v * b + d \<noteq> 0 \<Longrightarrow> to_digits b (v * b + d) = to_digits b v @ [d]"
  by (subst to_digits.simps) auto

lemma of_digits_0: "1 < b \<Longrightarrow> of_digits b ds = 0 \<Longrightarrow> list_all (\<lambda>d. d = 0) ds"
  by (induction ds rule: rev_induct) auto

lemma dropWhile_all: "list_all P xs \<Longrightarrow> dropWhile P xs = []"
  by (induction xs) auto

lemma dropWhile_snoc:
  "dropWhile P (xs @ [x]) = (if list_all P xs then dropWhile P [x] else dropWhile P xs @ [x])"
  by (induction xs) auto

text \<open>Converting back drops the leading zeros.\<close>

lemma to_of_digits:
  "1 < b \<Longrightarrow> list_all (\<lambda>d. d < b) ds \<Longrightarrow> to_digits b (of_digits b ds) = dropWhile (\<lambda>d. d = 0) ds"
proof (induction ds rule: rev_induct)
  case Nil
  then show ?case by simp
next
  case (snoc d ds)
  show ?case
  proof (cases "of_digits b ds * b + d = 0")
    case True
    then have "of_digits b ds = 0" "d = 0" using snoc.prems(1) by auto
    with of_digits_0 [OF snoc.prems(1)] show ?thesis by (simp add: dropWhile_all)
  next
    case False
    then have step: "to_digits b (of_digits b (ds @ [d])) = dropWhile (\<lambda>d. d = 0) ds @ [d]"
      using snoc to_digits_step [of b d "of_digits b ds"] by simp
    show ?thesis
    proof (cases "list_all (\<lambda>d. d = 0) ds")
      case True
      then have "of_digits b ds = 0" by (induction ds rule: rev_induct) auto
      with False have "d \<noteq> 0" by simp
      with True step show ?thesis by (simp add: dropWhile_snoc dropWhile_all)
    next
      case False
      with step show ?thesis by (simp add: dropWhile_snoc)
    qed
  qed
qed

lemma to_digits_less: "1 < b \<Longrightarrow> list_all (\<lambda>d. d < b) (to_digits b n)"
proof (induction b n rule: to_digits.induct)
  case (1 b n)
  show ?case
  proof (cases "n = 0")
    case False
    with 1 have "list_all (\<lambda>d. d < b) (to_digits b (n div b) @ [n mod b])" by simp
    with False "1.prems" show ?thesis by (simp only: to_digits.simps [of b n]) simp
  qed simp
qed

lemma takeWhile_replicate_append:
  "P c \<Longrightarrow> takeWhile P (replicate k c @ xs) = replicate k c @ takeWhile P xs"
  by (induction k) auto

lemma to_digits_hd: "1 < b \<Longrightarrow> to_digits b n \<noteq> [] \<Longrightarrow> hd (to_digits b n) \<noteq> 0"
proof -
  assume b: "1 < b" and ne: "to_digits b n \<noteq> []"
  have same: "dropWhile (\<lambda>d. d = 0) (to_digits b n) = to_digits b n"
    using to_of_digits [OF b to_digits_less [OF b, of n]] by (simp only: of_to_digits [OF b])
  have "dropWhile (\<lambda>d. d = 0) (to_digits b n) \<noteq> []" unfolding same by (rule ne)
  from hd_dropWhile [OF this] show ?thesis unfolding same .
qed

section \<open>The encoder and the decoder\<close>

definition digit_char :: "nat \<Rightarrow> char" where
  "digit_char d = base58_alphabet ! d"

definition char_digit :: "char \<Rightarrow> nat option" where
  "char_digit c = List.find (\<lambda>d. digit_char d = c) [0..<58]"

definition bs58_encode :: "bytes \<Rightarrow> string" where
  "bs58_encode bs =
     replicate (length (takeWhile (\<lambda>b. b = 0) bs)) (digit_char 0) @
     map digit_char (to_digits 58 (of_digits 256 (map unat bs)))"

definition bs58_decode :: "string \<Rightarrow> bytes option" where
  "bs58_decode s =
     (let zeros = takeWhile (\<lambda>c. c = digit_char 0) s; ds = map char_digit (drop (length zeros) s) in
      if list_all (\<lambda>d. d \<noteq> None) ds
      then Some (replicate (length zeros) 0 @
             map of_nat (to_digits 256 (of_digits 58 (map the ds))))
      else None)"

lemma digit_char_inj: "c < 58 \<Longrightarrow> d < 58 \<Longrightarrow> digit_char c = digit_char d \<longleftrightarrow> c = d"
proof -
  assume "c < 58" "d < 58"
  moreover have "distinct base58_alphabet" "length base58_alphabet = 58"
    by (simp_all add: base58_alphabet_def)
  ultimately show ?thesis by (simp add: digit_char_def nth_eq_iff_index_eq)
qed

lemma char_digit_char: "d < 58 \<Longrightarrow> char_digit (digit_char d) = Some d"
  unfolding char_digit_def find_Some_iff
  by (rule exI [of _ d]) (auto simp: digit_char_inj)

lemma bytes_digits: "list_all (\<lambda>d. d < 256) (map unat (bs :: bytes))"
proof -
  have "unat b < 256" for b :: u8 using unsigned_less [of b, where 'a = nat] by simp
  then show ?thesis by (simp add: list_all_iff)
qed

lemma decode_encode: "bs58_decode (bs58_encode bs) = Some bs"
proof -
  let ?N = "of_digits 256 (map unat bs)" and ?k = "length (takeWhile (\<lambda>b. b = 0) bs)"
  let ?ds = "to_digits 58 ?N" and ?P = "\<lambda>c. c = digit_char 0"
  have small: "list_all (\<lambda>d. d < 58) ?ds" by (rule to_digits_less) simp
  have "takeWhile ?P (map digit_char ?ds) = []"
  proof (cases ?ds)
    case (Cons d ds)
    then have "d \<noteq> 0" "d < 58" using to_digits_hd [of 58 ?N] small by auto
    with Cons show ?thesis by (simp add: digit_char_inj)
  qed simp
  then have zeros: "takeWhile ?P (bs58_encode bs) = replicate ?k (digit_char 0)"
    by (simp add: bs58_encode_def takeWhile_replicate_append)
  have digits: "map char_digit (map digit_char ?ds) = map Some ?ds"
    using small by (auto simp: list_all_iff char_digit_char)
  have "to_digits 256 (of_digits 58 ?ds) = dropWhile (\<lambda>d. d = 0) (map unat bs)"
    by (simp add: of_to_digits to_of_digits [OF _ bytes_digits])
  also have "\<dots> = map unat (dropWhile (\<lambda>b. b = 0) bs)"
    by (simp add: dropWhile_map comp_def unat_eq_0)
  finally have "map of_nat (to_digits 256 (of_digits 58 ?ds)) = dropWhile (\<lambda>b. b = 0) bs"
    by (simp add: comp_def)
  moreover have "replicate ?k 0 = takeWhile (\<lambda>b. b = 0) bs"
    by (metis (mono_tags, lifting) map_replicate_const map_idI set_takeWhileD replicate_length_same)
  moreover have "bs58_decode (bs58_encode bs) =
      Some (replicate ?k 0 @ map of_nat (to_digits 256 (of_digits 58 (map the (map Some ?ds)))))"
    unfolding bs58_decode_def Let_def zeros
    by (simp only: length_replicate bs58_encode_def append_eq_conv_conj drop_append
        drop_replicate diff_self_eq_0 replicate_0 drop_0 append_Nil digits)
      (simp add: list_all_iff)
  ultimately show ?thesis by (simp add: comp_def)
qed

interpretation bs58: base58 bs58_encode bs58_decode
  by unfold_locales (rule decode_encode)

end
