(* ===== verification/Tracked_Lock.thy ===== *)
theory Tracked_Lock
  imports Prelude
begin

text \<open>
  \<^verbatim>\<open>src/sync.rs\<close>: a read-write lock that reports slow acquisitions and long sections, its two
  guards, and threads that work under it. What the theory shows is what every client of the
  lock uses: a section under the write guard is one step to everybody else, and a value seen
  under the read guard does not change. The lock inside is a library's (\<^verbatim>\<open>parking_lot\<close>) and a
  parameter; times are in nanoseconds.
\<close>

section \<open>The library's lock\<close>

text \<open>An attempt gives the lock's next state, or nothing when it cannot be granted now.\<close>

record 'l rw_ops =
  rw_unlocked :: 'l
  rw_read :: "'l \<Rightarrow> 'l option"
  rw_write :: "'l \<Rightarrow> 'l option"
  rw_try_write_for :: "nat \<Rightarrow> 'l \<Rightarrow> 'l option"
  rw_unlock_read :: "'l \<Rightarrow> 'l"
  rw_unlock_write :: "'l \<Rightarrow> 'l"

text \<open>
  What the library documents, over the number of readers and whether there is a writer: a
  reader is let in only when there is no writer, a writer only when there is nobody, and who
  leaves is counted out. When it grants a request that could be granted is left open.
\<close>

definition rw_laws :: "'l rw_ops \<Rightarrow> ('l \<Rightarrow> nat) \<Rightarrow> ('l \<Rightarrow> bool) \<Rightarrow> bool" where
  "rw_laws ops readers writer \<longleftrightarrow>
     readers (rw_unlocked ops) = 0 \<and> \<not> writer (rw_unlocked ops) \<and>
     (\<forall>l l'. rw_read ops l = Some l' \<longrightarrow> \<not> writer l \<and> \<not> writer l' \<and> readers l' = readers l + 1) \<and>
     (\<forall>l l'. rw_write ops l = Some l' \<longrightarrow> \<not> writer l \<and> readers l = 0 \<and> writer l' \<and> readers l' = 0) \<and>
     (\<forall>t l l'. rw_try_write_for ops t l = Some l' \<longrightarrow> \<not> writer l \<and> readers l = 0 \<and> writer l' \<and> readers l' = 0) \<and>
     (\<forall>l. 0 < readers l \<longrightarrow> readers (rw_unlock_read ops l) = readers l - 1 \<and>
        writer (rw_unlock_read ops l) = writer l) \<and>
     (\<forall>l. writer l \<longrightarrow> \<not> writer (rw_unlock_write ops l) \<and> readers (rw_unlock_write ops l) = readers l)"

section \<open>The tracked lock\<close>

record ('l, 'a) tracked_lock =
  tl_inner :: 'l
  tl_value :: 'a
  tl_name :: string

text \<open>Both guards have the lock's name and the time of the acquisition.\<close>

record tracked_guard =
  tg_name :: string
  tg_acquired_at :: nat

text \<open>The lines the lock prints, with the lock's name and the time it took.\<close>

datatype lock_report =
  WriteAcquired string nat | ReadAcquired string nat | ReadHeld string nat | WriteHeld string nat

definition millis :: "nat \<Rightarrow> nat" where "millis n = n * 10 ^ 6"

definition tracked_new :: "'l rw_ops \<Rightarrow> 'a \<Rightarrow> string \<Rightarrow> ('l, 'a) tracked_lock" where
  "tracked_new ops v name = \<lparr>tl_inner = rw_unlocked ops, tl_value = v, tl_name = name\<rparr>"

text \<open>
  The times are the clock's at the call, after the lock was granted, and when the guard is
  made. While the library does not grant the lock the call waits, which is \<^term>\<open>None\<close> here;
  \<^verbatim>\<open>try_write_for\<close> returns it.
\<close>

definition acquired ::
    "(string \<Rightarrow> nat \<Rightarrow> lock_report) \<Rightarrow> nat \<Rightarrow> nat \<Rightarrow> nat \<Rightarrow> ('l, 'a) tracked_lock \<Rightarrow> 'l \<Rightarrow>
     ('l, 'a) tracked_lock \<times> tracked_guard \<times> lock_report list" where
  "acquired report start now later l inner =
     (let wait_time = now - start in
      (l\<lparr>tl_inner := inner\<rparr>, \<lparr>tg_name = tl_name l, tg_acquired_at = later\<rparr>,
       if wait_time > millis 1 then [report (tl_name l) wait_time] else []))"

definition tracked_write ::
    "'l rw_ops \<Rightarrow> nat \<Rightarrow> nat \<Rightarrow> nat \<Rightarrow> ('l, 'a) tracked_lock \<Rightarrow>
     (('l, 'a) tracked_lock \<times> tracked_guard \<times> lock_report list) option" where
  "tracked_write ops start now later l =
     map_option (acquired WriteAcquired start now later l) (rw_write ops (tl_inner l))"

definition tracked_try_write_for ::
    "'l rw_ops \<Rightarrow> nat \<Rightarrow> nat \<Rightarrow> nat \<Rightarrow> nat \<Rightarrow> ('l, 'a) tracked_lock \<Rightarrow>
     (('l, 'a) tracked_lock \<times> tracked_guard \<times> lock_report list) option" where
  "tracked_try_write_for ops timeout start now later l =
     (case rw_try_write_for ops timeout (tl_inner l) of
        None \<Rightarrow> None
      | Some inner \<Rightarrow> Some (acquired WriteAcquired start now later l inner))"

definition tracked_read ::
    "'l rw_ops \<Rightarrow> nat \<Rightarrow> nat \<Rightarrow> nat \<Rightarrow> ('l, 'a) tracked_lock \<Rightarrow>
     (('l, 'a) tracked_lock \<times> tracked_guard \<times> lock_report list) option" where
  "tracked_read ops start now later l =
     map_option (acquired ReadAcquired start now later l) (rw_read ops (tl_inner l))"

text \<open>Dropping a guard: the report of the wrapper, then the drop of the guard inside.\<close>

definition drop_read_guard ::
    "'l rw_ops \<Rightarrow> nat \<Rightarrow> tracked_guard \<Rightarrow> ('l, 'a) tracked_lock \<Rightarrow> ('l, 'a) tracked_lock \<times> lock_report list" where
  "drop_read_guard ops now g l =
     (let held_time = now - tg_acquired_at g in
      (l\<lparr>tl_inner := rw_unlock_read ops (tl_inner l)\<rparr>,
       if held_time > millis 50 then [ReadHeld (tg_name g) held_time] else []))"

definition drop_write_guard ::
    "'l rw_ops \<Rightarrow> nat \<Rightarrow> tracked_guard \<Rightarrow> ('l, 'a) tracked_lock \<Rightarrow> ('l, 'a) tracked_lock \<times> lock_report list" where
  "drop_write_guard ops now g l =
     (let held_time = now - tg_acquired_at g in
      (l\<lparr>tl_inner := rw_unlock_write ops (tl_inner l)\<rparr>,
       if held_time > millis 5 then [WriteHeld (tg_name g) held_time] else []))"

text \<open>\<^verbatim>\<open>deref\<close> and \<^verbatim>\<open>deref_mut\<close>: the value behind a guard, and a change of it.\<close>

definition guard_deref :: "('l, 'a) tracked_lock \<Rightarrow> 'a" where
  "guard_deref l = tl_value l"

definition guard_deref_mut :: "('a \<Rightarrow> 'a) \<Rightarrow> ('l, 'a) tracked_lock \<Rightarrow> ('l, 'a) tracked_lock" where
  "guard_deref_mut f l = l\<lparr>tl_value := f (tl_value l)\<rparr>"

section \<open>Threads under the lock\<close>

text \<open>
  An operation takes the write guard, looks at the value and changes it in small steps; its
  body gives them from the value it found. A thread is outside, in a read section with the
  value it saw first, or in an operation with the steps still to do. The state has the
  operations whose section is over, in the order they finished, and everything printed.
\<close>

datatype ('a, 'op) lock_thread = Outside | Reading tracked_guard 'a | Writing tracked_guard 'op "('a \<Rightarrow> 'a) list"

record ('l, 'a, 'op) lock_system =
  ls_lock :: "('l, 'a) tracked_lock"
  ls_threads :: "('a, 'op) lock_thread list"
  ls_finished :: "'op list"
  ls_reports :: "lock_report list"

definition set_thread :: "nat \<Rightarrow> ('a, 'op) lock_thread \<Rightarrow> ('l, 'a, 'op) lock_system \<Rightarrow> ('l, 'a, 'op) lock_system" where
  "set_thread i t st = st\<lparr>ls_threads := (ls_threads st)[i := t]\<rparr>"

definition relock ::
    "('l, 'a) tracked_lock \<Rightarrow> lock_report list \<Rightarrow> ('l, 'a, 'op) lock_system \<Rightarrow> ('l, 'a, 'op) lock_system" where
  "relock l reports st = st\<lparr>ls_lock := l, ls_reports := ls_reports st @ reports\<rparr>"

inductive section_step ::
    "'l rw_ops \<Rightarrow> ('op \<Rightarrow> 'a \<Rightarrow> ('a \<Rightarrow> 'a) list) \<Rightarrow>
     ('l, 'a, 'op) lock_system \<Rightarrow> ('l, 'a, 'op) lock_system \<Rightarrow> bool" for ops body where
  begin_read: "i < length (ls_threads st) \<Longrightarrow> ls_threads st ! i = Outside \<Longrightarrow>
     tracked_read ops start now later (ls_lock st) = Some (l, g, reports) \<Longrightarrow>
     section_step ops body st (set_thread i (Reading g (guard_deref l)) (relock l reports st))"
| end_read: "i < length (ls_threads st) \<Longrightarrow> ls_threads st ! i = Reading g v \<Longrightarrow>
     drop_read_guard ops now g (ls_lock st) = (l, reports) \<Longrightarrow>
     section_step ops body st (set_thread i Outside (relock l reports st))"
| begin_write: "i < length (ls_threads st) \<Longrightarrow> ls_threads st ! i = Outside \<Longrightarrow>
     tracked_write ops start now later (ls_lock st) = Some (l, g, reports) \<or>
     tracked_try_write_for ops timeout start now later (ls_lock st) = Some (l, g, reports) \<Longrightarrow>
     section_step ops body st (set_thread i (Writing g op (body op (guard_deref l))) (relock l reports st))"
| change: "i < length (ls_threads st) \<Longrightarrow> ls_threads st ! i = Writing g op (f # fs) \<Longrightarrow>
     section_step ops body st (set_thread i (Writing g op fs) (relock (guard_deref_mut f (ls_lock st)) [] st))"
| end_write: "i < length (ls_threads st) \<Longrightarrow> ls_threads st ! i = Writing g op [] \<Longrightarrow>
     drop_write_guard ops now g (ls_lock st) = (l, reports) \<Longrightarrow>
     section_step ops body st ((set_thread i Outside (relock l reports st))\<lparr>ls_finished := ls_finished st @ [op]\<rparr>)"

inductive sections_reachable ::
    "'l rw_ops \<Rightarrow> ('op \<Rightarrow> 'a \<Rightarrow> ('a \<Rightarrow> 'a) list) \<Rightarrow> 'a \<Rightarrow> ('l, 'a, 'op) lock_system \<Rightarrow> bool"
  for ops body v where
  start: "sections_reachable ops body v
     \<lparr>ls_lock = tracked_new ops v name, ls_threads = replicate n Outside, ls_finished = [], ls_reports = []\<rparr>"
| step: "sections_reachable ops body v st \<Longrightarrow> section_step ops body st st' \<Longrightarrow> sections_reachable ops body v st'"

section \<open>A section is one step\<close>

text \<open>The operations one after another, each with its whole body.\<close>

definition run_body :: "('op \<Rightarrow> 'a \<Rightarrow> ('a \<Rightarrow> 'a) list) \<Rightarrow> 'op \<Rightarrow> 'a \<Rightarrow> 'a" where
  "run_body body op v = fold id (body op v) v"

definition run_bodies :: "('op \<Rightarrow> 'a \<Rightarrow> ('a \<Rightarrow> 'a) list) \<Rightarrow> 'op list \<Rightarrow> 'a \<Rightarrow> 'a" where
  "run_bodies body ops v = fold (run_body body) ops v"

primrec is_reading :: "('a, 'op) lock_thread \<Rightarrow> bool" where
  "is_reading Outside \<longleftrightarrow> False" | "is_reading (Reading g v) \<longleftrightarrow> True" | "is_reading (Writing g op fs) \<longleftrightarrow> False"

primrec is_writing :: "('a, 'op) lock_thread \<Rightarrow> bool" where
  "is_writing Outside \<longleftrightarrow> False" | "is_writing (Reading g v) \<longleftrightarrow> False" | "is_writing (Writing g op fs) \<longleftrightarrow> True"

definition holders :: "(('a, 'op) lock_thread \<Rightarrow> bool) \<Rightarrow> ('l, 'a, 'op) lock_system \<Rightarrow> nat" where
  "holders P st = length (filter P (ls_threads st))"

definition thread_ok :: "('op \<Rightarrow> 'a \<Rightarrow> ('a \<Rightarrow> 'a) list) \<Rightarrow> 'a \<Rightarrow> 'a \<Rightarrow> ('a, 'op) lock_thread \<Rightarrow> bool" where
  "thread_ok body done now t = (case t of
     Outside \<Rightarrow> True
   | Reading g seen \<Rightarrow> seen = done
   | Writing g op fs \<Rightarrow> fold id fs now = run_body body op done)"

text \<open>
  The lock's own counts are those of the threads. Between sections the value is what the
  finished operations make of the first one; in a section, what it still has to do leads to
  the value after the whole operation.
\<close>

definition lock_system_inv ::
    "('l \<Rightarrow> nat) \<Rightarrow> ('l \<Rightarrow> bool) \<Rightarrow> ('op \<Rightarrow> 'a \<Rightarrow> ('a \<Rightarrow> 'a) list) \<Rightarrow> 'a \<Rightarrow> ('l, 'a, 'op) lock_system \<Rightarrow> bool" where
  "lock_system_inv readers writer body v st \<longleftrightarrow>
     readers (tl_inner (ls_lock st)) = holders is_reading st \<and>
     holders is_writing st = of_bool (writer (tl_inner (ls_lock st))) \<and>
     (writer (tl_inner (ls_lock st)) \<longrightarrow> readers (tl_inner (ls_lock st)) = 0) \<and>
     (\<not> writer (tl_inner (ls_lock st)) \<longrightarrow> tl_value (ls_lock st) = run_bodies body (ls_finished st) v) \<and>
     (\<forall>t \<in> set (ls_threads st).
        thread_ok body (run_bodies body (ls_finished st) v) (tl_value (ls_lock st)) t)"

lemma lock_system_inv_start:
  assumes "rw_laws ops readers writer"
  shows "lock_system_inv readers writer body v
    \<lparr>ls_lock = tracked_new ops v name, ls_threads = replicate n Outside, ls_finished = [], ls_reports = []\<rparr>"
  using assms
  by (auto simp: lock_system_inv_def rw_laws_def tracked_new_def holders_def run_bodies_def thread_ok_def)

text \<open>What the parts of a step do to the lock.\<close>

lemma acquired_fields [simp]:
  "acquired report start now later l inner = (l', g, reports) \<Longrightarrow> tl_inner l' = inner \<and> tl_value l' = tl_value l"
  by (auto simp: acquired_def Let_def)

lemma read_granted:
  "rw_laws ops readers writer \<Longrightarrow> tracked_read ops start now later l = Some (l', g, reports) \<Longrightarrow>
     \<not> writer (tl_inner l) \<and> \<not> writer (tl_inner l') \<and> readers (tl_inner l') = readers (tl_inner l) + 1 \<and>
     tl_value l' = tl_value l"
  by (auto simp: tracked_read_def rw_laws_def dest!: acquired_fields)

lemma write_granted:
  assumes "rw_laws ops readers writer"
    and "tracked_write ops start now later l = Some (l', g, reports) \<or>
      tracked_try_write_for ops timeout start now later l = Some (l', g, reports)"
  shows "\<not> writer (tl_inner l) \<and> readers (tl_inner l) = 0 \<and> writer (tl_inner l') \<and> readers (tl_inner l') = 0 \<and>
    tl_value l' = tl_value l"
  using assms
  by (auto simp: tracked_write_def tracked_try_write_for_def rw_laws_def split: option.splits
      dest!: acquired_fields)

lemma read_dropped:
  "rw_laws ops readers writer \<Longrightarrow> 0 < readers (tl_inner l) \<Longrightarrow> drop_read_guard ops now g l = (l', reports) \<Longrightarrow>
     readers (tl_inner l') = readers (tl_inner l) - 1 \<and> writer (tl_inner l') = writer (tl_inner l) \<and>
     tl_value l' = tl_value l"
  by (auto simp: drop_read_guard_def Let_def rw_laws_def)

lemma write_dropped:
  "rw_laws ops readers writer \<Longrightarrow> writer (tl_inner l) \<Longrightarrow> drop_write_guard ops now g l = (l', reports) \<Longrightarrow>
     \<not> writer (tl_inner l') \<and> readers (tl_inner l') = readers (tl_inner l) \<and> tl_value l' = tl_value l"
  by (auto simp: drop_write_guard_def Let_def rw_laws_def)

text \<open>Who is in a section, from the counts.\<close>

lemma holders_update:
  "i < length (ls_threads st) \<Longrightarrow> holders P (set_thread i t st) + (if P (ls_threads st ! i) then 1 else 0) =
     holders P st + (if P t then 1 else 0)"
  using filter_update [of i "ls_threads st" P t] by (simp add: holders_def set_thread_def)

lemma holders_relock [simp]: "holders P (relock l reports st) = holders P st"
  by (simp add: holders_def relock_def)

lemma holders_0: "holders P st = 0 \<Longrightarrow> t \<in> set (ls_threads st) \<Longrightarrow> \<not> P t"
  by (auto simp: holders_def filter_empty_conv)

lemma holders_pos: "i < length (ls_threads st) \<Longrightarrow> P (ls_threads st ! i) \<Longrightarrow> 0 < holders P st"
  using holders_0 nth_mem by fastforce

lemma system_fields [simp]:
  "ls_lock (set_thread i t st) = ls_lock st" "ls_finished (set_thread i t st) = ls_finished st"
  "ls_threads (set_thread i t st) = (ls_threads st)[i := t]"
  "ls_lock (relock l reports st) = l" "ls_finished (relock l reports st) = ls_finished st"
  "ls_threads (relock l reports st) = ls_threads st"
  by (simp_all add: set_thread_def relock_def)

lemma ball_update: "\<forall>x \<in> set xs. P x \<Longrightarrow> P y \<Longrightarrow> \<forall>x \<in> set (xs[i := y]). P x"
  by (auto dest!: set_update_subset_insert [THEN subsetD])

lemma sole_section:
  assumes inv: "lock_system_inv readers writer body v st" and i: "i < length (ls_threads st)"
    and w: "is_writing (ls_threads st ! i)"
  shows "writer (tl_inner (ls_lock st))" and "holders is_reading st = 0" and "holders is_writing st = 1"
    and "t \<in> set ((ls_threads st)[i := t']) \<Longrightarrow> t = t' \<or> t = Outside"
proof -
  show wr: "writer (tl_inner (ls_lock st))" and w1: "holders is_writing st = 1" and r0: "holders is_reading st = 0"
    using inv holders_pos [OF i, of is_writing] w by (auto simp: lock_system_inv_def split: if_splits)
  assume t: "t \<in> set ((ls_threads st)[i := t'])"
  have "t = t'" if "is_writing t" using filter_sole [of is_writing "ls_threads st" i t t'] w1 i w t that by (simp add: holders_def)
  moreover have "t = t' \<or> t \<in> set (ls_threads st)" using t by (auto dest!: set_update_subset_insert [THEN subsetD])
  ultimately show "t = t' \<or> t = Outside" using holders_0 [OF r0, of t] by (cases t) auto
qed

text \<open>The five steps.\<close>

lemma inv_threads:
  assumes "lock_system_inv readers writer body v st"
    and "thread_ok body (run_bodies body (ls_finished st) v) (tl_value (ls_lock st)) t"
  shows "\<forall>t \<in> set ((ls_threads st)[i := t]).
    thread_ok body (run_bodies body (ls_finished st) v) (tl_value (ls_lock st)) t"
  using assms by (intro ball_update) (simp_all add: lock_system_inv_def)

lemma inv_begin_read:
  assumes laws: "rw_laws ops readers writer" and inv: "lock_system_inv readers writer body v st"
    and i: "i < length (ls_threads st)" "ls_threads st ! i = Outside"
    and l: "tracked_read ops start now later (ls_lock st) = Some (l, g, reports)"
  shows "lock_system_inv readers writer body v (set_thread i (Reading g (guard_deref l)) (relock l reports st))"
proof -
  note granted = read_granted [OF laws l]
  have "thread_ok body (run_bodies body (ls_finished st) v) (tl_value (ls_lock st)) (Reading g (guard_deref l))"
    using granted inv by (simp add: thread_ok_def guard_deref_def lock_system_inv_def)
  from inv_threads [OF inv this, of i] show ?thesis
    using granted inv i holders_update [of i "relock l reports st" is_reading "Reading g (guard_deref l)"]
      holders_update [of i "relock l reports st" is_writing "Reading g (guard_deref l)"]
    by (simp add: lock_system_inv_def)
qed

lemma inv_end_read:
  assumes laws: "rw_laws ops readers writer" and inv: "lock_system_inv readers writer body v st"
    and i: "i < length (ls_threads st)" "ls_threads st ! i = Reading g seen"
    and l: "drop_read_guard ops now g (ls_lock st) = (l, reports)"
  shows "lock_system_inv readers writer body v (set_thread i Outside (relock l reports st))"
proof -
  have "0 < holders is_reading st" using holders_pos [OF i(1), of is_reading] i(2) by simp
  then have "0 < readers (tl_inner (ls_lock st))" using inv by (simp add: lock_system_inv_def)
  note dropped = read_dropped [OF laws this l]
  have "thread_ok body (run_bodies body (ls_finished st) v) (tl_value (ls_lock st)) Outside"
    by (simp add: thread_ok_def)
  note threads = inv_threads [OF inv this, of i]
  have counts: "holders is_reading (set_thread i Outside (relock l reports st)) = holders is_reading st - 1"
    "holders is_writing (set_thread i Outside (relock l reports st)) = holders is_writing st"
    using i holders_update [of i "relock l reports st" is_reading Outside]
      holders_update [of i "relock l reports st" is_writing Outside] by simp_all
  have "\<not> writer (tl_inner (ls_lock st))" using inv \<open>0 < readers (tl_inner (ls_lock st))\<close> by (auto simp: lock_system_inv_def)
  then show ?thesis using dropped inv threads counts by (simp add: lock_system_inv_def)
qed

lemma inv_begin_write:
  assumes laws: "rw_laws ops readers writer" and inv: "lock_system_inv readers writer body v st"
    and i: "i < length (ls_threads st)" "ls_threads st ! i = Outside"
    and l: "tracked_write ops start now later (ls_lock st) = Some (l, g, reports) \<or>
      tracked_try_write_for ops timeout start now later (ls_lock st) = Some (l, g, reports)"
  shows "lock_system_inv readers writer body v
    (set_thread i (Writing g op (body op (guard_deref l))) (relock l reports st))"
proof -
  note granted = write_granted [OF laws l]
  have "thread_ok body (run_bodies body (ls_finished st) v) (tl_value (ls_lock st))
      (Writing g op (body op (guard_deref l)))"
    using granted inv by (simp add: thread_ok_def guard_deref_def lock_system_inv_def run_body_def)
  from inv_threads [OF inv this, of i] show ?thesis
    using granted inv i
      holders_update [of i "relock l reports st" is_reading "Writing g op (body op (guard_deref l))"]
      holders_update [of i "relock l reports st" is_writing "Writing g op (body op (guard_deref l))"]
    by (simp add: lock_system_inv_def)
qed

lemma inv_change:
  assumes inv: "lock_system_inv readers writer body v st"
    and i: "i < length (ls_threads st)" "ls_threads st ! i = Writing g op (f # fs)"
  shows "lock_system_inv readers writer body v
    (set_thread i (Writing g op fs) (relock (guard_deref_mut f (ls_lock st)) [] st))"
proof -
  let ?st = "set_thread i (Writing g op fs) (relock (guard_deref_mut f (ls_lock st)) [] st)"
  have w: "is_writing (ls_threads st ! i)" using i by simp
  note sole = sole_section [OF inv i(1) w]
  let ?done = "run_bodies body (ls_finished st) v"
  have "thread_ok body ?done (tl_value (ls_lock st)) (Writing g op (f # fs))"
    using inv i nth_mem [OF i(1)] by (auto simp: lock_system_inv_def)
  then have "thread_ok body ?done (tl_value (ls_lock ?st)) t" if "t \<in> set (ls_threads ?st)" for t
    using sole(4) [of t "Writing g op fs"] that by (auto simp: guard_deref_mut_def thread_ok_def)
  then show ?thesis
    using inv i sole(1) holders_update [of i "relock (guard_deref_mut f (ls_lock st)) [] st" is_reading "Writing g op fs"]
      holders_update [of i "relock (guard_deref_mut f (ls_lock st)) [] st" is_writing "Writing g op fs"]
    by (simp add: lock_system_inv_def guard_deref_mut_def)
qed

lemma inv_end_write:
  assumes laws: "rw_laws ops readers writer" and inv: "lock_system_inv readers writer body v st"
    and i: "i < length (ls_threads st)" "ls_threads st ! i = Writing g op []"
    and l: "drop_write_guard ops now g (ls_lock st) = (l, reports)"
  shows "lock_system_inv readers writer body v
    ((set_thread i Outside (relock l reports st))\<lparr>ls_finished := ls_finished st @ [op]\<rparr>)"
proof -
  have w: "is_writing (ls_threads st ! i)" using i by simp
  note sole = sole_section [OF inv i(1) w]
  note dropped = write_dropped [OF laws sole(1) l]
  have "thread_ok body (run_bodies body (ls_finished st) v) (tl_value (ls_lock st)) (Writing g op [])"
    using inv i nth_mem [OF i(1)] by (auto simp: lock_system_inv_def)
  then have "tl_value l = run_bodies body (ls_finished st @ [op]) v"
    using dropped by (simp add: thread_ok_def run_bodies_def)
  moreover have "holders P ((set_thread i Outside (relock l reports st))\<lparr>ls_finished := ls_finished st @ [op]\<rparr>) =
      holders P (set_thread i Outside (relock l reports st))" for P
    by (simp add: holders_def)
  moreover have "thread_ok body d now t" if "t \<in> set ((ls_threads st)[i := Outside])" for d now t
    using sole(4) [OF that] by (auto simp: thread_ok_def)
  ultimately show ?thesis
    using dropped inv i sole(2,3) holders_update [of i "relock l reports st" is_reading Outside]
      holders_update [of i "relock l reports st" is_writing Outside]
    by (simp add: lock_system_inv_def)
qed

lemma sections_reachable_inv:
  assumes laws: "rw_laws ops readers writer"
  shows "sections_reachable ops body v st \<Longrightarrow> lock_system_inv readers writer body v st"
proof (induction rule: sections_reachable.induct)
  case (start name n)
  show ?case using laws by (rule lock_system_inv_start)
next
  case (step st st')
  from step.hyps(2) step.IH show ?case
    by cases (blast intro: inv_begin_read [OF laws] inv_end_read [OF laws] inv_begin_write [OF laws]
        inv_change inv_end_write [OF laws])+
qed

end
