(* ===== verification/Account_Locks.thy ===== *)
theory Account_Locks
  imports Transactions
begin

text \<open>
  \<^verbatim>\<open>src/account_locks.rs\<close>: read and write locks on accounts, taken for a group of
  transactions at once and given back when the guard is dropped. The lock table sits behind
  a \<^verbatim>\<open>TrackedRwLock\<close> (\<^verbatim>\<open>src/sync.rs\<close>) held for writing over each operation, so
  each operation is one atomic step of the interleaving below (\<open>Lock_Sections\<close>).
\<close>

section \<open>The lock table and its operations\<close>

datatype lock_error = LockAccountInUse

record lock_state =
  write_locks :: "pubkey set"
  read_locks :: "pubkey \<rightharpoonup> nat"

record lock_guard =
  lg_write_locks :: "pubkey list"
  lg_read_locks :: "pubkey list"

definition locks_new :: lock_state where
  "locks_new = \<lparr>write_locks = {}, read_locks = Map.empty\<rparr>"

definition write_keys_to_lock :: "(nat \<times> transaction) list \<Rightarrow> pubkey list" where
  "write_keys_to_lock grp = btree_set [k. (_, tx) \<leftarrow> grp, k \<leftarrow> declared_keys True tx]"

definition read_keys_to_lock :: "(nat \<times> transaction) list \<Rightarrow> pubkey list" where
  "read_keys_to_lock grp = btree_set [k. (_, tx) \<leftarrow> grp, k \<leftarrow> declared_keys False tx]"

text \<open>\<^verbatim>\<open>*entry(key).or_insert(ReadCount(0)) += ReadCount(1)\<close>.\<close>

definition add_reader :: "pubkey \<Rightarrow> (pubkey \<rightharpoonup> nat) \<Rightarrow> (pubkey \<rightharpoonup> nat)" where
  "add_reader key m = m(key \<mapsto> (case m key of None \<Rightarrow> 0 | Some n \<Rightarrow> n) + 1)"

definition try_lock_accounts_for_group ::
    "(nat \<times> transaction) list \<Rightarrow> lock_state \<Rightarrow> (lock_state \<times> lock_guard, lock_error) result" where
  "try_lock_accounts_for_group grp state =
     (let write_keys = write_keys_to_lock grp; read_keys = read_keys_to_lock grp in
      if list_ex (\<lambda>key. key \<in> write_locks state \<or> read_locks state key \<noteq> None) write_keys
      then Err LockAccountInUse
      else if list_ex (\<lambda>key. key \<in> write_locks state) read_keys
      then Err LockAccountInUse
      else Ok (state\<lparr>write_locks := fold insert write_keys (write_locks state),
                     read_locks := fold add_reader read_keys (read_locks state)\<rparr>,
               \<lparr>lg_write_locks = write_keys, lg_read_locks = read_keys\<rparr>))"

text \<open>
  \<^verbatim>\<open>LockGuard::drop\<close>. Decrementing a count that is already 0 would panic; the invariant
  below excludes it.
\<close>

definition drop_reader :: "pubkey \<Rightarrow> (pubkey \<rightharpoonup> nat) \<Rightarrow> (pubkey \<rightharpoonup> nat, lock_error) result" where
  "drop_reader key m =
     (case m key of
        None \<Rightarrow> Ok m
      | Some n \<Rightarrow> if n = 0 then Panic
                  else if n - 1 = 0 then Ok (m(key := None)) else Ok (m(key \<mapsto> n - 1)))"

definition drop_guard :: "lock_guard \<Rightarrow> lock_state \<Rightarrow> (lock_state, lock_error) result" where
  "drop_guard g state =
     (if lg_write_locks g = [] \<and> lg_read_locks g = [] then Ok state
      else and_then (for_each drop_reader (lg_read_locks g) (read_locks state))
        (\<lambda>rl. Ok (state\<lparr>write_locks := fold Set.remove (lg_write_locks g) (write_locks state),
                         read_locks := rl\<rparr>)))"

section \<open>What the table says about the guards\<close>

abbreviation guard_writes :: "lock_guard \<Rightarrow> pubkey set" where "guard_writes g \<equiv> set (lg_write_locks g)"
abbreviation guard_reads :: "lock_guard \<Rightarrow> pubkey set" where "guard_reads g \<equiv> set (lg_read_locks g)"

text \<open>Two guards held together exclude each other's writes.\<close>

definition compatible :: "lock_guard \<Rightarrow> lock_guard \<Rightarrow> bool" where
  "compatible g h \<longleftrightarrow> guard_writes g \<inter> (guard_writes h \<union> guard_reads h) = {} \<and> guard_writes h \<inter> guard_reads g = {}"

definition readers :: "lock_guard list \<Rightarrow> pubkey \<Rightarrow> nat" where
  "readers gs k = length (filter (\<lambda>g. k \<in> guard_reads g) gs)"

definition guard_wf :: "lock_guard \<Rightarrow> bool" where
  "guard_wf g \<longleftrightarrow> distinct (lg_write_locks g) \<and> distinct (lg_read_locks g)"

definition lock_inv :: "lock_state \<Rightarrow> lock_guard list \<Rightarrow> bool" where
  "lock_inv s gs \<longleftrightarrow>
     write_locks s = (\<Union>g \<in> set gs. guard_writes g) \<and>
     read_locks s = (\<lambda>k. if readers gs k = 0 then None else Some (readers gs k)) \<and>
     sorted_wrt compatible gs \<and> list_all guard_wf gs"

lemma compatible_sym: "compatible g h \<longleftrightarrow> compatible h g"
  by (auto simp: compatible_def)

lemma readers_simps [simp]:
  "readers [] k = 0"
  "readers (g # gs) k = (if k \<in> guard_reads g then 1 else 0) + readers gs k"
  "readers (gs @ hs) k = readers gs k + readers hs k"
  by (simp_all add: readers_def)

lemma readers_0_iff: "readers gs k = 0 \<longleftrightarrow> (\<forall>g \<in> set gs. k \<notin> guard_reads g)"
  by (induction gs) auto

lemma lock_inv_new: "lock_inv locks_new []"
  by (simp add: lock_inv_def locks_new_def)

lemma fold_insert_set: "fold insert ks A = set ks \<union> A"
  by (induction ks arbitrary: A) auto

lemma fold_remove_set: "fold Set.remove ks A = A - set ks"
  by (induction ks arbitrary: A) auto

lemma fold_add_reader:
  "distinct ks \<Longrightarrow> fold add_reader ks m k =
     (if k \<in> set ks then Some ((case m k of None \<Rightarrow> 0 | Some n \<Rightarrow> n) + 1) else m k)"
  by (induction ks arbitrary: m) (auto simp: add_reader_def)

lemma drop_readers:
  assumes "distinct ks" and "\<forall>k \<in> set ks. \<exists>n. m k = Some (Suc n)"
  shows "for_each drop_reader ks m =
    Ok (\<lambda>k. if k \<in> set ks then (if m k = Some 1 then None else map_option (\<lambda>n. n - 1) (m k))
            else m k)"
  using assms
proof (induction ks arbitrary: m)
  case Nil
  then show ?case by simp
next
  case (Cons k ks)
  then obtain n where n: "m k = Some (Suc n)" by auto
  let ?m = "if n = 0 then m(k := None) else m(k \<mapsto> n)"
  have step: "drop_reader k m = Ok ?m" using n by (simp add: drop_reader_def)
  have "\<forall>j \<in> set ks. \<exists>i. ?m j = Some (Suc i)" using Cons.prems by auto
  with Cons have "for_each drop_reader ks ?m = Ok (\<lambda>j. if j \<in> set ks
      then (if ?m j = Some 1 then None else map_option (\<lambda>n. n - 1) (?m j)) else ?m j)" by simp
  with step Cons.prems n show ?case by (auto simp: fun_eq_iff)
qed

text \<open>The lock is refused exactly when a held guard conflicts with the group.\<close>

lemma try_lock_Err_iff:
  assumes "lock_inv s gs"
  shows "try_lock_accounts_for_group grp s = Err LockAccountInUse \<longleftrightarrow>
    (\<exists>g \<in> set gs. \<not> compatible
       \<lparr>lg_write_locks = write_keys_to_lock grp, lg_read_locks = read_keys_to_lock grp\<rparr> g)"
  using assms
  by (auto simp: try_lock_accounts_for_group_def Let_def list_ex_iff lock_inv_def compatible_def
      readers_0_iff)

lemma try_lock_not_Panic: "try_lock_accounts_for_group grp s \<noteq> Panic"
  by (simp add: try_lock_accounts_for_group_def Let_def)

lemma try_lock_inv:
  assumes "lock_inv s gs" and ok: "try_lock_accounts_for_group grp s = Ok (s', g)"
  shows "lock_inv s' (g # gs)"
proof -
  from ok have g: "g = \<lparr>lg_write_locks = write_keys_to_lock grp,
        lg_read_locks = read_keys_to_lock grp\<rparr>"
    and s': "s' = s\<lparr>write_locks := guard_writes g \<union> write_locks s,
        read_locks := fold add_reader (lg_read_locks g) (read_locks s)\<rparr>"
    by (auto simp: try_lock_accounts_for_group_def Let_def fold_insert_set split: if_splits)
  have "\<forall>h \<in> set gs. compatible g h"
    using try_lock_Err_iff [OF assms(1), of grp] ok by (auto simp: g)
  moreover have "guard_wf g"
    by (simp add: g guard_wf_def write_keys_to_lock_def read_keys_to_lock_def)
  ultimately show ?thesis
    using assms(1) by (auto simp: lock_inv_def s' guard_wf_def fold_add_reader fun_eq_iff)
qed

lemma drop_guard_inv:
  assumes inv: "lock_inv s (gs @ g # hs)"
  shows "\<exists>s'. drop_guard g s = Ok s' \<and> lock_inv s' (gs @ hs)"
proof -
  have wf: "distinct (lg_read_locks g)" and wl: "write_locks s = (\<Union>g \<in> set (gs @ g # hs). guard_writes g)"
    and rl: "read_locks s = (\<lambda>k. if readers (gs @ g # hs) k = 0 then None
               else Some (readers (gs @ g # hs) k))"
    and comp: "\<forall>h \<in> set (gs @ hs). compatible h g"
    and rest: "sorted_wrt compatible (gs @ hs)" "list_all guard_wf (gs @ hs)"
    using inv by (auto simp: lock_inv_def guard_wf_def sorted_wrt_append compatible_sym [of g])
  have "\<forall>k \<in> guard_reads g. \<exists>n. read_locks s k = Some (Suc n)"
    by (auto simp: rl)
  from drop_readers [OF wf this] have rl':
    "for_each drop_reader (lg_read_locks g) (read_locks s) =
      Ok (\<lambda>k. if readers (gs @ hs) k = 0 then None else Some (readers (gs @ hs) k))"
    by (auto simp: rl fun_eq_iff)
  have wl': "write_locks s - guard_writes g = (\<Union>g \<in> set (gs @ hs). guard_writes g)"
    using comp by (auto simp: wl compatible_def)
  show ?thesis
  proof (cases "lg_write_locks g = [] \<and> lg_read_locks g = []")
    case True
    then show ?thesis
      using wl rl rest by (auto simp: drop_guard_def lock_inv_def)
  next
    case False
    then show ?thesis
      using rl' wl' rest by (auto simp: drop_guard_def lock_inv_def fold_remove_set)
  qed
qed

section \<open>Interleavings of lock and unlock\<close>

text \<open>
  Threads take and drop guards in any order; the state is the table with the guards that
  are held.
\<close>

inductive lock_step :: "lock_state \<times> lock_guard list \<Rightarrow> lock_state \<times> lock_guard list \<Rightarrow> bool" where
  acquire: "try_lock_accounts_for_group grp s = Ok (s', g) \<Longrightarrow> lock_step (s, gs) (s', g # gs)"
| refuse: "try_lock_accounts_for_group grp s = Err e \<Longrightarrow> lock_step (s, gs) (s, gs)"
| release: "drop_guard g s = Ok s' \<Longrightarrow> lock_step (s, gs @ g # hs) (s', gs @ hs)"

inductive locks_reachable :: "lock_state \<Rightarrow> lock_guard list \<Rightarrow> bool" where
  start: "locks_reachable locks_new []"
| step: "locks_reachable s gs \<Longrightarrow> lock_step (s, gs) (s', gs') \<Longrightarrow> locks_reachable s' gs'"

inductive_cases lock_stepE: "lock_step (s, gs) (s', gs')"

lemma lock_step_inv: "lock_step (s, gs) (s', gs') \<Longrightarrow> lock_inv s gs \<Longrightarrow> lock_inv s' gs'"
  by (elim lock_stepE) (auto dest: try_lock_inv drop_guard_inv)

lemma locks_reachable_inv: "locks_reachable s gs \<Longrightarrow> lock_inv s gs"
  by (induction rule: locks_reachable.induct) (auto intro: lock_inv_new lock_step_inv)

lemma sorted_wrt_nth_sym:
  assumes "sorted_wrt P xs" and "\<And>x y. P x y \<Longrightarrow> P y x"
    and "i < length xs" and "j < length xs" and "i \<noteq> j"
  shows "P (xs ! i) (xs ! j)"
  using assms by (metis linorder_neqE_nat sorted_wrt_nth_less)

end
