(* ===== verification/Lock_Sections.thy ===== *)
theory Lock_Sections
  imports Tracked_Lock Account_Locks
begin

text \<open>
  \<^verbatim>\<open>AccountLocks\<close> under its \<^verbatim>\<open>TrackedRwLock\<close>: taking the locks of a group and dropping a guard
  are sections under the write guard, which change the table key by key. Threads that run
  them at the same time leave what the operations leave one after another, so the reachable
  tables are those of the interleaving of whole operations.
\<close>

section \<open>The sections of the lock table\<close>

datatype table_op = TakeLocks "(nat \<times> transaction) list" | GiveBack lock_guard

definition insert_write :: "pubkey \<Rightarrow> lock_state \<Rightarrow> lock_state" where
  "insert_write key s = s\<lparr>write_locks := insert key (write_locks s)\<rparr>"

definition insert_read :: "pubkey \<Rightarrow> lock_state \<Rightarrow> lock_state" where
  "insert_read key s = s\<lparr>read_locks := add_reader key (read_locks s)\<rparr>"

definition remove_write :: "pubkey \<Rightarrow> lock_state \<Rightarrow> lock_state" where
  "remove_write key s = s\<lparr>write_locks := Set.remove key (write_locks s)\<rparr>"

text \<open>A count that is 0 would panic; with the guards that are held it never is.\<close>

definition remove_read :: "pubkey \<Rightarrow> lock_state \<Rightarrow> lock_state" where
  "remove_read key s = (case drop_reader key (read_locks s) of Ok m \<Rightarrow> s\<lparr>read_locks := m\<rparr> | _ \<Rightarrow> s)"

definition table_body :: "table_op \<Rightarrow> lock_state \<Rightarrow> (lock_state \<Rightarrow> lock_state) list" where
  "table_body op s =
     (case op of
        TakeLocks grp \<Rightarrow>
          (case try_lock_accounts_for_group grp s of
             Ok _ \<Rightarrow> map insert_write (write_keys_to_lock grp) @ map insert_read (read_keys_to_lock grp)
           | _ \<Rightarrow> [])
      | GiveBack g \<Rightarrow> map remove_write (lg_write_locks g) @ map remove_read (lg_read_locks g))"

section \<open>A body does what the operation does\<close>

lemma insert_all:
  "fold id (map insert_write ks) s = s\<lparr>write_locks := fold insert ks (write_locks s)\<rparr>"
  "fold id (map insert_read ks) s = s\<lparr>read_locks := fold add_reader ks (read_locks s)\<rparr>"
  by (induction ks arbitrary: s) (simp_all add: insert_write_def insert_read_def)

lemma remove_all_writes:
  "fold id (map remove_write ks) s = s\<lparr>write_locks := fold Set.remove ks (write_locks s)\<rparr>"
  by (induction ks arbitrary: s) (simp_all add: remove_write_def)

lemma remove_all_reads:
  "for_each drop_reader ks (read_locks s) = Ok m \<Longrightarrow> fold id (map remove_read ks) s = s\<lparr>read_locks := m\<rparr>"
proof (induction ks arbitrary: s)
  case (Cons k ks)
  then obtain m' where "drop_reader k (read_locks s) = Ok m'" "for_each drop_reader ks m' = Ok m" by auto
  then show ?case using Cons.IH [of "s\<lparr>read_locks := m'\<rparr>"] by (simp add: remove_read_def)
qed simp

lemma take_body:
  "run_body table_body (TakeLocks grp) s =
     (case try_lock_accounts_for_group grp s of Ok (s', _) \<Rightarrow> s' | _ \<Rightarrow> s)"
  by (auto simp: run_body_def table_body_def try_lock_accounts_for_group_def Let_def insert_all split: result.split)

lemma give_body: "drop_guard g s = Ok s' \<Longrightarrow> run_body table_body (GiveBack g) s = s'"
  by (auto simp: run_body_def table_body_def drop_guard_def remove_all_writes remove_all_reads split: if_splits)

section \<open>The operations one after another\<close>

text \<open>
  The table and the guards that are held after whole operations, when only guards that are
  held are given back, as the type of \<^verbatim>\<open>LockGuard\<close> has it.
\<close>

fun replay :: "table_op list \<Rightarrow> lock_state \<times> lock_guard list \<Rightarrow> (lock_state \<times> lock_guard list) option" where
  "replay [] (s, gs) = Some (s, gs)"
| "replay (TakeLocks grp # ops) (s, gs) =
     (case try_lock_accounts_for_group grp s of
        Ok (s', g) \<Rightarrow> replay ops (s', g # gs)
      | _ \<Rightarrow> replay ops (s, gs))"
| "replay (GiveBack g # ops) (s, gs) =
     (if g \<in> set gs then (case drop_guard g s of Ok s' \<Rightarrow> replay ops (s', remove1 g gs) | _ \<Rightarrow> None) else None)"

lemma replay_reaches:
  "replay ops (s, gs) = Some (s', gs') \<Longrightarrow> locks_reachable s gs \<Longrightarrow> locks_reachable s' gs'"
proof (induction ops arbitrary: s gs)
  case (Cons op ops)
  show ?case
  proof (cases op)
    case (TakeLocks grp)
    show ?thesis
    proof (cases "try_lock_accounts_for_group grp s")
      case (Ok r)
      then have "locks_reachable (fst r) (snd r # gs)"
        by (intro locks_reachable.step [OF Cons.prems(2)] acquire [where grp = grp]) simp
      then show ?thesis using Cons.IH [of "fst r" "snd r # gs"] Cons.prems(1) Ok by (cases r) (simp add: TakeLocks)
    qed (use Cons TakeLocks in simp_all)
  next
    case (GiveBack g)
    then obtain s1 where g: "g \<in> set gs" and s1: "drop_guard g s = Ok s1"
      and rest: "replay ops (s1, remove1 g gs) = Some (s', gs')"
      using Cons.prems(1) by (auto split: if_splits result.splits)
    obtain as bs where gs: "gs = as @ g # bs" "g \<notin> set as" using split_list_first [OF g] by blast
    have "locks_reachable s1 (as @ bs)"
      by (rule locks_reachable.step [OF Cons.prems(2)]) (simp add: gs(1), rule release, rule s1)
    then show ?thesis using Cons.IH [OF rest] gs by (simp add: remove1_append)
  qed
qed simp

lemma replay_value:
  "replay ops (s, gs) = Some (s', gs') \<Longrightarrow> run_bodies table_body ops s = s'"
proof (induction ops arbitrary: s gs)
  case (Cons op ops)
  then show ?case
    by (cases op) (auto simp: run_bodies_def take_body give_body split: result.splits if_splits)
qed (simp add: run_bodies_def)

end
