(* ===== verification/Cost_Model.thy ===== *)
theory Cost_Model
  imports Transactions
begin

text \<open>
  \<^verbatim>\<open>src/cost_model.rs\<close>: the cost of a transaction and the tracker that keeps a block and
  each writable account under their limits. Costs are \<^verbatim>\<open>u64\<close>: \<^verbatim>\<open>+=\<close> panics on
  overflow, the atomic counter wraps, \<^verbatim>\<open>sum\<close> saturates.
\<close>

section \<open>The cost of a transaction\<close>

definition COMPUTE_UNIT_TO_US_RATIO :: u64 where "COMPUTE_UNIT_TO_US_RATIO = 30"
definition SIGNATURE_COST :: u64 where "SIGNATURE_COST = COMPUTE_UNIT_TO_US_RATIO * 24"
definition WRITE_LOCK_UNITS :: u64 where "WRITE_LOCK_UNITS = COMPUTE_UNIT_TO_US_RATIO * 10"
definition INSTRUCTION_DATA_BYTES_COST :: u64 where
  "INSTRUCTION_DATA_BYTES_COST = 140 div COMPUTE_UNIT_TO_US_RATIO"
definition MAX_BLOCK_UNITS_SIMD_0256 :: u64 where "MAX_BLOCK_UNITS_SIMD_0256 = 60000000"
definition MAX_BLOCK_UNITS :: u64 where "MAX_BLOCK_UNITS = MAX_BLOCK_UNITS_SIMD_0256"
definition MAX_WRITABLE_ACCOUNT_UNITS :: u64 where "MAX_WRITABLE_ACCOUNT_UNITS = 24000000"
definition BUILTIN_PROGRAM_COST :: u64 where
  "BUILTIN_PROGRAM_COST = COMPUTE_UNIT_TO_US_RATIO * 10"
definition BPF_PROGRAM_COST :: u64 where "BPF_PROGRAM_COST = 200000"

lemmas cost_constants =
  COMPUTE_UNIT_TO_US_RATIO_def SIGNATURE_COST_def WRITE_LOCK_UNITS_def
  INSTRUCTION_DATA_BYTES_COST_def MAX_BLOCK_UNITS_SIMD_0256_def MAX_BLOCK_UNITS_def
  MAX_WRITABLE_ACCOUNT_UNITS_def BUILTIN_PROGRAM_COST_def BPF_PROGRAM_COST_def

datatype cost_model_error = WouldExceedBlockMaxLimit | WouldExceedAccountMaxLimit

text \<open>\<^verbatim>\<open>CostModel::new\<close>: the built-in programs.\<close>

definition cost_model_new :: "pubkey set" where
  "cost_model_new = {SYSTEM_PROGRAM_ID, TOKEN_PROGRAM_ID}"

record transaction_cost =
  tc_signature_cost :: u64
  tc_write_lock_cost :: u64
  tc_data_cost :: u64
  tc_execution_cost :: u64
  tc_writable_accounts :: "pubkey list"

definition cost_instruction ::
    "pubkey set \<Rightarrow> instruction \<Rightarrow> u64 \<times> u64 \<Rightarrow> (u64 \<times> u64, cost_model_error) result" where
  "cost_instruction builtin_programs ix acc =
     (case acc of (instruction_data_len, execution_cost) \<Rightarrow>
        and_then (add_checked instruction_data_len (of_nat (length (ix_data ix))))
          (\<lambda>instruction_data_len.
             and_then (add_checked execution_cost
                 (if ix_program_id ix \<in> builtin_programs then BUILTIN_PROGRAM_COST
                  else BPF_PROGRAM_COST))
               (\<lambda>execution_cost. Ok (instruction_data_len, execution_cost))))"

definition calculate_cost ::
    "pubkey set \<Rightarrow> transaction \<Rightarrow> (transaction_cost, cost_model_error) result" where
  "calculate_cost builtin_programs tx =
     and_then (mul_checked (of_nat (length (tx_signatures tx))) SIGNATURE_COST)
       (\<lambda>signature_cost.
     and_then (for_each (cost_instruction builtin_programs) (msg_instructions (tx_message tx)) (0, 0))
       (\<lambda>(instruction_data_len, execution_cost).
     and_then (mul_checked (of_nat (length (write_set tx))) WRITE_LOCK_UNITS)
       (\<lambda>write_lock_cost.
     and_then (mul_checked instruction_data_len INSTRUCTION_DATA_BYTES_COST)
       (\<lambda>data_cost.
     Ok \<lparr>tc_signature_cost = signature_cost, tc_write_lock_cost = write_lock_cost,
         tc_data_cost = data_cost, tc_execution_cost = execution_cost,
         tc_writable_accounts = write_set tx\<rparr>))))"

definition cost_sum :: "transaction_cost \<Rightarrow> u64" where
  "cost_sum tc =
     saturating_add (saturating_add (saturating_add (tc_signature_cost tc) (tc_write_lock_cost tc))
       (tc_data_cost tc)) (tc_execution_cost tc)"

text \<open>What the instructions contribute, without bounds.\<close>

definition data_len :: "transaction \<Rightarrow> nat" where
  "data_len tx = (\<Sum>ix \<leftarrow> msg_instructions (tx_message tx). length (ix_data ix))"

definition program_units :: "pubkey set \<Rightarrow> instruction \<Rightarrow> nat" where
  "program_units builtin ix = (if ix_program_id ix \<in> builtin then 300 else 200000)"

definition execution_units :: "pubkey set \<Rightarrow> transaction \<Rightarrow> nat" where
  "execution_units builtin tx = (\<Sum>ix \<leftarrow> msg_instructions (tx_message tx). program_units builtin ix)"

lemma cost_loop:
  "unat d + (\<Sum>ix \<leftarrow> ixs. length (ix_data ix)) < 2 ^ 64 \<Longrightarrow>
   unat e + (\<Sum>ix \<leftarrow> ixs. program_units b ix) < 2 ^ 64 \<Longrightarrow>
   \<exists>d' e'. for_each (cost_instruction b) ixs (d, e) = Ok (d', e') \<and>
     unat d' = unat d + (\<Sum>ix \<leftarrow> ixs. length (ix_data ix)) \<and>
     unat e' = unat e + (\<Sum>ix \<leftarrow> ixs. program_units b ix)"
proof (induction ixs arbitrary: d e)
  case Nil
  then show ?case by simp
next
  case (Cons ix ixs)
  let ?l = "of_nat (length (ix_data ix)) :: u64"
  let ?u = "if ix_program_id ix \<in> b then BUILTIN_PROGRAM_COST else BPF_PROGRAM_COST"
  have l: "unat ?l = length (ix_data ix)"
    using Cons.prems(1) by (intro unat_of_nat_exact) simp
  have u: "unat ?u = program_units b ix"
    by (simp add: program_units_def cost_constants)
  have "unat d + unat ?l < 2 ^ 64" "unat e + unat ?u < 2 ^ 64"
    using Cons.prems l u by simp_all
  then have sums: "unat (d + ?l) = unat d + length (ix_data ix)"
      "unat (e + ?u) = unat e + program_units b ix"
    and step: "cost_instruction b ix (d, e) = Ok (d + ?l, e + ?u)"
    using l u by (simp_all add: cost_instruction_def add_checked_def unat_add_exact
        del: unat_of_nat split del: if_split)
  show ?case
    using Cons.IH [of "d + ?l" "e + ?u"] Cons.prems step
    by (simp only: sums for_each.simps and_then.simps) (simp add: add.assoc)
qed

text \<open>The cost is exact, without overflow, for any transaction that fits a packet.\<close>

definition cost_bounded :: "pubkey set \<Rightarrow> transaction \<Rightarrow> bool" where
  "cost_bounded b tx \<longleftrightarrow>
     720 * length (tx_signatures tx) + 300 * length (write_set tx) + 4 * data_len tx
       + execution_units b tx < 2 ^ 64"

lemma calculate_cost_exact:
  assumes "cost_bounded b tx"
  shows "\<exists>tc. calculate_cost b tx = Ok tc \<and> tc_writable_accounts tc = write_set tx \<and>
    unat (cost_sum tc) = 720 * length (tx_signatures tx) + 300 * length (write_set tx)
      + 4 * data_len tx + execution_units b tx"
proof -
  note bound = assms [unfolded cost_bounded_def]
  have sigs: "unat (of_nat (length (tx_signatures tx)) :: u64) = length (tx_signatures tx)"
    and keys: "unat (of_nat (length (write_set tx)) :: u64) = length (write_set tx)"
    using bound by (auto intro!: unat_of_nat_exact)
  obtain d e where loop: "for_each (cost_instruction b) (msg_instructions (tx_message tx))
        (0, 0) = Ok (d, e)"
    and d: "unat d = data_len tx" and e: "unat e = execution_units b tx"
    using cost_loop [of 0 "msg_instructions (tx_message tx)" 0 b] bound
    by (auto simp: data_len_def execution_units_def)
  let ?tc = "\<lparr>tc_signature_cost = of_nat (length (tx_signatures tx)) * SIGNATURE_COST,
      tc_write_lock_cost = of_nat (length (write_set tx)) * WRITE_LOCK_UNITS,
      tc_data_cost = d * INSTRUCTION_DATA_BYTES_COST, tc_execution_cost = e,
      tc_writable_accounts = write_set tx\<rparr>"
  have units: "unat SIGNATURE_COST = 720" "unat WRITE_LOCK_UNITS = 300" "unat INSTRUCTION_DATA_BYTES_COST = 4"
    by (simp_all add: cost_constants)
  have parts: "unat (tc_signature_cost ?tc) = 720 * length (tx_signatures tx)"
      "unat (tc_write_lock_cost ?tc) = 300 * length (write_set tx)"
      "unat (tc_data_cost ?tc) = 4 * data_len tx"
    using bound sigs keys d units by (simp_all add: unat_mul_exact del: unat_of_nat)
  have "calculate_cost b tx = Ok ?tc"
    using bound sigs keys d units loop
    by (simp add: calculate_cost_def mul_checked_def del: unat_of_nat)
  moreover have "unat (cost_sum ?tc) = 720 * length (tx_signatures tx)
      + 300 * length (write_set tx) + 4 * data_len tx + execution_units b tx"
    using bound parts e by (simp add: cost_sum_def unat_saturating_add)
  ultimately show ?thesis by auto
qed

section \<open>The tracker\<close>

record cost_tracker =
  ct_block_cost_limit :: u64
  ct_account_cost_limit :: u64
  ct_block_cost :: u64
  ct_cost_by_writable_accounts :: "(pubkey, u64) hashmap"

definition cost_tracker_new :: "u64 \<Rightarrow> u64 \<Rightarrow> cost_tracker" where
  "cost_tracker_new block_cost_limit account_cost_limit =
     \<lparr>ct_block_cost_limit = block_cost_limit, ct_account_cost_limit = account_cost_limit,
      ct_block_cost = 0, ct_cost_by_writable_accounts = []\<rparr>"

definition fits_account :: "cost_tracker \<Rightarrow> u64 \<Rightarrow> pubkey \<Rightarrow> bool" where
  "fits_account ct cost account_key =
     (case map_of (ct_cost_by_writable_accounts ct) account_key of
        None \<Rightarrow> True
      | Some chained_cost \<Rightarrow> \<not> saturating_add chained_cost cost > ct_account_cost_limit ct)"

definition would_fit :: "cost_tracker \<Rightarrow> transaction_cost \<Rightarrow> (unit, cost_model_error) result" where
  "would_fit ct tx_cost =
     (let cost = cost_sum tx_cost in
      if saturating_add (ct_block_cost ct) cost > ct_block_cost_limit ct
      then Err WouldExceedBlockMaxLimit
      else for_each (\<lambda>account_key _. if fits_account ct cost account_key then Ok ()
                                     else Err WouldExceedAccountMaxLimit)
             (tc_writable_accounts tx_cost) ())"

definition charge_account ::
    "u64 \<Rightarrow> pubkey \<Rightarrow> (pubkey, u64) hashmap \<Rightarrow> ((pubkey, u64) hashmap, cost_model_error) result" where
  "charge_account cost account_key m =
     and_then (add_checked (case map_of m account_key of None \<Rightarrow> 0 | Some c \<Rightarrow> c) cost)
       (\<lambda>account_cost. Ok (AList.update account_key account_cost m))"

definition add_cost ::
    "cost_tracker \<Rightarrow> transaction_cost \<Rightarrow> (cost_tracker, cost_model_error) result" where
  "add_cost ct tx_cost =
     (let cost = cost_sum tx_cost in
      and_then (for_each (charge_account cost) (tc_writable_accounts tx_cost)
                 (ct_cost_by_writable_accounts ct))
        (\<lambda>m. Ok (ct\<lparr>ct_block_cost := ct_block_cost ct + cost,
                     ct_cost_by_writable_accounts := m\<rparr>)))"

definition refund_account ::
    "u64 \<Rightarrow> pubkey \<Rightarrow> (pubkey, u64) hashmap \<Rightarrow> ((pubkey, u64) hashmap, cost_model_error) result" where
  "refund_account cost account_key m =
     (case map_of m account_key of
        None \<Rightarrow> Ok m
      | Some entry \<Rightarrow>
          and_then (sub_checked entry cost) (\<lambda>entry. Ok (AList.update account_key entry m)))"

definition subtract_cost ::
    "cost_tracker \<Rightarrow> transaction_cost \<Rightarrow> (cost_tracker, cost_model_error) result" where
  "subtract_cost ct tx_cost =
     (let cost = cost_sum tx_cost in
      and_then (for_each (refund_account cost) (tc_writable_accounts tx_cost)
                 (ct_cost_by_writable_accounts ct))
        (\<lambda>m. Ok (ct\<lparr>ct_block_cost := ct_block_cost ct - cost,
                     ct_cost_by_writable_accounts := m\<rparr>)))"

definition cost_reset :: "cost_tracker \<Rightarrow> cost_tracker" where
  "cost_reset ct = ct\<lparr>ct_block_cost := 0, ct_cost_by_writable_accounts := []\<rparr>"

section \<open>The tracker as a ledger of accepted costs\<close>

text \<open>
  The abstract tracker is the multiset of the costs that are counted. The concrete one
  keeps two kinds of sums of it. A block limit of \<open>u64::MAX\<close> would make the saturating
  test of \<^verbatim>\<open>would_fit\<close> useless; the code's limit is far below.
\<close>

type_synonym ledger = "transaction_cost multiset"

definition block_total :: "ledger \<Rightarrow> nat" where
  "block_total L = (\<Sum>tc \<in># L. unat (cost_sum tc))"

definition account_total :: "ledger \<Rightarrow> pubkey \<Rightarrow> nat" where
  "account_total L k =
     (\<Sum>tc \<in># L. if k \<in> set (tc_writable_accounts tc) then unat (cost_sum tc) else 0)"

definition account_cost :: "(pubkey, u64) hashmap \<Rightarrow> pubkey \<Rightarrow> u64" where
  "account_cost m k = (case map_of m k of None \<Rightarrow> 0 | Some c \<Rightarrow> c)"

definition tracks :: "cost_tracker \<Rightarrow> ledger \<Rightarrow> bool" where
  "tracks ct L \<longleftrightarrow>
     unat (ct_block_cost ct) = block_total L \<and>
     (\<forall>k. unat (account_cost (ct_cost_by_writable_accounts ct) k) = account_total L k) \<and>
     (\<forall>k. account_total L k \<noteq> 0 \<longrightarrow> map_of (ct_cost_by_writable_accounts ct) k \<noteq> None) \<and>
     block_total L \<le> unat (ct_block_cost_limit ct) \<and>
     unat (ct_block_cost_limit ct) < 2 ^ 64 - 1 \<and>
     (\<forall>tc \<in># L. distinct (tc_writable_accounts tc))"

lemma totals_add [simp]:
  "block_total {#} = 0" "account_total {#} k = 0"
  "block_total (add_mset tc L) = unat (cost_sum tc) + block_total L"
  "account_total (add_mset tc L) k =
     (if k \<in> set (tc_writable_accounts tc) then unat (cost_sum tc) else 0) + account_total L k"
  by (simp_all add: block_total_def account_total_def)

lemma account_total_le: "account_total L k \<le> block_total L"
  by (induction L) auto

lemma tracks_new: "unat bl < 2 ^ 64 - 1 \<Longrightarrow> tracks (cost_tracker_new bl al) {#}"
  by (simp add: tracks_def cost_tracker_new_def account_cost_def)

lemma charge_loop:
  "distinct ks \<Longrightarrow> \<forall>k \<in> set ks. unat (account_cost m k) + unat cost < 2 ^ 64 \<Longrightarrow>
   \<exists>m'. for_each (charge_account cost) ks m = Ok m' \<and>
     map_of m' = (\<lambda>k. if k \<in> set ks then Some (account_cost m k + cost) else map_of m k)"
proof (induction ks arbitrary: m)
  case Nil
  then show ?case by simp
next
  case (Cons k ks)
  let ?m = "AList.update k (account_cost m k + cost) m"
  have other: "account_cost ?m j = account_cost m j" if "j \<noteq> k" for j
    using that by (simp add: account_cost_def map_of_update)
  have "charge_account cost k m = Ok ?m"
    using Cons.prems(2) by (simp add: charge_account_def account_cost_def add_checked_def)
  moreover have dist: "distinct ks" "k \<notin> set ks" using Cons.prems(1) by simp_all
  have "\<forall>j \<in> set ks. unat (account_cost ?m j) + unat cost < 2 ^ 64"
  proof
    fix j assume "j \<in> set ks"
    with dist Cons.prems(2) other [of j] show "unat (account_cost ?m j) + unat cost < 2 ^ 64"
      by (cases "j = k") simp_all
  qed
  from Cons.IH [OF dist(1) this] obtain m' where
    "for_each (charge_account cost) ks ?m = Ok m'" and
    m': "map_of m' = (\<lambda>j. if j \<in> set ks then Some (account_cost ?m j + cost) else map_of ?m j)"
    by blast
  moreover have "account_cost ?m j = account_cost m j" if "j \<in> set ks" for j
    using other dist(2) that by metis
  then have "map_of m' = (\<lambda>j. if j \<in> set (k # ks) then Some (account_cost m j + cost)
      else map_of m j)"
    using dist(2) by (auto simp: m' map_of_update fun_eq_iff)
  ultimately show ?case by simp
qed

lemma refund_loop:
  "distinct ks \<Longrightarrow> \<forall>k \<in> set ks. \<forall>c. map_of m k = Some c \<longrightarrow> cost \<le> c \<Longrightarrow>
   \<exists>m'. for_each (refund_account cost) ks m = Ok m' \<and>
     map_of m' = (\<lambda>k. if k \<in> set ks then map_option (\<lambda>c. c - cost) (map_of m k) else map_of m k)"
proof (induction ks arbitrary: m)
  case Nil
  then show ?case by simp
next
  case (Cons k ks)
  let ?m = "case map_of m k of None \<Rightarrow> m | Some c \<Rightarrow> AList.update k (c - cost) m"
  have "refund_account cost k m = Ok ?m"
    using Cons.prems by (auto simp: refund_account_def sub_checked_def split: option.splits)
  moreover have dist: "distinct ks" "k \<notin> set ks" using Cons.prems(1) by simp_all
  have upd: "map_of ?m = (\<lambda>j. if j = k then map_option (\<lambda>c. c - cost) (map_of m k) else map_of m j)"
    by (auto simp: map_of_update fun_eq_iff split: option.splits)
  have "\<forall>j \<in> set ks. \<forall>c. map_of ?m j = Some c \<longrightarrow> cost \<le> c"
    using Cons.prems dist(2) by (auto simp: upd)
  from Cons.IH [OF dist(1) this] obtain m' where
    "for_each (refund_account cost) ks ?m = Ok m'" and
    m': "map_of m' = (\<lambda>j. if j \<in> set ks then map_option (\<lambda>c. c - cost) (map_of ?m j)
      else map_of ?m j)"
    by blast
  moreover have "map_of m' = (\<lambda>j. if j \<in> set (k # ks) then map_option (\<lambda>c. c - cost) (map_of m j)
      else map_of m j)"
    unfolding m' upd using dist(2) by (auto simp: fun_eq_iff)
  ultimately show ?case by simp
qed

lemma for_each_check:
  "for_each (\<lambda>k _. if P k then Ok () else Err e) ks () = Ok () \<longleftrightarrow> list_all P ks"
  by (induction ks) auto

lemma would_fit_Ok_iff:
  "would_fit ct tc = Ok () \<longleftrightarrow>
     saturating_add (ct_block_cost ct) (cost_sum tc) \<le> ct_block_cost_limit ct \<and>
     list_all (fits_account ct (cost_sum tc)) (tc_writable_accounts tc)"
  by (auto simp: would_fit_def Let_def for_each_check not_less)

lemma add_cost_tracks:
  assumes tr: "tracks ct L" and fit: "would_fit ct tc = Ok ()"
    and dist: "distinct (tc_writable_accounts tc)"
  shows "\<exists>ct'. add_cost ct tc = Ok ct' \<and> tracks ct' (add_mset tc L) \<and>
    ct_block_cost_limit ct' = ct_block_cost_limit ct \<and>
    ct_account_cost_limit ct' = ct_account_cost_limit ct"
proof -
  let ?m = "ct_cost_by_writable_accounts ct"
  have block: "unat (ct_block_cost ct) = block_total L"
    and acc: "\<And>k. unat (account_cost ?m k) = account_total L k"
    and limit: "unat (ct_block_cost_limit ct) < 2 ^ 64 - 1"
    using tr by (auto simp: tracks_def)
  have "unat (saturating_add (ct_block_cost ct) (cost_sum tc)) \<le> unat (ct_block_cost_limit ct)"
    using fit by (simp add: would_fit_Ok_iff word_le_nat_alt)
  with limit have room: "block_total L + unat (cost_sum tc) \<le> unat (ct_block_cost_limit ct)"
    by (simp add: unat_saturating_add block min_def split: if_splits)
  with limit have small: "block_total L + unat (cost_sum tc) < 2 ^ 64" by simp
  have "unat (account_cost ?m k) + unat (cost_sum tc) < 2 ^ 64" for k
    using small account_total_le [of L k] by (simp add: acc)
  with charge_loop [OF dist] obtain m' where
    m': "for_each (charge_account (cost_sum tc)) (tc_writable_accounts tc) ?m = Ok m'"
    "map_of m' = (\<lambda>k. if k \<in> set (tc_writable_accounts tc)
       then Some (account_cost ?m k + cost_sum tc) else map_of ?m k)" by blast
  have "unat (account_cost m' k) = account_total (add_mset tc L) k" for k
    using small account_total_le [of L k] acc [of k]
    by (auto simp: account_cost_def [of m'] m'(2) account_cost_def [of ?m, symmetric]
        unat_add_exact)
  moreover have "map_of m' k \<noteq> None" if "account_total (add_mset tc L) k \<noteq> 0" for k
    using that tr by (auto simp: m'(2) tracks_def split: if_splits)
  ultimately show ?thesis
    using tr m'(1) room limit small block dist
    by (simp add: add_cost_def Let_def tracks_def unat_add_exact)
qed

lemma subtract_cost_tracks:
  assumes tr: "tracks ct (add_mset tc L)"
  shows "\<exists>ct'. subtract_cost ct tc = Ok ct' \<and> tracks ct' L \<and>
    ct_block_cost_limit ct' = ct_block_cost_limit ct \<and>
    ct_account_cost_limit ct' = ct_account_cost_limit ct"
proof -
  let ?m = "ct_cost_by_writable_accounts ct" and ?ks = "tc_writable_accounts tc"
  have block: "unat (ct_block_cost ct) = unat (cost_sum tc) + block_total L"
    and acc: "\<And>k. unat (account_cost ?m k) = account_total (add_mset tc L) k"
    and pres: "\<And>k. account_total (add_mset tc L) k \<noteq> 0 \<Longrightarrow> map_of ?m k \<noteq> None"
    and dist: "distinct ?ks"
    using tr by (auto simp: tracks_def)
  have entry: "cost_sum tc \<le> c" if "map_of ?m k = Some c" "k \<in> set ?ks" for k c
    using that acc [of k] by (simp add: account_cost_def word_le_nat_alt)
  with refund_loop [OF dist] obtain m' where
    m': "for_each (refund_account (cost_sum tc)) ?ks ?m = Ok m'"
    "map_of m' = (\<lambda>k. if k \<in> set ?ks then map_option (\<lambda>c. c - cost_sum tc) (map_of ?m k)
       else map_of ?m k)" by blast
  have "unat (account_cost m' k) = account_total L k" for k
    using acc [of k] entry [of k]
    by (auto simp: account_cost_def m'(2) unat_sub split: option.splits)
  moreover have "map_of m' k \<noteq> None" if "account_total L k \<noteq> 0" for k
    using that pres [of k] by (auto simp: m'(2))
  moreover have "unat (ct_block_cost ct - cost_sum tc) = block_total L"
    using block by (simp add: unat_sub word_le_nat_alt)
  ultimately show ?thesis
    using tr m'(1) by (simp add: subtract_cost_def Let_def tracks_def)
qed

end
