(* ===== verification/Poh.thy ===== *)
theory Poh
  imports Core_Types
begin

text \<open>
  \<^verbatim>\<open>src/poh.rs\<close>: the proof-of-history recorder (a hash chain with ticks and slots), the
  loop of the service thread that drives it, and what the chain is for: its hash stands for
  the whole history. The counters are \<^verbatim>\<open>u64\<close> whose \<^verbatim>\<open>+=\<close> panics on overflow.
\<close>

section \<open>The recorder\<close>

record poh_entry =
  pe_hash :: hash
  pe_num_hashes :: u64
  pe_transactions_hash :: hash

datatype poh_error = MaxHeightReached

record poh_recorder =
  ph_current_hash :: hash
  ph_num_hashes :: u64
  ph_ticks_per_slot :: u64
  ph_hashes_per_tick :: u64
  ph_max_tick_height :: u64
  ph_hashes_since_last_tick :: u64
  ph_tick_count :: u64
  ph_slot :: u64

definition poh_new :: "hash \<Rightarrow> u64 \<Rightarrow> u64 \<Rightarrow> poh_recorder" where
  "poh_new initial_hash ticks_per_slot hashes_per_tick =
     (let max_tick_height = ticks_per_slot in
      \<lparr>ph_current_hash = initial_hash, ph_num_hashes = 0, ph_ticks_per_slot = ticks_per_slot,
       ph_hashes_per_tick = hashes_per_tick, ph_max_tick_height = max_tick_height,
       ph_hashes_since_last_tick = 0, ph_tick_count = 0, ph_slot = 0\<rparr>)"

text \<open>One round of the \<^verbatim>\<open>for\<close> loop of \<^verbatim>\<open>hash\<close>, and the counters it shares with \<^verbatim>\<open>record\<close>.\<close>

definition count_hash :: "hash \<Rightarrow> poh_recorder \<Rightarrow> (poh_recorder, poh_error) result" where
  "count_hash h r =
     and_then (add_checked (ph_num_hashes r) 1) (\<lambda>num_hashes.
     and_then (add_checked (ph_hashes_since_last_tick r) 1) (\<lambda>since.
     Ok (r\<lparr>ph_current_hash := h, ph_num_hashes := num_hashes,
           ph_hashes_since_last_tick := since\<rparr>)))"

definition hash_once :: "crypto \<Rightarrow> hash \<Rightarrow> hash" where
  "hash_once cr h = Hash (sha256 cr (hash_bytes h))"

primrec poh_hash_loop :: "crypto \<Rightarrow> nat \<Rightarrow> poh_recorder \<Rightarrow> (poh_recorder, poh_error) result" where
  "poh_hash_loop cr 0 r = Ok r"
| "poh_hash_loop cr (Suc n) r =
     and_then (count_hash (hash_once cr (ph_current_hash r)) r) (poh_hash_loop cr n)"

definition poh_hash :: "crypto \<Rightarrow> u64 \<Rightarrow> poh_recorder \<Rightarrow> (poh_recorder, poh_error) result" where
  "poh_hash cr num_hashes r = poh_hash_loop cr (unat num_hashes) r"

text \<open>The end of \<^verbatim>\<open>tick\<close>, at a slot boundary; \<^verbatim>\<open>%\<close> by zero panics.\<close>

definition close_slot :: "poh_recorder \<Rightarrow> (poh_recorder, poh_error) result" where
  "close_slot r =
     (if ph_ticks_per_slot r = 0 then Panic
      else if ph_tick_count r mod ph_ticks_per_slot r = 0
      then and_then (add_checked (ph_slot r) 1) (\<lambda>slot.
           and_then (add_checked slot 1) (\<lambda>next_slot.
           and_then (mul_checked next_slot (ph_ticks_per_slot r)) (\<lambda>max_tick_height.
           Ok (r\<lparr>ph_slot := slot, ph_max_tick_height := max_tick_height\<rparr>))))
      else Ok r)"

definition poh_tick :: "crypto \<Rightarrow> poh_recorder \<Rightarrow> (poh_recorder, poh_error) result" where
  "poh_tick cr r =
     (let remaining_hashes = saturating_sub (ph_hashes_per_tick r) (ph_hashes_since_last_tick r) in
      and_then (poh_hash cr remaining_hashes r) (\<lambda>r.
      and_then (add_checked (ph_tick_count r) 1) (\<lambda>tick_count.
      close_slot (r\<lparr>ph_hashes_since_last_tick := 0, ph_tick_count := tick_count\<rparr>))))"

definition should_tick :: "poh_recorder \<Rightarrow> bool" where
  "should_tick r \<longleftrightarrow> ph_hashes_since_last_tick r \<ge> ph_hashes_per_tick r"

definition poh_record ::
    "crypto \<Rightarrow> hash \<Rightarrow> poh_recorder \<Rightarrow> (poh_recorder \<times> poh_entry, poh_error) result" where
  "poh_record cr transactions_hash r =
     (if ph_tick_count r \<ge> ph_max_tick_height r then Err MaxHeightReached
      else let h = Hash (sha256 cr (hash_bytes (ph_current_hash r) @ hash_bytes transactions_hash)) in
        and_then (count_hash h r) (\<lambda>r.
          Ok (r, \<lparr>pe_hash = ph_current_hash r, pe_num_hashes = ph_num_hashes r,
                  pe_transactions_hash = transactions_hash\<rparr>)))"

section \<open>The service loop\<close>

text \<open>
  One round of the thread's loop, by what \<^verbatim>\<open>try_recv\<close> returned: a record is mixed in (an
  error is only logged) and the loop continues; an empty channel gives a batch of hashes and
  at most one tick; a closed channel ends the loop. \<open>service_step\<close> is the round with the
  test of the loop.
\<close>

datatype recv = Received hash | Empty | Disconnected
datatype service = Running poh_recorder | Stopped poh_recorder

definition hashes_per_batch :: u64 where "hashes_per_batch = 128"

definition service_round ::
    "crypto \<Rightarrow> recv \<Rightarrow> poh_recorder \<Rightarrow> (service, poh_error) result" where
  "service_round cr received r =
     (case received of
        Received batch_hash \<Rightarrow>
          (case poh_record cr batch_hash r of
             Ok (r', _) \<Rightarrow> Ok (Running r')
           | Err e \<Rightarrow> Ok (Running r)
           | Panic \<Rightarrow> Panic)
      | Empty \<Rightarrow>
          and_then (poh_hash cr hashes_per_batch r) (\<lambda>r.
            if should_tick r then and_then (poh_tick cr r) (\<lambda>r. Ok (Running r)) else Ok (Running r))
      | Disconnected \<Rightarrow> Ok (Stopped r))"

definition service_step ::
    "crypto \<Rightarrow> bool \<Rightarrow> recv \<Rightarrow> poh_recorder \<Rightarrow> (service, poh_error) result" where
  "service_step cr exit received r = (if \<not> exit then service_round cr received r else Ok (Stopped r))"

text \<open>
  The configuration, with the tick rate in nanoseconds, and the arithmetic of
  \<^verbatim>\<open>PohService::new\<close> before the thread starts. A round that hashed takes
  \<open>ideal_ns_per_batch\<close>: it sleeps for the rest of that time, and only warns when it is late.
\<close>

record poh_config =
  pc_hashes_per_tick :: u64
  pc_ticks_per_slot :: u64
  pc_tick_rate :: nat

definition ideal_ns_per_batch :: "u64 \<Rightarrow> u64 \<Rightarrow> (u64, 'e) result" where
  "ideal_ns_per_batch tick_rate_ns hashes_per_tick =
     and_then (mul_checked tick_rate_ns hashes_per_batch)
       (\<lambda>p. if hashes_per_tick = 0 then Panic else Ok (p div hashes_per_tick))"

definition poh_service_new :: "poh_recorder \<Rightarrow> poh_config \<Rightarrow> (u64 \<times> service, 'e) result" where
  "poh_service_new recorder config =
     and_then (ideal_ns_per_batch (of_nat (pc_tick_rate config)) (pc_hashes_per_tick config)) (\<lambda>ideal.
     Ok (ideal, Running recorder))"

datatype pace = Sleep u64 | Lagging u64 | OnTime

definition batch_pace :: "u64 \<Rightarrow> u64 \<Rightarrow> pace" where
  "batch_pace ideal elapsed =
     (if elapsed < ideal then let sleep = ideal - elapsed in if sleep > 1000 then Sleep sleep else OnTime
      else if elapsed > ideal then Lagging (elapsed - ideal)
      else OnTime)"

text \<open>A round that is not late lasts the ideal time, up to the microsecond below which it does not sleep.\<close>

definition paced :: "u64 \<Rightarrow> u64 \<Rightarrow> nat" where
  "paced ideal elapsed = unat elapsed + (case batch_pace ideal elapsed of Sleep n \<Rightarrow> unat n | _ \<Rightarrow> 0)"

lemma paced_bounds:
  "unat elapsed \<le> unat ideal \<Longrightarrow> paced ideal elapsed \<le> unat ideal \<and> unat ideal \<le> paced ideal elapsed + 1000"
  by (auto simp: paced_def batch_pace_def Let_def unat_sub word_less_nat_alt word_le_nat_alt)

section \<open>What the recorder computes\<close>

lemma count_hash_Ok_iff:
  "count_hash h r = Ok r' \<longleftrightarrow>
     unat (ph_num_hashes r) + 1 < 2 ^ 64 \<and> unat (ph_hashes_since_last_tick r) + 1 < 2 ^ 64 \<and>
     r' = r\<lparr>ph_current_hash := h, ph_num_hashes := ph_num_hashes r + 1,
            ph_hashes_since_last_tick := ph_hashes_since_last_tick r + 1\<rparr>"
  by (auto simp: count_hash_def add_checked_Ok)

lemma count_hash_not_Err: "count_hash h r \<noteq> Err e"
  by (simp add: count_hash_def result_simps)

text \<open>\<open>n\<close> rounds extend the chain by \<open>n\<close> hashes and both counters by \<open>n\<close>.\<close>

lemma poh_hash_loop_Ok:
  "unat (ph_num_hashes r) + n < 2 ^ 64 \<Longrightarrow> unat (ph_hashes_since_last_tick r) + n < 2 ^ 64 \<Longrightarrow>
   poh_hash_loop cr n r =
     Ok (r\<lparr>ph_current_hash := (hash_once cr ^^ n) (ph_current_hash r),
           ph_num_hashes := ph_num_hashes r + of_nat n,
           ph_hashes_since_last_tick := ph_hashes_since_last_tick r + of_nat n\<rparr>)"
proof (induction n arbitrary: r)
  case 0
  then show ?case by simp
next
  case (Suc n)
  let ?r = "r\<lparr>ph_current_hash := hash_once cr (ph_current_hash r),
      ph_num_hashes := ph_num_hashes r + 1,
      ph_hashes_since_last_tick := ph_hashes_since_last_tick r + 1\<rparr>"
  have "count_hash (hash_once cr (ph_current_hash r)) r = Ok ?r"
    using Suc.prems by (simp add: count_hash_Ok_iff)
  moreover have "unat (ph_num_hashes ?r) + n < 2 ^ 64"
      "unat (ph_hashes_since_last_tick ?r) + n < 2 ^ 64"
    using Suc.prems by (simp_all add: unat_add_exact)
  ultimately show ?case
    using Suc.IH [of ?r] by (simp add: funpow_Suc_right ac_simps del: funpow.simps)
qed

lemma poh_hash_loop_frame:
  "poh_hash_loop cr n r = Ok r' \<Longrightarrow>
     ph_ticks_per_slot r' = ph_ticks_per_slot r \<and> ph_hashes_per_tick r' = ph_hashes_per_tick r \<and>
     ph_max_tick_height r' = ph_max_tick_height r \<and> ph_tick_count r' = ph_tick_count r \<and>
     ph_slot r' = ph_slot r"
  by (induction n arbitrary: r) (fastforce simp: count_hash_Ok_iff)+

text \<open>
  Slots follow ticks: the slot is the number of whole slots ticked, and the height limit is
  the end of the current slot.
\<close>

definition poh_inv :: "poh_recorder \<Rightarrow> bool" where
  "poh_inv r \<longleftrightarrow>
     ph_ticks_per_slot r \<noteq> 0 \<and>
     unat (ph_slot r) = unat (ph_tick_count r) div unat (ph_ticks_per_slot r) \<and>
     unat (ph_max_tick_height r) = (unat (ph_slot r) + 1) * unat (ph_ticks_per_slot r)"

lemma poh_inv_new: "ticks_per_slot \<noteq> 0 \<Longrightarrow> poh_inv (poh_new h ticks_per_slot hashes_per_tick)"
  by (simp add: poh_inv_def poh_new_def)

lemma poh_inv_cong:
  "ph_ticks_per_slot r' = ph_ticks_per_slot r \<Longrightarrow> ph_max_tick_height r' = ph_max_tick_height r \<Longrightarrow>
   ph_tick_count r' = ph_tick_count r \<Longrightarrow> ph_slot r' = ph_slot r \<Longrightarrow> poh_inv r' = poh_inv r"
  by (simp add: poh_inv_def)

lemma poh_inv_height:
  assumes "poh_inv r"
  shows "ph_tick_count r < ph_max_tick_height r"
proof -
  let ?t = "unat (ph_tick_count r)" and ?n = "unat (ph_ticks_per_slot r)"
  have "0 < ?n" using assms by (simp add: poh_inv_def unat_gt_0)
  then have "?t < (?t div ?n + 1) * ?n"
    by (simp add: dividend_less_div_times)
  with assms show ?thesis by (simp add: poh_inv_def word_less_nat_alt)
qed

lemma Suc_div_eq: "0 < n \<Longrightarrow> Suc t div n = (if Suc t mod n = 0 then Suc (t div n) else t div n)"
  for n t :: nat
  by (simp add: div_Suc)

lemma close_slot_inv:
  assumes close: "close_slot (r\<lparr>ph_hashes_since_last_tick := 0, ph_tick_count := ph_tick_count r + 1\<rparr>) = Ok r'"
    and inv: "poh_inv r" and t: "unat (ph_tick_count r) + 1 < 2 ^ 64"
  shows "poh_inv r'"
proof -
  let ?n = "unat (ph_ticks_per_slot r)" and ?t = "unat (ph_tick_count r)"
  have n: "0 < ?n" using inv by (simp add: poh_inv_def unat_gt_0)
  have t': "unat (ph_tick_count r + 1) = Suc ?t" using t by (simp add: unat_add_exact)
  have mod0: "(ph_tick_count r + 1) mod ph_ticks_per_slot r = 0 \<longleftrightarrow> Suc ?t mod ?n = 0"
    by (simp only: word_unat_eq_iff unat_mod t' unat_0)
  show ?thesis
  proof (cases "Suc ?t mod ?n = 0")
    case True
    with close mod0 inv have b: "unat (ph_slot r) + 1 < 2 ^ 64" "unat (ph_slot r + 1) + 1 < 2 ^ 64"
        "unat (ph_slot r + 1 + 1) * ?n < 2 ^ 64"
      and r': "r' = r\<lparr>ph_hashes_since_last_tick := 0, ph_tick_count := ph_tick_count r + 1,
        ph_slot := ph_slot r + 1, ph_max_tick_height := (ph_slot r + 1 + 1) * ph_ticks_per_slot r\<rparr>"
      by (auto simp: close_slot_def add_checked_Ok mul_checked_Ok poh_inv_def)
    have s: "unat (ph_slot r + 1) = unat (ph_slot r) + 1" using b(1) by (simp add: unat_add_exact)
    have s2: "unat (ph_slot r + 1 + 1) = unat (ph_slot r) + 2"
      using b(2) s by (simp add: unat_add_exact)
    show ?thesis
      using inv n t' True s s2 b(3)
      by (simp add: poh_inv_def r' unat_mul_exact Suc_div_eq)
  next
    case False
    with close mod0 inv
    have "r' = r\<lparr>ph_hashes_since_last_tick := 0, ph_tick_count := ph_tick_count r + 1\<rparr>"
      by (simp add: close_slot_def poh_inv_def)
    with inv n t' False show ?thesis by (simp add: poh_inv_def Suc_div_eq)
  qed
qed

lemma poh_hash_inv: "poh_hash cr n r = Ok r' \<Longrightarrow> poh_inv r \<Longrightarrow> poh_inv r'"
  using poh_hash_loop_frame [of cr "unat n" r r'] by (simp add: poh_hash_def poh_inv_def)

lemma poh_tick_inv: "poh_tick cr r = Ok r' \<Longrightarrow> poh_inv r \<Longrightarrow> poh_inv r'"
  by (auto simp: poh_tick_def Let_def add_checked_Ok intro: close_slot_inv poh_hash_inv)

lemma poh_record_inv: "poh_record cr th r = Ok (r', e) \<Longrightarrow> poh_inv r \<Longrightarrow> poh_inv r'"
  by (auto simp: poh_record_def Let_def count_hash_Ok_iff poh_inv_def split: if_splits)

section \<open>The history\<close>

text \<open>
  The chain as a list of events: hashing the current hash, or mixing a group's hash into it.
  The hash that stands for the events is their fold.
\<close>

datatype poh_event = Hashed | Mixed hash

primrec event_input :: "poh_event \<Rightarrow> hash \<Rightarrow> bytes" where
  "event_input Hashed h = hash_bytes h"
| "event_input (Mixed t) h = hash_bytes h @ hash_bytes t"

primrec extend :: "crypto \<Rightarrow> poh_event \<Rightarrow> hash \<Rightarrow> hash" where
  "extend cr Hashed h = hash_once cr h"
| "extend cr (Mixed t) h = Hash (sha256 cr (hash_bytes h @ hash_bytes t))"

lemma extend_input: "extend cr ev h = Hash (sha256 cr (event_input ev h))"
  by (cases ev) (simp_all add: hash_once_def)

definition chain :: "crypto \<Rightarrow> hash \<Rightarrow> poh_event list \<Rightarrow> hash" where
  "chain cr h evs = fold (extend cr) evs h"

lemma chain_simps [simp]:
  "chain cr h [] = h" "chain cr h (evs @ [ev]) = extend cr ev (chain cr h evs)"
  by (simp_all add: chain_def)

primrec mixed :: "poh_event list \<Rightarrow> hash list" where
  "mixed [] = []"
| "mixed (ev # evs) = (case ev of Hashed \<Rightarrow> mixed evs | Mixed t \<Rightarrow> t # mixed evs)"

lemma mixed_append [simp]: "mixed (evs @ evs') = mixed evs @ mixed evs'"
  by (induction evs) (simp_all split: poh_event.split)

lemma mixed_replicate [simp]: "mixed (replicate n Hashed) = []"
  by (induction n) simp_all

text \<open>The recorder's hash is the chain of some events, as many as it counts.\<close>

definition records :: "crypto \<Rightarrow> hash \<Rightarrow> hash list \<Rightarrow> poh_recorder \<Rightarrow> bool" where
  "records cr h hs r \<longleftrightarrow>
     (\<exists>evs. mixed evs = hs \<and> ph_current_hash r = chain cr h evs \<and> unat (ph_num_hashes r) = length evs)"

lemma records_count:
  assumes rec: "records cr h hs r" and count: "count_hash (extend cr ev (ph_current_hash r)) r = Ok r'"
  shows "records cr h (hs @ mixed [ev]) r'"
proof -
  obtain evs where evs: "mixed evs = hs" "ph_current_hash r = chain cr h evs" "unat (ph_num_hashes r) = length evs"
    using rec by (auto simp: records_def)
  have "unat (ph_num_hashes r') = Suc (length evs)" "ph_current_hash r' = extend cr ev (chain cr h evs)"
    using count evs by (auto simp: count_hash_Ok_iff unat_add_exact)
  then show ?thesis using evs(1) by (auto simp: records_def intro!: exI [of _ "evs @ [ev]"])
qed

lemma records_hash_loop: "poh_hash_loop cr n r = Ok r' \<Longrightarrow> records cr h hs r \<Longrightarrow> records cr h hs r'"
proof (induction n arbitrary: r)
  case (Suc n)
  then obtain r1 where r1: "count_hash (extend cr Hashed (ph_current_hash r)) r = Ok r1"
    "poh_hash_loop cr n r1 = Ok r'" by (auto simp: and_then_Ok_iff)
  have "records cr h hs r1" using records_count [OF Suc.prems(2) r1(1)] by simp
  then show ?case by (rule Suc.IH [OF r1(2)])
qed simp

lemma records_cong:
  "ph_current_hash r' = ph_current_hash r \<Longrightarrow> ph_num_hashes r' = ph_num_hashes r \<Longrightarrow>
     records cr h hs r' = records cr h hs r"
  by (simp add: records_def)

lemma close_slot_hash:
  "close_slot r = Ok r' \<Longrightarrow> ph_current_hash r' = ph_current_hash r \<and> ph_num_hashes r' = ph_num_hashes r"
  by (auto simp: close_slot_def and_then_Ok_iff split: if_splits)

lemma records_tick: "poh_tick cr r = Ok r' \<Longrightarrow> records cr h hs r \<Longrightarrow> records cr h hs r'"
  by (auto simp: poh_tick_def poh_hash_def Let_def and_then_Ok_iff records_def
      dest!: close_slot_hash records_hash_loop [where h = h and hs = hs])

lemma records_record:
  "poh_record cr t r = Ok (r', e) \<Longrightarrow> records cr h hs r \<Longrightarrow> records cr h (hs @ [t]) r'"
  using records_count [of cr h hs r "Mixed t" r']
  by (auto simp: poh_record_def Let_def and_then_Ok_iff split: if_splits)

text \<open>
  The hash binds the history: of two lists of as many events with one hash, either the lists
  are the same, or at some position the two runs hashed different inputs to the same value.
\<close>

definition history_input :: "crypto \<Rightarrow> hash \<Rightarrow> poh_event list \<Rightarrow> nat \<Rightarrow> bytes" where
  "history_input cr h evs i = event_input (evs ! i) (chain cr h (take i evs))"

definition collide_at :: "crypto \<Rightarrow> hash \<Rightarrow> poh_event list \<Rightarrow> poh_event list \<Rightarrow> nat \<Rightarrow> bool" where
  "collide_at cr h evs evs' i \<longleftrightarrow> history_input cr h evs i \<noteq> history_input cr h evs' i \<and>
     sha256 cr (history_input cr h evs i) = sha256 cr (history_input cr h evs' i)"

lemma history_input_append [simp]:
  "i < length evs \<Longrightarrow> history_input cr h (evs @ [ev]) i = history_input cr h evs i"
  "history_input cr h (evs @ [ev]) (length evs) = event_input ev (chain cr h evs)"
  by (simp_all add: history_input_def nth_append)

lemma hash_bytes_inj [simp]: "hash_bytes h = hash_bytes h' \<longleftrightarrow> h = h'"
  by (cases h; cases h') (simp add: be_bytes_inj)

lemma event_input_inj: "event_input ev h = event_input ev' h' \<longleftrightarrow> ev = ev' \<and> h = h'"
proof (cases "length (event_input ev h) = length (event_input ev' h')")
  case True
  then show ?thesis by (cases ev; cases ev') auto
next
  case False
  then show ?thesis by (auto dest: arg_cong [where f = length])
qed

lemma chain_binds:
  "length evs = length evs' \<Longrightarrow> chain cr h evs = chain cr h evs' \<Longrightarrow>
     evs = evs' \<or> (\<exists>i < length evs. collide_at cr h evs evs' i)"
proof (induction evs arbitrary: evs' rule: rev_induct)
  case (snoc ev evs)
  obtain evs1 ev1 where evs': "evs' = evs1 @ [ev1]" using snoc.prems(1) by (cases evs' rule: rev_cases) auto
  then have len: "length evs = length evs1" using snoc.prems(1) by simp
  have "sha256 cr (event_input ev (chain cr h evs)) = sha256 cr (event_input ev1 (chain cr h evs1))"
    using snoc.prems(2) by (simp add: evs' extend_input)
  then have "collide_at cr h (evs @ [ev]) evs' (length evs) \<or> ev = ev1 \<and> chain cr h evs = chain cr h evs1"
    unfolding collide_at_def evs' history_input_append(2) using len by (simp add: event_input_inj)
  moreover have "collide_at cr h (evs @ [ev]) evs' i" if "i < length evs" "collide_at cr h evs evs1 i" for i
    using that len by (simp add: collide_at_def evs')
  ultimately show ?case using snoc.IH [OF len] by (auto simp: evs' less_Suc_eq)
qed simp

section \<open>The recorders the service reaches\<close>

text \<open>The service's recorders, with the hashes received so far.\<close>

primrec received_hashes :: "recv \<Rightarrow> hash list" where
  "received_hashes (Received h) = [h]"
| "received_hashes Empty = []"
| "received_hashes Disconnected = []"

inductive service_reachable :: "crypto \<Rightarrow> hash \<Rightarrow> hash list \<Rightarrow> poh_recorder \<Rightarrow> bool" for cr h where
  start: "ticks_per_slot \<noteq> 0 \<Longrightarrow> service_reachable cr h [] (poh_new h ticks_per_slot hashes_per_tick)"
| round: "service_reachable cr h hs r \<Longrightarrow> service_round cr received r = Ok (Running r') \<Longrightarrow>
    service_reachable cr h (hs @ received_hashes received) r'"

lemma service_round_inv:
  "service_round cr received r = Ok (Running r') \<Longrightarrow> poh_inv r \<Longrightarrow> poh_inv r'"
  by (auto simp: service_round_def split: recv.splits result.splits if_splits
      dest: poh_record_inv poh_hash_inv poh_tick_inv)

lemma service_round_records:
  assumes round: "service_round cr received r = Ok (Running r')" and inv: "poh_inv r" and rec: "records cr h hs r"
  shows "records cr h (hs @ received_hashes received) r'"
proof (cases received)
  case (Received t)
  have "poh_record cr t r \<noteq> Err e" for e
    using poh_inv_height [OF inv] count_hash_not_Err
    by (auto simp: poh_record_def Let_def and_then_Err_iff dest: leD)
  then obtain e where "poh_record cr t r = Ok (r', e)"
    using round by (auto simp: Received service_round_def split: result.splits)
  then show ?thesis using records_record rec by (simp add: Received)
next
  case Empty
  then show ?thesis
    using round rec by (auto simp: service_round_def poh_hash_def and_then_Ok_iff split: if_splits
        dest: records_hash_loop records_tick)
qed (use round in \<open>simp add: service_round_def\<close>)

lemma service_reachable_inv: "service_reachable cr h hs r \<Longrightarrow> poh_inv r \<and> records cr h hs r"
proof (induction rule: service_reachable.induct)
  case (start ticks_per_slot hashes_per_tick)
  then show ?case using poh_inv_new by (simp add: records_def poh_new_def)
next
  case (round hs r received r')
  then show ?case using service_round_inv service_round_records by blast
qed

section \<open>Ticks of an idle service\<close>

text \<open>
  A round without a record hashes 128 times and then ticks at most once. When a tick is
  shorter than that, the rest is lost: the node's ticks take 128 hashes, not 8, and so come
  every 800 ms, not every 50 ms as its configuration says.
\<close>

lemma poh_hash_loop_counts:
  "poh_hash_loop cr n r = Ok r' \<Longrightarrow>
     unat (ph_num_hashes r') = unat (ph_num_hashes r) + n \<and>
     unat (ph_hashes_since_last_tick r') = unat (ph_hashes_since_last_tick r) + n"
  by (induction n arbitrary: r) (fastforce simp: count_hash_Ok_iff unat_add_exact)+

lemma idle_round_ticks_once:
  assumes round: "service_round cr Empty r = Ok (Running r')" and short: "ph_hashes_per_tick r \<le> hashes_per_batch"
  shows "unat (ph_num_hashes r') = unat (ph_num_hashes r) + 128"
    and "unat (ph_tick_count r') = unat (ph_tick_count r) + 1"
    and "ph_hashes_since_last_tick r' = 0"
proof -
  obtain r1 where r1: "poh_hash_loop cr 128 r = Ok r1"
    and rest: "(if should_tick r1 then and_then (poh_tick cr r1) (\<lambda>r. Ok (Running r)) else Ok (Running r1)) = Ok (Running r')"
    using round by (auto simp: service_round_def poh_hash_def hashes_per_batch_def)
  note counts = poh_hash_loop_counts [OF r1] and frame = poh_hash_loop_frame [OF r1]
  have due: "ph_hashes_per_tick r1 \<le> ph_hashes_since_last_tick r1"
    using short counts frame by (simp add: word_le_nat_alt hashes_per_batch_def)
  then have "saturating_sub (ph_hashes_per_tick r1) (ph_hashes_since_last_tick r1) = 0"
    by (simp add: word_unat_eq_iff unat_saturating_sub word_le_nat_alt)
  then obtain t where "add_checked (ph_tick_count r1) 1 = (Ok t :: (u64, poh_error) result)"
    and close: "close_slot (r1\<lparr>ph_hashes_since_last_tick := 0, ph_tick_count := t\<rparr>) = Ok r'"
    using rest due by (auto simp: should_tick_def poh_tick_def poh_hash_def Let_def)
  then have t: "unat t = unat (ph_tick_count r1) + 1" by (auto simp: add_checked_Ok unat_add_exact)
  have "ph_num_hashes r' = ph_num_hashes r1" "ph_tick_count r' = t" "ph_hashes_since_last_tick r' = 0"
    using close by (auto simp: close_slot_def split: if_splits)
  with t counts frame show "unat (ph_num_hashes r') = unat (ph_num_hashes r) + 128"
    "unat (ph_tick_count r') = unat (ph_tick_count r) + 1" "ph_hashes_since_last_tick r' = 0" by simp_all
qed

end
