(* ===== verification/Scheduler.thy ===== *)
theory Scheduler
  imports Transactions
begin

text \<open>
  \<^verbatim>\<open>src/scheduler.rs\<close>: a batch is split into groups that may run in parallel. Each pass over
  the remaining transactions, in order, takes those that touch no account the pass already
  writes.
\<close>

section \<open>The scheduling loop\<close>

record transaction_sets =
  ts_read_set :: "pubkey list"
  ts_write_set :: "pubkey list"

definition extract_sets :: "nat \<times> transaction \<Rightarrow> transaction_sets" where
  "extract_sets tx = \<lparr>ts_read_set = read_set (snd tx), ts_write_set = write_set (snd tx)\<rparr>"

text \<open>The two \<^verbatim>\<open>any\<close> tests of the closure given to \<^verbatim>\<open>retain\<close>.\<close>

definition conflicts :: "transaction_sets \<Rightarrow> pubkey list \<Rightarrow> bool" where
  "conflicts sets group_write_set \<longleftrightarrow>
     list_ex (\<lambda>key. key \<in> set group_write_set) (ts_read_set sets) \<or>
     list_ex (\<lambda>key. key \<in> set group_write_set) (ts_write_set sets)"

text \<open>
  One call of \<^verbatim>\<open>retain\<close>: the group's indices and the group's write set grow, the third
  component collects the indices that are retained.
\<close>

fun schedule_pass ::
    "transaction_sets list \<Rightarrow> nat list \<Rightarrow> nat list \<times> pubkey list \<Rightarrow>
     nat list \<times> pubkey list \<times> nat list" where
  "schedule_pass tx_sets [] (idxs, gws) = (idxs, gws, [])"
| "schedule_pass tx_sets (i # remaining) (idxs, gws) =
     (if \<not> conflicts (tx_sets ! i) gws
      then schedule_pass tx_sets remaining (idxs @ [i], ts_write_set (tx_sets ! i) @ gws)
      else (case schedule_pass tx_sets remaining (idxs, gws) of
              (idxs', gws', retained) \<Rightarrow> (idxs', gws', i # retained)))"

lemma conflicts_Nil [simp]: "\<not> conflicts sets []"
  by (simp add: conflicts_def list_ex_iff)

lemma length_schedule_pass:
  "schedule_pass s is (idxs, gws) = (idxs', gws', retained) \<Longrightarrow> length retained \<le> length is"
  by (induction s "is" "(idxs, gws)" arbitrary: idxs gws idxs' gws' retained
      rule: schedule_pass.induct) (fastforce split: if_splits prod.splits)+

lemma schedule_pass_progress:
  "is \<noteq> [] \<Longrightarrow> schedule_pass s is ([], []) = (idxs', gws', retained) \<Longrightarrow>
     length retained < length is"
  by (cases "is") (auto dest: length_schedule_pass simp: less_Suc_eq_le)

function schedule_loop :: "transaction_sets list \<Rightarrow> nat list \<Rightarrow> nat list list \<Rightarrow> nat list list" where
  "schedule_loop tx_sets remaining groups =
     (if remaining = [] then groups
      else (case schedule_pass tx_sets remaining ([], []) of
              (idxs, _, retained) \<Rightarrow>
                schedule_loop tx_sets retained (if idxs \<noteq> [] then groups @ [idxs] else groups)))"
  by pat_completeness auto
termination
proof (relation "measure (\<lambda>(_, remaining, _). length remaining)", goal_cases)
  case 1
  show ?case by simp
next
  case 2
  then show ?case by (auto dest: schedule_pass_progress [OF _ sym])
qed

declare schedule_loop.simps [simp del]

definition schedule :: "(nat \<times> transaction) list \<Rightarrow> (nat \<times> transaction) list list" where
  "schedule txs =
     (if txs = [] then []
      else map (map (\<lambda>i. (fst (txs ! i), snd (txs ! i))))
             (schedule_loop (map extract_sets txs) [0..<length txs] []))"

section \<open>What a pass does\<close>

text \<open>Neither transaction of an ordered pair of a group may touch what the first one writes.\<close>

definition independent :: "transaction_sets \<Rightarrow> transaction_sets \<Rightarrow> bool" where
  "independent s t \<longleftrightarrow> set (ts_write_set s) \<inter> (set (ts_read_set t) \<union> set (ts_write_set t)) = {}"

lemma conflicts_iff:
  "conflicts t ks \<longleftrightarrow> set ks \<inter> (set (ts_read_set t) \<union> set (ts_write_set t)) \<noteq> {}"
  by (auto simp: conflicts_def list_ex_iff)

definition pass_inv :: "transaction_sets list \<Rightarrow> nat list \<Rightarrow> pubkey list \<Rightarrow> bool" where
  "pass_inv s idxs gws \<longleftrightarrow>
     set gws = (\<Union>i \<in> set idxs. set (ts_write_set (s ! i))) \<and>
     sorted_wrt (\<lambda>i j. independent (s ! i) (s ! j)) idxs"

lemma schedule_pass_inv:
  "schedule_pass s is (idxs, gws) = (idxs', gws', retained) \<Longrightarrow> pass_inv s idxs gws \<Longrightarrow>
     pass_inv s idxs' gws' \<and> mset idxs' + mset retained = mset idxs + mset is \<and>
     (\<exists>taken. idxs' = idxs @ taken)"
proof (induction s "is" "(idxs, gws)" arbitrary: idxs gws idxs' gws' retained
    rule: schedule_pass.induct)
  case (1 s idxs gws)
  then show ?case by simp
next
  case (2 s i "is" idxs gws)
  show ?case
  proof (cases "conflicts (s ! i) gws")
    case True
    then obtain r where r: "schedule_pass s is (idxs, gws) = (idxs', gws', r)" "retained = i # r"
      using "2.prems"(1) by (auto split: prod.splits)
    then show ?thesis using "2.hyps"(2) True "2.prems"(2) by fastforce
  next
    case False
    then have "pass_inv s (idxs @ [i]) (ts_write_set (s ! i) @ gws)"
      using "2.prems"(2)
      by (auto simp: pass_inv_def conflicts_iff sorted_wrt_append independent_def)
    with "2.hyps"(1) [OF False] False "2.prems"(1) show ?thesis by fastforce
  qed
qed

text \<open>A transaction is put off only for an account the pass's group writes.\<close>

lemma schedule_pass_retained:
  "schedule_pass s is (idxs, gws) = (idxs', gws', retained) \<Longrightarrow>
     set gws \<subseteq> set gws' \<and> (\<forall>j \<in> set retained. conflicts (s ! j) gws')"
proof (induction s "is" "(idxs, gws)" arbitrary: idxs gws idxs' gws' retained
    rule: schedule_pass.induct)
  case (1 s idxs gws)
  then show ?case by simp
next
  case (2 s i "is" idxs gws)
  show ?case
  proof (cases "conflicts (s ! i) gws")
    case True
    then obtain r where "schedule_pass s is (idxs, gws) = (idxs', gws', r)" "retained = i # r"
      using "2.prems" by (auto split: prod.splits)
    with "2.hyps"(2) True show ?thesis by (fastforce simp: conflicts_iff)
  next
    case False
    with "2.hyps"(1) [OF False] "2.prems" show ?thesis by fastforce
  qed
qed

section \<open>What the loop delivers\<close>

definition groups_ok :: "transaction_sets list \<Rightarrow> nat list list \<Rightarrow> bool" where
  "groups_ok s groups \<longleftrightarrow>
     (\<forall>g \<in> set groups. g \<noteq> [] \<and> sorted_wrt (\<lambda>i j. independent (s ! i) (s ! j)) g)"

lemma schedule_pass_start:
  assumes "is \<noteq> []" and "schedule_pass s is ([], []) = (idxs, gws, retained)"
  shows "idxs \<noteq> []" and "pass_inv s idxs gws" and "mset idxs + mset retained = mset is"
proof -
  have "pass_inv s [] []" by (simp add: pass_inv_def)
  from schedule_pass_inv [OF assms(2) this]
  show "pass_inv s idxs gws" and mset: "mset idxs + mset retained = mset is" by auto
  show "idxs \<noteq> []"
    using schedule_pass_progress [OF assms] mset
    by (metis add_cancel_left_left less_irrefl mset.simps(1) size_mset)
qed

lemma schedule_loop_inv:
  "groups_ok s groups \<Longrightarrow>
     groups_ok s (schedule_loop s remaining groups) \<and>
     mset (concat (schedule_loop s remaining groups)) = mset (concat groups) + mset remaining"
proof (induction s remaining groups rule: schedule_loop.induct)
  case (1 s remaining groups)
  show ?case
  proof (cases "remaining = []")
    case True
    with "1.prems" show ?thesis by (simp add: schedule_loop.simps)
  next
    case False
    obtain idxs gws retained where pass: "schedule_pass s remaining ([], []) = (idxs, gws, retained)"
      by (metis prod_cases3)
    note start = schedule_pass_start [OF False pass]
    have "groups_ok s (groups @ [idxs])"
      using "1.prems" start(1,2) by (auto simp: groups_ok_def pass_inv_def)
    with "1.IH" [OF False pass [symmetric] refl] start(1)
    have IH: "groups_ok s (schedule_loop s retained (groups @ [idxs])) \<and>
        mset (concat (schedule_loop s retained (groups @ [idxs]))) =
        mset (concat (groups @ [idxs])) + mset retained" by simp
    have unf: "schedule_loop s remaining groups = schedule_loop s retained (groups @ [idxs])"
      using False start(1) by (subst schedule_loop.simps) (simp add: pass)
    show ?thesis
      unfolding unf using IH start(3) by (simp add: add.assoc)
  qed
qed

lemma schedule_groups:
  "groups_ok (map extract_sets txs) (schedule_loop (map extract_sets txs) [0..<length txs] [])"
  "mset (concat (schedule_loop (map extract_sets txs) [0..<length txs] [])) = mset [0..<length txs]"
  using schedule_loop_inv [of "map extract_sets txs" "[]" "[0..<length txs]"]
  by (simp_all add: groups_ok_def)

lemma schedule_loop_indices:
  assumes "g \<in> set (schedule_loop (map extract_sets txs) [0..<length txs] [])" and "i \<in> set g"
  shows "i < length txs"
proof -
  have "i \<in> set (concat (schedule_loop (map extract_sets txs) [0..<length txs] []))"
    using assms by auto
  then have "i \<in># mset [0..<length txs]" by (metis schedule_groups(2) set_mset_mset)
  then show ?thesis by simp
qed

lemma schedule_mset: "mset (concat (schedule txs)) = mset txs"
proof (cases "txs = []")
  case False
  let ?loop = "schedule_loop (map extract_sets txs) [0..<length txs] []"
  have sched: "schedule txs = map (map ((!) txs)) ?loop"
    using False by (simp add: schedule_def)
  have "mset (concat (schedule txs)) = image_mset ((!) txs) (mset (concat ?loop))"
    by (simp add: sched map_concat [symmetric])
  also have "\<dots> = mset (map ((!) txs) [0..<length txs])"
    by (simp only: schedule_groups(2) mset_map)
  also have "\<dots> = mset txs" by (simp add: map_nth)
  finally show ?thesis .
qed (simp add: schedule_def)

lemma schedule_group:
  assumes g: "g \<in> set (schedule txs)"
  shows "g \<noteq> [] \<and> sorted_wrt (\<lambda>x y. independent (extract_sets x) (extract_sets y)) g"
proof -
  have "txs \<noteq> []" using g by (auto simp: schedule_def)
  then obtain idxs where idxs: "idxs \<in> set (schedule_loop (map extract_sets txs) [0..<length txs] [])"
    "g = map ((!) txs) idxs" using g by (auto simp: schedule_def)
  have ok: "idxs \<noteq> []" "sorted_wrt (\<lambda>i j. independent (map extract_sets txs ! i) (map extract_sets txs ! j)) idxs"
    using schedule_groups(1) [of txs] idxs(1) by (auto simp: groups_ok_def)
  have lt: "i < length txs" if "i \<in> set idxs" for i
    using schedule_loop_indices idxs(1) that by blast
  have "sorted_wrt (\<lambda>i j. independent (extract_sets (txs ! i)) (extract_sets (txs ! j))) idxs"
    using ok(2) by (rule sorted_wrt_mono_rel [rotated]) (use lt in simp)
  with ok(1) show ?thesis by (simp add: idxs(2) sorted_wrt_map)
qed

end
