(* ===== verification/Core_Properties.thy ===== *)
theory Core_Properties
  imports Wire Base58 Lock_Sections Cost_Model Poh Scheduler
begin

text \<open>
  The properties of the components below the runtime: key text and order, the state root, the
  overlay stores, signatures, account locks, the scheduler, the cost model and proof of
  history, each with a witness on concrete data where it has a hypothesis.
\<close>

section \<open>Keys and the state root\<close>

text \<open>The text of a key parses back to the key, and the order that \<^verbatim>\<open>derive(Ord)\<close> gives keys
  is the lexicographic order of their 32 bytes.\<close>

theorem pubkey_text_and_order:
  "pubkey_from_str bs58_decode (pubkey_to_string bs58_encode k) = Ok k \<and>
   (k < k' \<longleftrightarrow> pubkey_bytes k < pubkey_bytes k')"
  by (simp add: bs58.from_str_to_string pubkey_less_bytes)

text \<open>C23: The state root of the in-memory store depends only on which account each key has, not
  on the order in which the hash map enumerates them.\<close>

theorem root_order_independent:
  assumes "wf_map s" and "wf_map t" and "mem_load s = mem_load t"
    and "mem_get_root_hash cr c s = Ok h"
  shows "mem_get_root_hash cr c t = Ok h"
proof -
  have "map_of s = map_of t" using assms(3) by (simp add: mem_load_def fun_eq_iff)
  then have "mset (mem_all_accounts s) = mset (mem_all_accounts t)"
    using wf_map_same_entries [OF assms(1,2)] by (simp add: mem_all_accounts_def)
  then show ?thesis using assms(4) unfolding mem_get_root_hash_def by (rule hash_accounts_perm_Ok)
qed

definition account_at :: "arr32 \<Rightarrow> u64 \<Rightarrow> account" where
  "account_at w l = (account_default\<lparr>acc_pubkey := Pubkey w, acc_lamports := l\<rparr>)"

lemma root_two_exists:
  "\<exists>h. mem_get_root_hash wire_crypto leaf_codec [(Pubkey 1, account_at 1 5), (Pubkey 2, account_at 2 7)] = Ok h"
  unfolding mem_get_root_hash_def mem_all_accounts_def
  by (rule hash_accounts_nonempty) (auto simp: leaf_codec_def)

theorem root_order_independent_witness:
  "\<exists>h. mem_get_root_hash wire_crypto leaf_codec [(Pubkey 2, account_at 2 7), (Pubkey 1, account_at 1 5)] = Ok h"
proof -
  obtain h where "mem_get_root_hash wire_crypto leaf_codec
      [(Pubkey 1, account_at 1 5), (Pubkey 2, account_at 2 7)] = Ok h"
    using root_two_exists by blast
  then have "mem_get_root_hash wire_crypto leaf_codec
      [(Pubkey 2, account_at 2 7), (Pubkey 1, account_at 1 5)] = Ok h"
    by (rule root_order_independent [rotated 3]) (auto simp: wf_map_def mem_load_def)
  then show ?thesis ..
qed



section \<open>Stores\<close>

text \<open>C24: Flushing an overlay into the in-memory store succeeds, empties the overlay, and makes
  the store hold exactly what the overlay showed.\<close>

theorem overlay_flush_refines:
  assumes "wf_map s" and "wf_map dirty"
  shows "\<exists>s'. overlay_flush mem_store s dirty = Ok (s', []) \<and> wf_map s' \<and>
    mem_load s' = overlay_load mem_load s dirty"
proof -
  obtain s' where "overlay_flush mem_store s dirty = Ok (s', [])" using mem.flush_total by blast
  with mem.flush_load [OF this assms] show ?thesis by (simp add: list_all_iff)
qed

theorem overlay_flush_refines_witness:
  "\<exists>s'. overlay_flush mem_store [(Pubkey 1, account_at 1 5)] [(Pubkey 1, account_at 1 6)] = Ok (s', []) \<and>
     wf_map s' \<and> mem_load s' (Pubkey 1) = Some (account_at 1 6)"
  using overlay_flush_refines [of "[(Pubkey 1, account_at 1 5)]" "[(Pubkey 1, account_at 1 6)]"]
  by (auto simp: wf_map_def overlay_load_def)

text \<open>Committing the overlays of a batch leaves, for every key, what the last overlay that
  wrote it holds, and otherwise the old account.\<close>

theorem commit_last_writer_wins:
  assumes "wf_map s" and "list_all wf_map overlays"
  shows "\<exists>s'. commit_overlays mem_store overlays s = Ok s' \<and> wf_map s' \<and>
    mem_load s' = foldl (++) (mem_load s) (map map_of overlays)"
proof -
  obtain s' where "commit_overlays mem_store overlays s = Ok s'" using mem.commit_total by blast
  with mem.commit_load [OF this assms] show ?thesis by (simp add: list_all_iff)
qed

theorem commit_last_writer_wins_witness:
  "\<exists>s'. commit_overlays mem_store
      [[(Pubkey 1, account_at 1 5)], [(Pubkey 1, account_at 1 6), (Pubkey 2, account_at 2 7)]] [] = Ok s' \<and>
     mem_load s' (Pubkey 1) = Some (account_at 1 6)"
  using commit_last_writer_wins [of "[]"
      "[[(Pubkey 1, account_at 1 5)], [(Pubkey 1, account_at 1 6), (Pubkey 2, account_at 2 7)]]"]
  by (auto simp: wf_map_def)

section \<open>Signatures\<close>

text \<open>C25: The signature check accepts exactly the transactions with no more signatures than keys
  whose every signature verifies, strictly, the serialised message under the key at its place;
  more signatures than keys are a panic.\<close>

theorem signature_check:
  assumes "ser c (tx_message tx) = Some bs"
  shows "(verify_signatures_sync cr c tx = Ok () \<longleftrightarrow>
      length (tx_signatures tx) \<le> length (msg_account_keys (tx_message tx)) \<and>
      (\<forall>i < length (tx_signatures tx). signature_valid cr bs
         (tx_signatures tx ! i, msg_account_keys (tx_message tx) ! i))) \<and>
    (verify_signatures_sync cr c tx = Panic \<longleftrightarrow>
      length (tx_signatures tx) > length (msg_account_keys (tx_message tx)))"
  using assms verify_signatures_sync_Ok [OF assms, of cr]
  by (auto simp: verify_signatures_sync_def serialize_for_signing_def Let_def split: if_splits)

definition signed_tx :: "signature list \<Rightarrow> transaction" where
  "signed_tx sigs = \<lparr>tx_signatures = sigs, tx_message = \<lparr>msg_account_keys = [Pubkey 1, Pubkey 2],
     msg_recent_blockhash = hash_default, msg_instructions = []\<rparr>\<rparr>"

theorem signature_check_witness:
  "verify_signatures_sync wire_crypto message_codec (signed_tx [Signature 1]) = Ok () \<and>
   verify_signatures_sync wire_crypto message_codec (signed_tx [Signature 1, Signature 1]) \<noteq> Ok () \<and>
   verify_signatures_sync wire_crypto message_codec (signed_tx [Signature 1, Signature 2, Signature 3]) = Panic"
proof -
  have ser: "ser message_codec (tx_message (signed_tx sigs)) =
      Some (put_message (tx_message (signed_tx sigs)))" for sigs
    by (simp add: message_codec_def)
  have ok: "verify_signatures_sync wire_crypto message_codec (signed_tx [Signature 1]) = Ok ()"
    using signature_check [OF ser, of wire_crypto "[Signature 1]"]
    by (simp add: signed_tx_def signature_valid_def wire_crypto_def)
  have "\<not> signature_valid wire_crypto (put_message (tx_message (signed_tx [Signature 1, Signature 1])))
      (Signature 1, Pubkey 2)"
    by (simp add: signature_valid_def wire_crypto_def)
  then have "verify_signatures_sync wire_crypto message_codec (signed_tx [Signature 1, Signature 1]) \<noteq> Ok ()"
    using signature_check [OF ser, of wire_crypto "[Signature 1, Signature 1]"]
    by (auto simp: signed_tx_def less_Suc_eq all_conj_distrib)
  with ok signature_check [OF ser, of wire_crypto "[Signature 1, Signature 2, Signature 3]"]
  show ?thesis by (simp add: signed_tx_def)
qed

section \<open>Account locks\<close>

text \<open>C6: In every interleaving of taking and dropping guards, two guards held at the same time
  never overlap on an account one of them writes, and dropping any held guard does not panic.\<close>

theorem locks_exclude:
  assumes "locks_reachable s gs" and "i < length gs" and "j < length gs" and "i \<noteq> j"
  shows "set (lg_write_locks (gs ! i)) \<inter>
      (set (lg_write_locks (gs ! j)) \<union> set (lg_read_locks (gs ! j))) = {} \<and>
    (\<exists>s'. drop_guard (gs ! i) s = Ok s')"
proof
  have inv: "lock_inv s gs" using assms(1) by (rule locks_reachable_inv)
  then have "sorted_wrt compatible gs" by (simp add: lock_inv_def)
  then have "compatible (gs ! i) (gs ! j)"
    by (rule sorted_wrt_nth_sym) (use assms(2-4) in \<open>simp_all add: compatible_sym\<close>)
  then show "guard_writes (gs ! i) \<inter> (guard_writes (gs ! j) \<union> guard_reads (gs ! j)) = {}"
    by (auto simp: compatible_def)
  have split: "take i gs @ gs ! i # drop (Suc i) gs = gs"
    using assms(2) by (rule id_take_nth_drop [symmetric])
  have "lock_inv s (take i gs @ gs ! i # drop (Suc i) gs)" unfolding split by (rule inv)
  then show "\<exists>s'. drop_guard (gs ! i) s = Ok s'" using drop_guard_inv by blast
qed

definition touching :: "(pubkey \<times> bool) list \<Rightarrow> transaction" where
  "touching ks = \<lparr>tx_signatures = [Signature 1], tx_message = \<lparr>msg_account_keys = map fst ks,
     msg_recent_blockhash = hash_default,
     msg_instructions = [\<lparr>ix_program_id = SYSTEM_PROGRAM_ID,
       ix_accounts = map (\<lambda>(k, w). \<lparr>am_pubkey = k, am_is_signer = True, am_is_writable = w\<rparr>) ks,
       ix_data = []\<rparr>]\<rparr>\<rparr>"

lemma declared_touching:
  "declared_keys w (touching ks) = map fst (filter (\<lambda>(k, w'). w' = w) ks)"
  by (induction ks) (auto simp: declared_keys_def touching_def)

lemma btree_set_single: "btree_set [] = []" "btree_set [k] = [k]"
  by (simp_all add: btree_set_def)

definition guard_of :: "pubkey list \<Rightarrow> pubkey list \<Rightarrow> lock_guard" where
  "guard_of ws rs = \<lparr>lg_write_locks = ws, lg_read_locks = rs\<rparr>"

lemma two_guards_reachable:
  "locks_reachable
     \<lparr>write_locks = {Pubkey 1}, read_locks = [Pubkey 2 \<mapsto> 1]\<rparr>
     [guard_of [] [Pubkey 2], guard_of [Pubkey 1] []]"
proof -
  have 1: "locks_reachable \<lparr>write_locks = {Pubkey 1}, read_locks = Map.empty\<rparr> [guard_of [Pubkey 1] []]"
    by (rule locks_reachable.step [OF locks_reachable.start],
        rule acquire [where grp = "[(0, touching [(Pubkey 1, True)])]"])
      (simp add: try_lock_accounts_for_group_def write_keys_to_lock_def read_keys_to_lock_def
        declared_touching btree_set_single locks_new_def guard_of_def)
  show ?thesis
    by (rule locks_reachable.step [OF 1],
        rule acquire [where grp = "[(1, touching [(Pubkey 2, False)])]"])
      (simp add: try_lock_accounts_for_group_def write_keys_to_lock_def read_keys_to_lock_def
        declared_touching btree_set_single guard_of_def add_reader_def)
qed

theorem locks_exclude_witness:
  "set (lg_write_locks (guard_of [Pubkey 1] [])) \<inter> set (lg_read_locks (guard_of [] [Pubkey 2])) = {} \<and>
   (\<exists>s'. drop_guard (guard_of [Pubkey 1] [])
      \<lparr>write_locks = {Pubkey 1}, read_locks = [Pubkey 2 \<mapsto> 1]\<rparr> = Ok s')"
  using locks_exclude [OF two_guards_reachable, of 1 0] by (auto simp: guard_of_def)

text \<open>C28: A group is refused its locks exactly when some guard held at that moment conflicts
  with it, and a refusal or a grant never panics.\<close>

theorem lock_refused_iff_conflict:
  assumes "locks_reachable s gs"
  shows "(try_lock_accounts_for_group grp s = Err LockAccountInUse \<longleftrightarrow>
      (\<exists>g \<in> set gs. \<not> compatible (guard_of (write_keys_to_lock grp) (read_keys_to_lock grp)) g)) \<and>
    try_lock_accounts_for_group grp s \<noteq> Panic"
  using try_lock_Err_iff [OF locks_reachable_inv [OF assms], of grp]
  by (simp add: guard_of_def try_lock_not_Panic)

theorem lock_refused_iff_conflict_witness:
  "try_lock_accounts_for_group [(0, touching [(Pubkey 2, True)])]
     \<lparr>write_locks = {Pubkey 1}, read_locks = [Pubkey 2 \<mapsto> 1]\<rparr> = Err LockAccountInUse"
  using lock_refused_iff_conflict [OF two_guards_reachable, of "[(0, touching [(Pubkey 2, True)])]"]
  by (simp add: write_keys_to_lock_def read_keys_to_lock_def declared_touching btree_set_single
      guard_of_def compatible_def)

text \<open>C26: Threads may take and give back account locks at the same time. Whatever the schedule of
  their sections under the tracked lock, at most one thread is in an operation, and then
  nobody reads; the table between the operations is the one that the finished operations leave
  one after another, each as a whole, and so does everybody who reads it see it; an operation
  that is under way, key by key, will leave what the whole operation makes of that table.\<close>

theorem locking_is_sequential:
  assumes "rw_laws ops rds wr" and "sections_reachable ops table_body locks_new st"
    and "replay (ls_finished st) (locks_new, []) = Some (s, gs)"
  shows "locks_reachable s gs \<and> holders is_writing st \<le> 1 \<and>
    (holders is_writing st = 1 \<longrightarrow> holders is_reading st = 0) \<and>
    (holders is_writing st = 0 \<longrightarrow> guard_deref (ls_lock st) = s) \<and>
    (\<forall>g seen. Reading g seen \<in> set (ls_threads st) \<longrightarrow> seen = s) \<and>
    (\<forall>g grp todo. Writing g (TakeLocks grp) todo \<in> set (ls_threads st) \<longrightarrow>
       fold id todo (guard_deref (ls_lock st)) =
       (case try_lock_accounts_for_group grp s of Ok (s', _) \<Rightarrow> s' | _ \<Rightarrow> s)) \<and>
    (\<forall>g held todo. Writing g (GiveBack held) todo \<in> set (ls_threads st) \<longrightarrow> held \<in> set gs \<longrightarrow>
       drop_guard held s = Ok (fold id todo (guard_deref (ls_lock st))))"
proof -
  have reach: "locks_reachable s gs" by (rule replay_reaches [OF assms(3) locks_reachable.start])
  have inv: "lock_system_inv rds wr table_body locks_new st" by (rule sections_reachable_inv [OF assms(1,2)])
  have final: "run_bodies table_body (ls_finished st) locks_new = s" by (rule replay_value [OF assms(3)])
  then have threads: "thread_ok table_body s (guard_deref (ls_lock st)) t" if "t \<in> set (ls_threads st)" for t
    using inv that by (simp add: lock_system_inv_def guard_deref_def)
  have dropped: "\<exists>s'. drop_guard held s = Ok s'" if "held \<in> set gs" for held
    using drop_guard_inv locks_reachable_inv [OF reach] that by (metis in_set_conv_decomp)
  have counts: "holders is_writing st \<le> 1" "holders is_writing st = 1 \<longrightarrow> holders is_reading st = 0"
    "holders is_writing st = 0 \<longrightarrow> guard_deref (ls_lock st) = s"
    using inv final by (auto simp: lock_system_inv_def guard_deref_def of_bool_def split: if_splits)
  show ?thesis using reach counts threads dropped by (force simp: thread_ok_def take_body dest: give_body)
qed

text \<open>A lock that counts its readers and remembers a writer.\<close>

definition counting_lock :: "(nat \<times> bool) rw_ops" where
  "counting_lock =
     \<lparr>rw_unlocked = (0, False),
      rw_read = (\<lambda>(n, w). if w then None else Some (n + 1, False)),
      rw_write = (\<lambda>(n, w). if w \<or> n \<noteq> 0 then None else Some (0, True)),
      rw_try_write_for = (\<lambda>_ (n, w). if w \<or> n \<noteq> 0 then None else Some (0, True)),
      rw_unlock_read = (\<lambda>(n, w). (n - 1, w)), rw_unlock_write = (\<lambda>(n, w). (n, False))\<rparr>"

lemma counting_lock_laws: "rw_laws counting_lock fst snd"
  by (auto simp: rw_laws_def counting_lock_def split: if_splits)

definition one_write_lock :: "(nat \<times> transaction) list" where
  "one_write_lock = [(0, touching [(Pubkey 1, True)])]"

lemma one_write_lock_taken:
  "table_body (TakeLocks one_write_lock) locks_new = [insert_write (Pubkey 1)]"
  "try_lock_accounts_for_group one_write_lock locks_new =
     Ok (\<lparr>write_locks = {Pubkey 1}, read_locks = Map.empty\<rparr>, guard_of [Pubkey 1] [])"
  by (simp_all add: table_body_def try_lock_accounts_for_group_def write_keys_to_lock_def read_keys_to_lock_def
      declared_touching btree_set_single locks_new_def one_write_lock_def guard_of_def)

lemma one_section:
  "\<exists>st. sections_reachable counting_lock table_body locks_new st \<and> ls_finished st = [TakeLocks one_write_lock] \<and>
     ls_threads st = [Outside, Outside]"
proof -
  let ?l = "tracked_new counting_lock locks_new ''account_locks''"
  let ?g = "\<lparr>tg_name = ''account_locks'', tg_acquired_at = 0\<rparr>" and ?op = "TakeLocks one_write_lock"
  let ?st0 = "\<lparr>ls_lock = ?l, ls_threads = replicate 2 Outside, ls_finished = [], ls_reports = []\<rparr>"
  let ?st1 = "set_thread 0 (Writing ?g ?op [insert_write (Pubkey 1)]) (relock (?l\<lparr>tl_inner := (0, True)\<rparr>) [] ?st0)"
  let ?l2 = "guard_deref_mut (insert_write (Pubkey 1)) (ls_lock ?st1)"
  let ?st2 = "set_thread 0 (Writing ?g ?op []) (relock ?l2 [] ?st1)"
  have "section_step counting_lock table_body ?st0 ?st1"
    using section_step.begin_write [of 0 ?st0 counting_lock 0 0 0 "?l\<lparr>tl_inner := (0, True)\<rparr>" ?g "[]" 0 table_body ?op]
    by (simp add: tracked_write_def acquired_def tracked_new_def counting_lock_def guard_deref_def one_write_lock_taken)
  then have 1: "sections_reachable counting_lock table_body locks_new ?st1"
    by (rule sections_reachable.step [OF sections_reachable.start])
  have 2: "sections_reachable counting_lock table_body locks_new ?st2"
    by (rule sections_reachable.step [OF 1 section_step.change]) simp_all
  let ?st3 = "(set_thread 0 Outside (relock (?l2\<lparr>tl_inner := (0, False)\<rparr>) [] ?st2))
    \<lparr>ls_finished := ls_finished ?st2 @ [?op]\<rparr>"
  have "section_step counting_lock table_body ?st2 ?st3"
    by (rule section_step.end_write [where g = ?g and now = 0])
      (simp_all add: drop_write_guard_def counting_lock_def guard_deref_mut_def)
  then have "sections_reachable counting_lock table_body locks_new ?st3"
    by (rule sections_reachable.step [OF 2])
  then show ?thesis by (rule exI [of _ ?st3, OF conjI]) (simp add: numeral_2_eq_2)
qed

theorem locking_is_sequential_witness:
  "\<exists>st. sections_reachable counting_lock table_body locks_new st \<and> ls_finished st = [TakeLocks one_write_lock] \<and>
     guard_deref (ls_lock st) = \<lparr>write_locks = {Pubkey 1}, read_locks = Map.empty\<rparr>"
proof -
  obtain st where st: "sections_reachable counting_lock table_body locks_new st"
    "ls_finished st = [TakeLocks one_write_lock]" "ls_threads st = [Outside, Outside]"
    using one_section by blast
  have "replay (ls_finished st) (locks_new, []) =
      Some (\<lparr>write_locks = {Pubkey 1}, read_locks = Map.empty\<rparr>, [guard_of [Pubkey 1] []])"
    by (simp add: st(2) one_write_lock_taken)
  from locking_is_sequential [OF counting_lock_laws st(1) this] show ?thesis
    using st by (auto simp: holders_def)
qed

section \<open>The scheduler\<close>

text \<open>C5: Scheduling is a partition: the loop ends, every transaction of the batch is in exactly
  one group, and no group is empty; and of two transactions of a group the later one neither
  reads nor writes what the earlier one writes.\<close>

theorem schedule_partitions:
  "mset (concat (schedule txs)) = mset txs \<and>
   (\<forall>g \<in> set (schedule txs). g \<noteq> [] \<and>
      sorted_wrt (\<lambda>x y. independent (extract_sets x) (extract_sets y)) g)"
  using schedule_mset schedule_group by blast

theorem schedule_partitions_witness:
  "mset (concat (schedule [(0, touching [(Pubkey 1, True)]), (1, touching [(Pubkey 1, False)])])) =
     {#(0, touching [(Pubkey 1, True)]), (1, touching [(Pubkey 1, False)])#}"
  using schedule_partitions [of "[(0, touching [(Pubkey 1, True)]), (1, touching [(Pubkey 1, False)])]"]
  by simp

section \<open>The cost model\<close>

text \<open>C32: The cost of a transaction is exact: 720 units for a signature, 300 for an account it
  writes, 4 for a byte of instruction data and 300 or 200000 for an instruction, with no
  overflow up to the width of the counter, and its sum saturates nowhere.\<close>

theorem cost_is_exact:
  assumes "720 * length (tx_signatures tx) + 300 * length (write_set tx) + 4 * data_len tx
    + execution_units b tx < 2 ^ 64"
  shows "\<exists>tc. calculate_cost b tx = Ok tc \<and> tc_writable_accounts tc = write_set tx \<and>
    unat (cost_sum tc) = 720 * length (tx_signatures tx) + 300 * length (write_set tx)
      + 4 * data_len tx + execution_units b tx"
  using assms by (intro calculate_cost_exact) (simp add: cost_bounded_def)

theorem cost_is_exact_witness:
  "\<exists>tc. calculate_cost cost_model_new (touching [(Pubkey 1, True)]) = Ok tc \<and> unat (cost_sum tc) = 1320"
  using cost_is_exact [of "touching [(Pubkey 1, True)]" cost_model_new]
  by (simp add: write_set_def declared_touching btree_set_single data_len_def execution_units_def)
    (auto simp: touching_def program_units_def cost_model_new_def)


definition small_cost :: "u64 \<Rightarrow> transaction_cost" where
  "small_cost n = \<lparr>tc_signature_cost = n, tc_write_lock_cost = 0, tc_data_cost = 0,
     tc_execution_cost = 0, tc_writable_accounts = [Pubkey 1]\<rparr>"

lemma small_cost_sum [simp]: "cost_sum (small_cost n) = n"
  by (simp add: small_cost_def cost_sum_def)


text \<open>The limit for one writable account is tested only for accounts the tracker already
  knows: the first cost of an account is accepted at any size up to the block limit.\<close>

theorem first_charge_escapes_account_limit:
  assumes "\<forall>k \<in> set (tc_writable_accounts tc). map_of (ct_cost_by_writable_accounts ct) k = None"
    and "unat (ct_block_cost ct) + unat (cost_sum tc) \<le> unat (ct_block_cost_limit ct)"
  shows "would_fit ct tc = Ok ()"
  using assms by (auto simp: would_fit_Ok_iff fits_account_def list_all_iff word_le_nat_alt
      unat_saturating_add)

theorem first_charge_escapes_account_limit_witness:
  "MAX_WRITABLE_ACCOUNT_UNITS < cost_sum (small_cost 50000000) \<and>
   would_fit (cost_tracker_new MAX_BLOCK_UNITS MAX_WRITABLE_ACCOUNT_UNITS) (small_cost 50000000) = Ok ()"
  using first_charge_escapes_account_limit [of "small_cost 50000000"
      "cost_tracker_new MAX_BLOCK_UNITS MAX_WRITABLE_ACCOUNT_UNITS"]
  by (simp add: cost_tracker_new_def cost_constants)

section \<open>Proof of history\<close>

text \<open>Hashing \<open>n\<close> times extends the chain by \<open>n\<close> digests, counts them, and panics nowhere
  while the counters have room.\<close>

theorem hash_chain:
  assumes "unat (ph_num_hashes r) + unat n < 2 ^ 64"
    and "unat (ph_hashes_since_last_tick r) + unat n < 2 ^ 64"
  shows "poh_hash cr n r = Ok (r\<lparr>ph_current_hash := (hash_once cr ^^ unat n) (ph_current_hash r),
      ph_num_hashes := ph_num_hashes r + n,
      ph_hashes_since_last_tick := ph_hashes_since_last_tick r + n\<rparr>)"
  using poh_hash_loop_Ok [OF assms, of cr] by (simp add: poh_hash_def)

theorem hash_chain_witness:
  "poh_hash wire_crypto 2 (poh_new (Hash 1) 64 100) = Ok ((poh_new (Hash 1) 64 100)
     \<lparr>ph_current_hash := hash_once wire_crypto (hash_once wire_crypto (Hash 1)),
      ph_num_hashes := 2, ph_hashes_since_last_tick := 2\<rparr>)"
proof -
  have "(f ^^ 2) x = f (f x)" for f :: "hash \<Rightarrow> hash" and x by (simp add: numeral_2_eq_2)
  then show ?thesis
    using hash_chain [of "poh_new (Hash 1) 64 100" 2 wire_crypto] by (simp add: poh_new_def)
qed

text \<open>C37: In every state the service reaches the slot is the number of ticks divided by the ticks
  of a slot and the height limit is the end of that slot, so a record is never refused for
  its height, and the hashes received are all in the chain the recorder shows: its hash is the
  fold of exactly as many events as it counts, and the hashes mixed in are those received, in
  their order.\<close>

theorem service_slots_follow_ticks:
  assumes "service_reachable cr h hs r"
  shows "unat (ph_slot r) = unat (ph_tick_count r) div unat (ph_ticks_per_slot r) \<and>
    unat (ph_max_tick_height r) = (unat (ph_slot r) + 1) * unat (ph_ticks_per_slot r) \<and>
    poh_record cr th r \<noteq> Err MaxHeightReached \<and>
    (\<exists>evs. mixed evs = hs \<and> ph_current_hash r = chain cr h evs \<and> unat (ph_num_hashes r) = length evs)"
proof -
  have inv: "poh_inv r" and rec: "records cr h hs r" using service_reachable_inv [OF assms] by blast+
  then have "poh_record cr th r \<noteq> Err MaxHeightReached"
    using poh_inv_height count_hash_not_Err
    by (auto simp: poh_record_def Let_def and_then_Err_iff dest: leD)
  with inv rec show ?thesis by (simp add: poh_inv_def records_def)
qed

lemma two_records:
  "service_reachable wire_crypto (Hash 0) [Hash a, Hash b] ((poh_new (Hash 0) 64 100)
     \<lparr>ph_current_hash := Hash (of_be_bytes (rev (be_bytes 32 b))), ph_num_hashes := 2,
      ph_hashes_since_last_tick := 2\<rparr>)"
proof -
  let ?r = "\<lambda>t n. (poh_new (Hash 0) 64 100)\<lparr>ph_current_hash := Hash (of_be_bytes (rev (be_bytes 32 t))),
    ph_num_hashes := n, ph_hashes_since_last_tick := n\<rparr>"
  have "service_round wire_crypto (Received (Hash a)) (poh_new (Hash 0) 64 100) = Ok (Running (?r a 1))"
    by (simp add: service_round_def poh_record_def poh_new_def count_hash_def add_checked_def wire_crypto_def Let_def)
  moreover have "service_round wire_crypto (Received (Hash b)) (?r a 1) = Ok (Running (?r b 2))"
    by (simp add: service_round_def poh_record_def poh_new_def count_hash_def add_checked_def wire_crypto_def Let_def)
  ultimately show ?thesis
    using service_reachable.round [OF service_reachable.round [OF service_reachable.start [of 64]]] by fastforce
qed

theorem service_slots_follow_ticks_witness:
  "\<exists>r evs. mixed evs = [Hash 1, Hash 3] \<and> length evs = 2 \<and> ph_current_hash r = chain wire_crypto (Hash 0) evs \<and>
     poh_record wire_crypto (Hash 3) r \<noteq> Err MaxHeightReached"
  using service_slots_follow_ticks [OF two_records [of 1 3], of "Hash 3"] by fastforce

text \<open>C27: The hash binds the history. Two services that started from one hash and show the same hash and
  the same count have received the same hashes at the same places in the chain, or the two
  chains contain two different inputs, at the same place, with one SHA-256 value.\<close>

theorem history_binding:
  assumes "service_reachable cr h hs r" and "service_reachable cr h hs' r'"
    and "ph_current_hash r = ph_current_hash r'" and "ph_num_hashes r = ph_num_hashes r'"
  shows "\<exists>evs evs'. mixed evs = hs \<and> mixed evs' = hs' \<and>
    length evs = unat (ph_num_hashes r) \<and> length evs' = unat (ph_num_hashes r) \<and>
    chain cr h evs = ph_current_hash r \<and> chain cr h evs' = ph_current_hash r \<and>
    (evs = evs' \<or> (\<exists>i < length evs. collide_at cr h evs evs' i))"
proof -
  have "records cr h hs r" "records cr h hs' r'" using assms(1,2) service_reachable_inv by blast+
  then obtain evs evs' where evs: "mixed evs = hs" "ph_current_hash r = chain cr h evs" "unat (ph_num_hashes r) = length evs"
    and evs': "mixed evs' = hs'" "ph_current_hash r' = chain cr h evs'" "unat (ph_num_hashes r') = length evs'"
    by (auto simp: records_def)
  then show ?thesis
    using chain_binds [of evs evs' cr h] assms(3,4) by (intro exI [of _ evs] exI [of _ evs']) simp
qed

theorem history_binding_witness:
  "\<exists>evs evs' i. mixed evs = [Hash 1, Hash 3] \<and> mixed evs' = [Hash 2, Hash 3] \<and> i < 2 \<and>
     collide_at wire_crypto (Hash 0) evs evs' i"
  using history_binding [OF two_records [of 1 3] two_records [of 2 3]] by fastforce

end
