(* ===== verification/Program_Properties.thy ===== *)
theory Program_Properties
  imports Wire
begin

text \<open>
  The properties of the runtime and of the three native programs, each with a witness on
  concrete accounts and instructions, encoded as the layout of \<^verbatim>\<open>Wire\<close> does.
\<close>

section \<open>Data for the witnesses\<close>

definition acct :: "arr32 \<Rightarrow> u64 \<Rightarrow> bytes \<Rightarrow> account" where
  "acct w l d = account_default\<lparr>acc_pubkey := Pubkey w, acc_lamports := l, acc_data := d\<rparr>"

definition info_at :: "arr32 \<Rightarrow> nat \<Rightarrow> bool \<Rightarrow> account_info" where
  "info_at w i signer = \<lparr>ai_pubkey = Pubkey w, ai_is_signer = signer, ai_is_writable = True,
     ai_account = i, ai_executable = False, ai_rent_epoch = 0\<rparr>"

definition ctx_with :: "pubkey \<Rightarrow> bytes \<Rightarrow> invoke_context" where
  "ctx_with k d = invoke_context_new k d [] 1000"

lemma acct_sel [simp]:
  "acc_pubkey (acct w l d) = Pubkey w" "acc_lamports (acct w l d) = l" "acc_data (acct w l d) = d"
  by (simp_all add: acct_def)

lemma info_at_sel [simp]:
  "ai_pubkey (info_at w i s) = Pubkey w" "ai_is_signer (info_at w i s) = s" "ai_account (info_at w i s) = i"
  by (simp_all add: info_at_def)

lemma ctx_data [simp]: "ic_instruction_data (ctx_with k d) = d"
  by (simp add: ctx_with_def invoke_context_new_def)

section \<open>The runtime\<close>



text \<open>C21: No BPF program ever succeeds, whatever the virtual machine does: reporting consumed
  units to the compute meter panics, and a run that ends with code 0 is reported.\<close>

theorem bpf_never_succeeds:
  "consume amount c = Panic \<and> fst (rbpf_execute vm ix c infos h cache) \<noteq> Ok r"
  by (simp add: rbpf_never_Ok)



text \<open>C3: An instruction that succeeds ran a native program, keeps the keys of all accounts, and
  leaves no more lamports than there were.\<close>

theorem instructions_create_no_lamports:
  assumes "fst (execute_program env ix c infos h cache) = Ok (c', h')" and "infos_wf infos h"
    and "total_lamports h < 2 ^ 64"
  shows "is_native (ix_program_id ix) \<and> map acc_pubkey h' = map acc_pubkey h \<and>
    total_lamports h' \<le> total_lamports h"
proof -
  have "fst (chained_execute env (execute_program env) ix c infos h cache) = Ok (c', h')"
    using assms(1) by (simp flip: execute_program_unfold)
  then have "is_native (ix_program_id ix)" by (rule chained_Ok)
  with executor_soundD [OF execute_program_sound assms(2,1)] assms(3) show ?thesis
    by (simp add: sound_step_def)
qed

definition transfer_ix :: "u64 \<Rightarrow> instruction" where
  "transfer_ix n = \<lparr>ix_program_id = SYSTEM_PROGRAM_ID, ix_accounts = [],
     ix_data = put_system (SystemTransfer n)\<rparr>"

lemma transfer_runs:
  "system_entrypoint system_codec (ctx_with k (put_system (SystemTransfer 3)))
     [info_at 1 0 True, info_at 2 1 False] [acct 1 5 [], acct 2 6 []] = Ok [acct 1 2 [], acct 2 9 []]"
  by (simp add: system_entrypoint_def system_transfer_def move_lamports_def heap_ops acct_def
      saturating_sub_def saturating_add_def)

lemma transfer_executes:
  "execute_program wire_env (transfer_ix 3) (ctx_with k (put_system (SystemTransfer 3)))
     [info_at 1 0 True, info_at 2 1 False] [acct 1 5 [], acct 2 6 []] cache =
   (Ok (ctx_with k (put_system (SystemTransfer 3)), [acct 1 2 [], acct 2 9 []]), cache)"
  by (simp add: executor_at_Suc_system transfer_ix_def transfer_runs wire_env_def with_ctx_def
      lift_result_def del: One_nat_def)

lemma two_accounts:
  "infos_wf [info_at 1 0 True, info_at 2 1 False] [acct 1 5 [], acct 2 6 []]"
  "total_lamports [acct 1 5 [], acct 2 6 []] = 11"
  by (simp_all add: infos_wf_def total_lamports_def)

theorem instructions_create_no_lamports_witness:
  "total_lamports [acct 1 2 [], acct 2 9 []] \<le> total_lamports [acct 1 5 [], acct 2 6 []]"
proof -
  have "fst (execute_program wire_env (transfer_ix 3)
      (ctx_with SYSTEM_PROGRAM_ID (put_system (SystemTransfer 3))) [info_at 1 0 True, info_at 2 1 False]
      [acct 1 5 [], acct 2 6 []] []) =
    Ok (ctx_with SYSTEM_PROGRAM_ID (put_system (SystemTransfer 3)), [acct 1 2 [], acct 2 9 []])"
    by (simp only: transfer_executes fst_conv)
  from instructions_create_no_lamports [OF this two_accounts(1)] show ?thesis
    by (simp add: two_accounts(2))
qed

section \<open>The system program\<close>

text \<open>C20: A successful system instruction conserves the lamports of the transaction's accounts,
  and an account none of whose infos is a signer loses no lamports and keeps every other
  field.\<close>

theorem system_program_safe:
  assumes "system_entrypoint c ctx infos h = Ok h'" and "infos_wf infos h"
    and "total_lamports h < 2 ^ 64" and "i < length h" and "\<not> signed infos i"
  shows "total_lamports h' = total_lamports h \<and> acc_lamports (h ! i) \<le> acc_lamports (h' ! i) \<and>
    (h' ! i)\<lparr>acc_lamports := acc_lamports (h ! i)\<rparr> = h ! i"
  using system_entrypoint_total [OF assms(1-3)] system_entrypoint_unsigned [OF assms(1,4,5)] by blast

theorem system_program_safe_witness:
  "total_lamports [acct 1 2 [], acct 2 9 []] = total_lamports [acct 1 5 [], acct 2 6 []] \<and>
   acc_lamports (acct 2 6 []) \<le> acc_lamports (acct 2 9 [])"
  using system_program_safe [OF transfer_runs two_accounts(1), of 1]
  by (simp add: two_accounts(2) signed_def)

text \<open>Creating an account from one cell into another, both signers, with enough lamports,
  moves the lamports, zeroes the data at the requested size and sets the owner; a size over
  the largest a vector can have panics.\<close>

theorem create_account_effect:
  assumes "ai_is_signer from" and "ai_is_signer to" and "ai_account from \<noteq> ai_account to"
    and "ai_account from < length h" and "ai_account to < length h"
    and "lamports \<le> acc_lamports (cell h from)"
  shows "system_create_account lamports space owner [from, to] h =
    (if unat space < 2 ^ 63
     then Ok (h[ai_account from := (cell h from)
                  \<lparr>acc_lamports := acc_lamports (cell h from) - lamports\<rparr>,
                ai_account to := (cell h to)
                  \<lparr>acc_lamports := saturating_add (acc_lamports (cell h to)) lamports,
                   acc_data := replicate (unat space) 0, acc_owner := owner\<rparr>])
     else Panic)"
proof -
  obtain h1 where mv: "move_lamports from to lamports h = Ok h1"
    by (simp add: move_lamports_def heap_ops)
  have h1: "h1 = h[ai_account from := (cell h from)
        \<lparr>acc_lamports := saturating_sub (acc_lamports (cell h from)) lamports\<rparr>,
      ai_account to := (cell h to)\<lparr>acc_lamports := saturating_add (acc_lamports (cell h to)) lamports\<rparr>]"
    using mv assms(3-5) by (simp add: move_lamports_def heap_ops)
  have "length h1 = length h" by (simp add: h1)
  with assms mv show ?thesis
    by (simp add: system_create_account_def vec_zeroes_def ai_lamports_def set_data_def set_owner_def
        cell_def not_less [symmetric] saturating_sub_def h1)
qed

theorem create_account_effect_witness:
  "system_create_account 3 2 (Pubkey 9) [info_at 1 0 True, info_at 2 1 True] [acct 1 5 [], acct 2 6 []] =
     Ok [acct 1 2 [], (acct 2 9 [0, 0])\<lparr>acc_owner := Pubkey 9\<rparr>] \<and>
   system_create_account 3 0x8000000000000000 (Pubkey 9) [info_at 1 0 True, info_at 2 1 True] [acct 1 5 [], acct 2 6 []] = Panic"
proof -
  let ?infos = "[info_at 1 0 True, info_at 2 1 True]" and ?h = "[acct 1 5 [], acct 2 6 []]"
  have "replicate 2 0 = [0 :: u8, 0]" by (simp add: numeral_2_eq_2)
  then show ?thesis
    using create_account_effect [of "info_at 1 0 True" "info_at 2 1 True" ?h 3 2 "Pubkey 9"]
      create_account_effect [of "info_at 1 0 True" "info_at 2 1 True" ?h 3 "0x8000000000000000" "Pubkey 9"]
    by (simp add: cell_def acct_def saturating_add_def)
qed

section \<open>The token program\<close>

text \<open>C10: A token transfer refines the ledger: decoding the accounts before and after gives the
  abstract transfer, with the same error on every branch and no panic.\<close>

theorem transfer_refines_ledger:
  assumes "token_laws tc" and "infos_wf infos h"
  shows "abs_result (ledger tc) (token_transfer tc amount infos h) =
    spec_transfer amount infos (ledger tc h)"
  using assms by (rule transfer_refines)

definition holds :: "arr32 \<Rightarrow> arr32 \<Rightarrow> u64 \<Rightarrow> bytes" where
  "holds m w n = put_token_account
     \<lparr>ta_mint = Pubkey m, ta_owner = Pubkey w, ta_amount = n, ta_is_initialized = True\<rparr>"

definition wallets :: "u64 \<Rightarrow> u64 \<Rightarrow> heap" where
  "wallets m n = [acct 1 0 [], acct 2 0 (holds 7 1 m), acct 3 0 (holds 7 5 n)]"

definition wallet_infos :: "account_info list" where
  "wallet_infos = [info_at 1 0 True, info_at 2 1 False, info_at 3 2 False]"

lemma wallets_wf [simp]: "infos_wf wallet_infos (wallets m n)"
  by (simp add: infos_wf_def wallet_infos_def wallets_def)

lemma unpack_wallet [simp]:
  "unpack_info (tc_account wire_token) i h =
     (case de token_account_codec (acc_data (cell h i)) of
        Some a \<Rightarrow> Ok a | None \<Rightarrow> Err InvalidAccountData)"
  by (simp add: unpack_info_def unpack_from_slice_def try_borrow_data_def wire_token_def
      split: option.splits)

lemma length_holds [simp]: "length (holds m w n) = 73"
  by (simp add: holds_def put_token_account_def)

lemma de_holds [simp]: "de token_account_codec (holds m w n) =
    Some \<lparr>ta_mint = Pubkey m, ta_owner = Pubkey w, ta_amount = n, ta_is_initialized = True\<rparr>"
  by (simp add: holds_def)

lemma pack_wallet:
  "length (acc_data (cell h i)) = 73 \<Longrightarrow>
   pack_info (tc_account wire_token)
     \<lparr>ta_mint = Pubkey m, ta_owner = Pubkey w, ta_amount = n, ta_is_initialized = True\<rparr> i h =
   Ok (h[ai_account i := (cell h i)\<lparr>acc_data := holds m w n\<rparr>])"
  by (simp add: pack_info_def pack_into_slice_def try_borrow_data_def set_data_def wire_token_def
      token_account_codec_def holds_def put_token_account_def)

lemma wallet_transfer: "token_transfer wire_token 4 wallet_infos (wallets 10 20) = Ok (wallets 6 24)"
  by (simp add: token_transfer_def wallet_infos_def wallets_def Let_def cell_def pack_wallet
      saturating_sub_def saturating_add_def acct_def)

theorem transfer_refines_ledger_witness:
  "spec_transfer 4 wallet_infos (ledger wire_token (wallets 10 20)) =
     Ok (ledger wire_token (wallets 6 24))"
  using transfer_refines_ledger [OF wire_token_laws wallets_wf, of 4 10 20]
  by (simp add: wallet_transfer)

text \<open>C11: Minting refines the ledger: the authority's signature, the mint's supply and the
  destination's amount, with the same error on every branch and no panic.\<close>

theorem mint_refines_ledger:
  assumes "token_laws tc" and "infos_wf infos h"
  shows "abs_result (ledger tc) (token_mint tc amount infos h) =
    spec_mint amount infos (ledger tc h)"
  using assms by (rule mint_refines)

lemma wallets_no_mint: "decoded mint_codec (wallets m n) 1 = None"
proof (cases "decoded mint_codec (wallets m n) 1")
  case (Some x)
  then have "length (holds 7 1 m) = MINT_LEN"
    using decoded_length [OF mint_codec.packable_axioms Some] by (simp add: wallets_def)
  then show ?thesis by (simp add: MINT_LEN_def)
qed simp

theorem mint_refines_ledger_witness:
  "token_mint wire_token 4 wallet_infos (wallets 10 20) = Err InvalidAccountData"
proof -
  have "spec_mint 4 wallet_infos (ledger wire_token (wallets 10 20)) = Err InvalidAccountData"
    using wallets_no_mint [of 10 20]
    by (simp add: spec_mint_def wallet_infos_def Let_def wire_token_def)
  then have "abs_result (ledger wire_token) (token_mint wire_token 4 wallet_infos (wallets 10 20)) =
      Err InvalidAccountData"
    using mint_refines_ledger [OF wire_token_laws wallets_wf, of 4 10 20] by simp
  then show ?thesis by (auto simp: abs_result_def and_then_Err_iff)
qed

text \<open>C12: A transfer between two accounts conserves the tokens of every mint, as long as the
  destination has room for the amount.\<close>

theorem transfer_conserves_tokens:
  assumes "token_laws tc" and "infos_wf infos h"
    and "token_transfer tc amount infos h = Ok h'"
    and "ai_account (infos ! 1) \<noteq> ai_account (infos ! 2)"
    and "\<And>dst. decoded (tc_account tc) h (ai_account (infos ! 2)) = Some dst \<Longrightarrow>
      unat (ta_amount dst) + unat amount < 2 ^ 64"
  shows "tokens_held tc m h' = tokens_held tc m h"
  using assms by (rule transfer_conserves)

lemma wallet_decoded:
  "decoded (tc_account wire_token) (wallets m n) 2 =
     Some \<lparr>ta_mint = Pubkey 7, ta_owner = Pubkey 5, ta_amount = n, ta_is_initialized = True\<rparr>"
  by (simp add: decoded_def wallets_def wire_token_def)

theorem transfer_conserves_tokens_witness:
  "tokens_held wire_token (Pubkey 7) (wallets 6 24) = tokens_held wire_token (Pubkey 7) (wallets 10 20)"
proof (rule transfer_conserves_tokens [OF wire_token_laws wallets_wf wallet_transfer])
  show "ai_account (wallet_infos ! 1) \<noteq> ai_account (wallet_infos ! 2)"
    by (simp add: wallet_infos_def)
  fix dst
  assume "decoded (tc_account wire_token) (wallets 10 20) (ai_account (wallet_infos ! 2)) = Some dst"
  then show "unat (ta_amount dst) + unat (4 :: u64) < 2 ^ 64"
    by (auto simp: wallet_infos_def wallet_decoded)
qed

text \<open>C38: A transfer whose source and destination are one account creates tokens: the balance
  grows by the amount, because the second write is the destination's.\<close>

theorem self_transfer_creates_tokens:
  assumes "token_laws tc" and "infos_wf infos h" and "token_transfer tc amount infos h = Ok h'"
    and "ai_account (infos ! 1) = ai_account (infos ! 2)"
  shows "\<exists>a. decoded (tc_account tc) h (ai_account (infos ! 1)) = Some a \<and>
    decoded (tc_account tc) h' (ai_account (infos ! 1)) =
      Some (a\<lparr>ta_amount := saturating_add (ta_amount a) amount\<rparr>)"
  by (rule transfer_Ok [OF assms(1-3)]) (use assms(4) in auto)

theorem self_transfer_creates_tokens_witness:
  "\<exists>h' a. token_transfer wire_token 4 [info_at 1 0 True, info_at 2 1 False, info_at 2 1 False]
      (wallets 10 20) = Ok h' \<and>
     decoded (tc_account wire_token) h' 1 = Some a \<and> ta_amount a = 14"
proof -
  let ?infos = "[info_at 1 0 True, info_at 2 1 False, info_at 2 1 False]"
  have ok: "token_transfer wire_token 4 ?infos (wallets 10 20) = Ok (wallets 14 20)"
    by (simp add: token_transfer_def wallets_def Let_def cell_def pack_wallet
        saturating_sub_def saturating_add_def acct_def)
  moreover have "infos_wf ?infos (wallets 10 20)" by (simp add: infos_wf_def wallets_def)
  ultimately have "\<exists>a. decoded (tc_account wire_token) (wallets 10 20) 1 = Some a \<and>
      decoded (tc_account wire_token) (wallets 14 20) 1 =
        Some (a\<lparr>ta_amount := saturating_add (ta_amount a) 4\<rparr>)"
    using self_transfer_creates_tokens [OF wire_token_laws _ ok] by simp
  moreover have "decoded (tc_account wire_token) (wallets n 20) 1 =
      Some \<lparr>ta_mint = Pubkey 7, ta_owner = Pubkey 1, ta_amount = n, ta_is_initialized = True\<rparr>" for n
    by (simp add: decoded_def wallets_def wire_token_def)
  ultimately show ?thesis using ok by (auto simp: saturating_add_def)
qed

text \<open>A mint is initialised once: a successful initialisation found it uninitialised, sets
  the authority, the decimals and a supply of zero, and any later initialisation of that
  account, with any accounts and any rent, fails.\<close>

theorem mint_initialised_once:
  assumes "token_laws tc" and "ai_account (infos ! 0) < length h"
    and "token_initialize_mint tc sv decimals authority infos h = Ok h'"
    and "ai_account (infos' ! 0) = ai_account (infos ! 0)"
  shows "decoded (tc_mint tc) h' (ai_account (infos ! 0)) =
      Some \<lparr>mint_authority = authority, mint_supply = 0, mint_decimals = decimals,
            mint_is_initialized = True\<rparr> \<and>
    \<not> is_ok (token_initialize_mint tc sv' decimals' authority' infos' h')"
proof -
  have dec: "decoded (tc_mint tc) h' (ai_account (infos ! 0)) =
      Some \<lparr>mint_authority = authority, mint_supply = 0, mint_decimals = decimals,
            mint_is_initialized = True\<rparr>"
    using initialize_mint_Ok(2) [OF assms(1-3)] by simp
  have "length h' = length h" using token_operations_only_data(3) [OF assms(3)] by (rule only_data_length)
  then have i: "ai_account (infos' ! 0) < length h'" using assms(2,4) by simp
  have "token_initialize_mint tc sv' decimals' authority' infos' h' \<noteq> Ok h''" for h''
  proof
    assume "token_initialize_mint tc sv' decimals' authority' infos' h' = Ok h''"
    then obtain old where "decoded (tc_mint tc) h' (ai_account (infos' ! 0)) = Some old"
      "\<not> mint_is_initialized old"
      using initialize_mint_Ok(1) [OF assms(1) i] by blast
    with dec assms(4) show False by auto
  qed
  with dec show ?thesis by (auto simp: is_ok_iff)
qed

definition blank_mint :: bytes where
  "blank_mint = put_mint \<lparr>mint_authority = pubkey_default, mint_supply = 0, mint_decimals = 0,
     mint_is_initialized = False\<rparr>"

lemma length_put_mint [simp]: "length (put_mint m) = 42"
  by (simp add: put_mint_def)

lemma pack_mint:
  "length (acc_data (cell h i)) = 42 \<Longrightarrow>
   pack_info mint_codec m i h = Ok (h[ai_account i := (cell h i)\<lparr>acc_data := put_mint m\<rparr>])"
  by (simp add: pack_info_def pack_into_slice_def try_borrow_data_def set_data_def
      mint_codec_def)

lemma wire_token_sel [simp]:
  "tc_instruction wire_token = token_codec" "tc_mint wire_token = mint_codec"
  "tc_account wire_token = token_account_codec"
  by (simp_all add: wire_token_def)

lemma mint_initialises:
  "\<exists>h'. token_initialize_mint wire_token wire_sysvars 6 (Pubkey 1) [info_at 2 0 False, info_at 3 1 False]
     [acct 2 500 blank_mint, acct 3 0 (le_bytes 8 (1 :: u64))] = Ok h'"
  by (simp add: token_initialize_mint_def try_borrow_data_def cell_def pack_mint ai_lamports_def
      blank_mint_def unpack_info_def unpack_from_slice_def Let_def wire_sysvars_def
      del: and_then_Ok_iff)

theorem mint_initialised_once_witness:
  "\<exists>h'. token_initialize_mint wire_token wire_sysvars 6 (Pubkey 1) [info_at 2 0 False, info_at 3 1 False]
      [acct 2 500 blank_mint, acct 3 0 (le_bytes 8 (1 :: u64))] = Ok h' \<and>
    \<not> is_ok (token_initialize_mint wire_token wire_sysvars 6 (Pubkey 9)
      [info_at 2 0 False, info_at 3 1 False] h')"
proof -
  let ?infos = "[info_at 2 0 False, info_at 3 1 False]"
  obtain h' where ok: "token_initialize_mint wire_token wire_sysvars 6 (Pubkey 1) ?infos
      [acct 2 500 blank_mint, acct 3 0 (le_bytes 8 (1 :: u64))] = Ok h'"
    using mint_initialises by blast
  from mint_initialised_once [OF wire_token_laws _ ok, of ?infos wire_sysvars] ok show ?thesis by simp
qed

text \<open>The token program does not panic by itself: minting, transferring and both
  initialisations end in a result or an error on any accounts.\<close>

theorem token_program_does_not_panic:
  assumes "token_laws tc" and "infos_wf infos h"
  shows "token_mint tc amount infos h \<noteq> Panic \<and> token_transfer tc amount infos h \<noteq> Panic \<and>
    token_initialize_mint tc sv decimals authority infos h \<noteq> Panic \<and>
    token_initialize_account tc sv infos h \<noteq> Panic"
  using token_operations_not_Panic [OF assms] by blast

theorem token_program_does_not_panic_witness:
  "token_transfer wire_token 1000 wallet_infos (wallets 10 20) \<noteq> Panic"
  using token_program_does_not_panic [OF wire_token_laws wallets_wf, of 1000 10 20 wire_sysvars] by blast

section \<open>The upgradeable loader\<close>

text \<open>A write to a buffer succeeds only for the buffer's authority, which signed, and changes
  exactly the bytes from offset 37 on that it names: the state in front and every other
  account stay.\<close>

theorem buffer_write_exact:
  assumes "loader_layout c" and "loader_write c offset bytes infos h = Ok h'"
    and "ai_account (infos ! 0) < length h"
  shows "de c (acc_data (cell h (infos ! 0))) = Some (Buffer (Some (ai_pubkey (infos ! 1)))) \<and>
    ai_is_signer (infos ! 1) \<and>
    h' = h[ai_account (infos ! 0) := (cell h (infos ! 0))\<lparr>acc_data :=
       take (37 + unat offset) (acc_data (cell h (infos ! 0))) @ bytes @
       drop (37 + unat offset + length bytes) (acc_data (cell h (infos ! 0)))\<rparr>]"
  using loader_layout.write_Ok [OF assms] by blast

definition buffer_with :: "pubkey option \<Rightarrow> bytes \<Rightarrow> bytes" where
  "buffer_with a code = put_state (Buffer a) @ code"

lemma length_state_key [simp]: "length (put_state (Buffer (Some k))) = 37"
  by (simp add: put_state.simps put_option_def)

lemma de_buffer [simp]: "de state_codec (buffer_with a code) = Some (Buffer a)"
  by (simp add: buffer_with_def)

lemma drop_buffer: "drop (37 + n) (buffer_with (Some k) code) = drop n code"
  by (simp add: buffer_with_def)

lemma take_buffer: "take (37 + n) (buffer_with (Some k) code) = buffer_with (Some k) (take n code)"
  by (simp add: buffer_with_def)

lemma write_runs:
  "\<exists>h'. loader_write state_codec 1 [9, 9] [info_at 2 0 False, info_at 5 1 True]
     [acct 2 1 (buffer_with (Some (Pubkey 5)) [1, 2, 3, 4]), acct 5 0 []] = Ok h'"
proof -
  have pack: "pack_into_account state_codec (Buffer (Some (Pubkey 5))) (info_at 2 0 False)
      [acct 2 1 (buffer_with (Some (Pubkey 5)) [1, 9, 9, 4]), acct 5 0 []] =
    Ok [acct 2 1 (buffer_with (Some (Pubkey 5)) [1, 9, 9, 4]), acct 5 0 []]"
    by (rule state_codec.pack_same) (simp add: cell_def)
  have "copy_into (buffer_with (Some (Pubkey 5)) [1, 2, 3, 4]) 38 [9, 9] =
      Ok (buffer_with (Some (Pubkey 5)) [1, 9, 9, 4])"
    using drop_buffer [of 3] take_buffer [of 1] by (simp add: copy_into_def buffer_with_def)
  then show ?thesis
    using pack
    by (simp add: loader_write_def try_borrow_data_def cell_def state_codec.buffer_metadata set_data_def
        Let_def acct_def buffer_with_def)
qed

theorem buffer_write_exact_witness:
  "loader_write state_codec 1 [9, 9] [info_at 2 0 False, info_at 5 1 True]
     [acct 2 1 (buffer_with (Some (Pubkey 5)) [1, 2, 3, 4]), acct 5 0 []] =
   Ok [acct 2 1 (buffer_with (Some (Pubkey 5)) [1, 9, 9, 4]), acct 5 0 []]"
proof -
  let ?h = "[acct 2 1 (buffer_with (Some (Pubkey 5)) [1, 2, 3, 4]), acct 5 0 []]"
  obtain h' where ok: "loader_write state_codec 1 [9, 9] [info_at 2 0 False, info_at 5 1 True] ?h = Ok h'"
    using write_runs by blast
  have "h' = [acct 2 1 (buffer_with (Some (Pubkey 5)) [1, 9, 9, 4]), acct 5 0 []]"
    using buffer_write_exact [OF state_codec.loader_layout_axioms ok]
      drop_buffer [of 3] take_buffer [of 1]
    by (simp add: cell_def buffer_with_def acct_def)
  with ok show ?thesis by simp
qed

text \<open>A buffer whose authority is gone is immutable: writing, initialising again and setting
  an authority all fail, each with its own code.\<close>

theorem immutable_buffer_stays:
  assumes "loader_layout c" and "length infos \<ge> 2" and "ai_is_signer (infos ! 1)"
    and "de c (acc_data (cell h (infos ! 0))) = Some (Buffer None)"
  shows "loader_write c offset bytes infos h = Err (Custom 4) \<and>
    loader_set_authority c a infos h = Err (Custom 5) \<and>
    loader_initialize_buffer c infos h = Err (Custom 7)"
  using loader_layout.immutable_buffer [OF assms(1,2,4)] assms(3) by blast

theorem immutable_buffer_stays_witness:
  "loader_write state_codec 0 [9] [info_at 2 0 False, info_at 5 1 True]
     [acct 2 1 (buffer_with None [1, 2, 3]), acct 5 0 []] = Err (Custom 4)"
  using immutable_buffer_stays [OF state_codec.loader_layout_axioms, of
      "[info_at 2 0 False, info_at 5 1 True]" "[acct 2 1 (buffer_with None [1, 2, 3]), acct 5 0 []]"]
  by (simp add: cell_def)

text \<open>Closing needs a signer but no authority: any signer empties any account into any other,
  whatever the account holds and whoever owns it, and when the account is its own recipient
  its lamports are gone.\<close>

theorem close_ignores_authority:
  assumes "ai_is_signer thief" and "ai_account victim < length h" and "ai_account target < length h"
  shows "\<exists>h'. loader_close [victim, target, thief] h = Ok h' \<and>
    acc_lamports (cell h' victim) = 0 \<and> acc_data (cell h' victim) = [] \<and>
    (ai_account victim \<noteq> ai_account target \<longrightarrow> acc_lamports (cell h' target) =
       saturating_add (acc_lamports (cell h target)) (acc_lamports (cell h victim)))"
proof -
  obtain h' where ok: "loader_close_into victim target h = Ok h'" using close_into_total_ok by blast
  then have "loader_close [victim, target, thief] h = Ok h'"
    using assms(1) by (simp add: loader_close_def)
  with close_into_two [OF ok assms(2,3)] close_into_self [OF ok assms(2)] assms(2,3) show ?thesis
    by (cases "ai_account victim = ai_account target") (auto simp: cell_def)
qed

theorem close_ignores_authority_witness:
  "\<exists>h'. loader_close [info_at 2 0 False, info_at 6 1 True, info_at 6 1 True]
      [acct 2 500 (buffer_with (Some (Pubkey 5)) [1]), acct 6 0 []] = Ok h' \<and>
    acc_lamports (cell h' (info_at 6 1 True)) = 500"
  using close_ignores_authority [of "info_at 6 1 True" "info_at 2 0 False"
      "[acct 2 500 (buffer_with (Some (Pubkey 5)) [1]), acct 6 0 []]" "info_at 6 1 True"]
  by (auto simp: cell_def saturating_add_def)

text \<open>C39: What a deployment leaves, once its account was created and when payer, program data,
  program and buffer are four cells: the program data names the slot and the authority and holds
  the buffer's code, the program account names the program data, is executable and belongs to
  the loader, and the buffer is empty with its lamports at the payer.\<close>

theorem deployment_effect:
  assumes "loader_layout c" and "loader_deploy_finish c sv program_id infos n h = Ok h'"
    and "infos_wf infos h" and "length infos \<ge> 8"
    and "distinct (map (\<lambda>i. ai_account (infos ! i)) [0, 1, 2, 3])"
  shows "(\<exists>slot. clock_slot sv (acc_data (cell h (infos ! 5))) = Some slot \<and>
      de c (acc_data (cell h' (infos ! 1))) =
        Some (ProgramData slot (Some (ai_pubkey (infos ! 7))))) \<and>
    slice (acc_data (cell h' (infos ! 1))) 45 (45 + n) =
      slice (acc_data (cell h (infos ! 3))) 37 (37 + n) \<and>
    de c (acc_data (cell h' (infos ! 2))) = Some (Program (ai_pubkey (infos ! 1))) \<and>
    acc_executable (cell h' (infos ! 2)) \<and> acc_owner (cell h' (infos ! 2)) = program_id \<and>
    acc_data (cell h' (infos ! 3)) = [] \<and> acc_lamports (cell h' (infos ! 3)) = 0 \<and>
    acc_lamports (cell h' (infos ! 0)) =
      saturating_add (acc_lamports (cell h (infos ! 0))) (acc_lamports (cell h (infos ! 3)))"
  using loader_layout.deploy_finish_Ok [OF assms] by blast

definition deploy_infos :: "account_info list" where
  "deploy_infos = [info_at 1 0 True, info_at 2 1 True, info_at 3 2 False, info_at 4 3 False,
     info_at 5 4 False, info_at 6 5 False, info_at 7 6 False, info_at 8 7 True]"

definition deploy_heap :: heap where
  "deploy_heap = [acct 1 50 [], acct 2 9 (replicate 47 0), acct 3 9 (replicate 36 0),
     acct 4 30 (buffer_with (Some (Pubkey 8)) [7, 8]), acct 5 0 [], acct 6 0 (le_bytes 8 (77 :: u64)),
     acct 7 0 [], acct 8 0 []]"

lemma pack_state:
  "length (put_state st) \<le> length (acc_data (cell h i)) \<Longrightarrow>
   pack_into_account state_codec st i h =
     Ok (h[ai_account i := (cell h i)\<lparr>acc_data := put_state st @ drop (length (put_state st)) (acc_data (cell h i))\<rparr>])"
  by (simp add: pack_into_account_def serialized_size_def try_borrow_data_def set_data_def state_codec_def)

lemma length_states [simp]:
  "length (put_state (ProgramData s (Some k))) = 45" "length (put_state (Program k)) = 36"
  by (simp_all add: put_state.simps put_option_def)

lemma deploy_finishes:
  "\<exists>h'. loader_deploy_finish state_codec wire_sysvars (Pubkey 99) deploy_infos 2 deploy_heap = Ok h'"
proof -
  let ?s = "ProgramData 77 (Some (Pubkey 8))"
  let ?h1 = "deploy_heap[1 := acct 2 9 (put_state ?s @ [0, 0])]"
  let ?h2 = "deploy_heap[1 := acct 2 9 (put_state ?s @ [7, 8])]"
  let ?h3 = "?h2[2 := acct 3 9 (put_state (Program (Pubkey 2)))]"
  have zeros: "drop 45 (replicate 47 0) = [0 :: u8, 0]" by (simp add: numeral_2_eq_2)
  have clock: "clock_slot wire_sysvars (le_bytes 8 (77 :: u64)) = Some 77"
    by (simp add: wire_sysvars_def)
  have p1: "pack_into_account state_codec ?s (info_at 2 1 True) deploy_heap = Ok ?h1"
    using zeros by (subst pack_state) (simp_all add: deploy_heap_def cell_def acct_def)
  have cp: "loader_copy_code state_codec (info_at 4 3 False) (info_at 2 1 True) 2 ?h1 = Ok ?h2"
    by (simp add: loader_copy_code_def state_codec.programdata_metadata state_codec.buffer_metadata
        try_borrow_data_def cell_def deploy_heap_def slice_checked_def slice_def copy_into_def
        buffer_with_def set_data_def acct_def)
  have p3: "pack_into_account state_codec (Program (Pubkey 2)) (info_at 3 2 False) ?h2 = Ok ?h3"
    by (subst pack_state) (simp_all add: deploy_heap_def cell_def acct_def)
  show ?thesis
    using p1 cp p3 close_into_total_ok clock
    by (simp add: loader_deploy_finish_def deploy_infos_def try_borrow_data_def Let_def)
      (simp add: cell_def deploy_heap_def)
qed

theorem deployment_effect_witness:
  "\<exists>h'. loader_deploy_finish state_codec wire_sysvars (Pubkey 99) deploy_infos 2 deploy_heap = Ok h' \<and>
     slice (acc_data (h' ! 1)) 45 47 = [7, 8] \<and> acc_executable (h' ! 2)"
proof -
  obtain h' where ok: "loader_deploy_finish state_codec wire_sysvars (Pubkey 99) deploy_infos 2 deploy_heap = Ok h'"
    using deploy_finishes by blast
  have "infos_wf deploy_infos deploy_heap" "length deploy_infos \<ge> 8"
    "distinct (map (\<lambda>i. ai_account (deploy_infos ! i)) [0, 1, 2, 3])"
    by (simp_all add: infos_wf_def deploy_infos_def deploy_heap_def)
  from deployment_effect [OF state_codec.loader_layout_axioms ok this]
  have "slice (acc_data (h' ! 1)) 45 47 = [7, 8]" "acc_executable (h' ! 2)"
    by (simp_all add: deploy_infos_def deploy_heap_def cell_def slice_def buffer_with_def)
  with ok show ?thesis by blast
qed

section \<open>Cross-program invocation\<close>

text \<open>C40: Changing a token authority never works: the system program it invokes reads the outer
  instruction's data, which is not a system instruction, so every well-formed request ends in
  an instruction-data error.\<close>

theorem set_authority_always_fails:
  assumes "system_layout (env_system env)" and "token_layout (tc_instruction (env_token env))"
    and "ix_program_id ix = TOKEN_PROGRAM_ID"
    and "de (tc_instruction (env_token env)) (ic_instruction_data c) = Some (TokenSetAuthority k)"
    and "length infos \<ge> 2" and "ai_is_signer (infos ! 1)"
  shows "execute_program env ix c infos h cache = (Err InvalidInstructionData, cache)"
proof -
  have "de (env_system env) (ic_instruction_data c) = None"
    using token_layout.set_authority_data [OF assms(2,4)]
    by (intro system_layout.no_instruction [OF assms(1)]) simp_all
  moreover have "\<exists>bs. ser (env_system env) x = Some bs" for x
    using assms(1) by (simp add: system_layout_def strict_codec_def codec_law_def)
  ultimately have "token_set_authority (env_system env) (execute_program env) k c infos h cache =
      (Err InvalidInstructionData, cache)"
    using assms(5,6) by (rule set_authority_unreadable)
  then have "chained_execute env (execute_program env) ix c infos h cache =
      (Err InvalidInstructionData, cache)"
    using assms(3,4) by (simp add: chained_execute_def is_native_def native_execute_def token_entrypoint_def)
  then show ?thesis by (simp flip: execute_program_unfold)
qed

definition set_authority_ix :: instruction where
  "set_authority_ix = \<lparr>ix_program_id = TOKEN_PROGRAM_ID, ix_accounts = [],
     ix_data = put_token (TokenSetAuthority (Pubkey 9))\<rparr>"

lemma wire_env_sel [simp]:
  "env_system wire_env = system_codec" "env_token wire_env = wire_token"
  "env_loader wire_env = wire_loader" "env_sysvars wire_env = wire_sysvars"
  by (simp_all add: wire_env_def)

theorem set_authority_always_fails_witness:
  "execute_program wire_env set_authority_ix
      (ctx_with TOKEN_PROGRAM_ID (put_token (TokenSetAuthority (Pubkey 9))))
      [info_at 2 0 True, info_at 1 1 True] [acct 2 5 [], acct 1 5 []] [] = (Err InvalidInstructionData, [])"
  by (rule set_authority_always_fails)
    (simp_all add: system_codec.system_layout_axioms token_codec.token_layout_axioms set_authority_ix_def)

text \<open>A deployment requested by the plain encoding of its instruction never succeeds, for the
  same reason: the creation of the program data account fails inside.\<close>

theorem plain_deployment_always_fails:
  assumes "system_layout (env_system env)" and "loader_ix_layout (lc_instruction (env_loader env)) valid"
    and "ix_program_id ix = BPF_LOADER_UPGRADEABLE_PROGRAM_ID" and "valid (DeployWithMaxDataLen n)"
    and "ser (lc_instruction (env_loader env)) (DeployWithMaxDataLen n) = Some (ic_instruction_data c)"
  shows "\<not> is_ok (fst (execute_program env ix c infos h cache))"
proof
  let ?lc = "lc_instruction (env_loader env)"
  have "lenient_codec ?lc valid" using assms(2) by (simp add: loader_ix_layout_def)
  then have de: "de ?lc (ic_instruction_data c) = Some (DeployWithMaxDataLen n)"
    using assms(4,5) by (rule lenient_codec.de_ser_self)
  have none: "de (env_system env) (ic_instruction_data c) = None"
    using loader_ix_layout.deploy_data [OF assms(2,5)]
    by (intro system_layout.no_instruction [OF assms(1)]) simp_all
  assume "is_ok (fst (execute_program env ix c infos h cache))"
  then obtain r where "fst (execute_program env ix c infos h cache) = Ok r"
    by (cases "fst (execute_program env ix c infos h cache)") simp_all
  then have "fst (chained_execute env (execute_program env) ix c infos h cache) = Ok r"
    by (simp flip: execute_program_unfold)
  then have "fst (loader_deploy (lc_state (env_loader env)) (env_system env) (env_sysvars env)
      (execute_program env) n c infos h cache) = Ok r"
    using assms(3) de
    by (simp add: chained_execute_def is_native_def native_execute_def loader_entrypoint_def)
  with deploy_unreadable [OF none] show False by blast
qed

theorem plain_deployment_always_fails_witness:
  "\<not> is_ok (fst (execute_program wire_env
      \<lparr>ix_program_id = BPF_LOADER_UPGRADEABLE_PROGRAM_ID, ix_accounts = [], ix_data = []\<rparr>
      (ctx_with BPF_LOADER_UPGRADEABLE_PROGRAM_ID (put_loader (DeployWithMaxDataLen 2)))
      deploy_infos deploy_heap []))"
proof (rule plain_deployment_always_fails)
  show "system_layout (env_system wire_env)" by (simp add: system_codec.system_layout_axioms)
  show "loader_ix_layout (lc_instruction (env_loader wire_env)) loader_valid"
    by (simp add: wire_loader_def loader_codec.loader_ix_layout_axioms)
qed (simp_all add: wire_loader_def loader_codec_def)

end
