(* ===== verification/Bank.thy ===== *)
theory Bank
  imports Executor
begin

text \<open>
  \<^verbatim>\<open>src/bank.rs\<close>: a bank of a chain of banks over one account store, its blockhash queue,
  freezing, and the processing of one transaction from the preflight rules to the overlay of
  its writes.

  The store is shared with the parent and with every other bank, so it is a state of its own,
  \<open>'s\<close>, used through the operations of the trait \<^verbatim>\<open>AccountStore\<close>. The executor's cache is
  shared in the same way. The field \<^verbatim>\<open>parent\<close> is never read and is left out.
\<close>

section \<open>Banks\<close>

definition MAX_BLOCKHASH_QUEUE_DEPTH :: nat where "MAX_BLOCKHASH_QUEUE_DEPTH = 150"

record blockhash_info =
  bi_hash :: hash
  bi_created_at_slot :: u64

record bank =
  bk_slot :: u64
  bk_blockhash_queue :: "blockhash_info list"
  bk_parent_hash :: hash
  bk_is_frozen :: bool
  bk_freeze_lock_count :: nat
  bk_finalized_hash :: "hash option"
  bk_processed :: nat
  bk_failed :: nat

text \<open>The object behind \<^verbatim>\<open>Arc<dyn AccountStore>\<close>.\<close>

record 's store_ops =
  so_load :: "'s \<Rightarrow> pubkey \<Rightarrow> account option"
  so_store :: "'s \<Rightarrow> pubkey \<Rightarrow> account \<Rightarrow> ('s, anyhow) result"
  so_get_root_hash :: "'s \<Rightarrow> (hash, anyhow) result"

definition bank_new :: bank where
  "bank_new =
     \<lparr>bk_slot = 0,
      bk_blockhash_queue = [\<lparr>bi_hash = hash_default, bi_created_at_slot = 0\<rparr>],
      bk_parent_hash = hash_default, bk_is_frozen = False, bk_freeze_lock_count = 0,
      bk_finalized_hash = None, bk_processed = 0, bk_failed = 0\<rparr>"

definition bank_hash :: "bank \<Rightarrow> hash" where
  "bank_hash b = (case bk_finalized_hash b of Some h \<Rightarrow> h | None \<Rightarrow> bk_parent_hash b)"

text \<open>
  The body of \<^verbatim>\<open>freeze\<close> once the wait for the freeze locks is over. \<^verbatim>\<open>swap\<close> sets the flag
  and tells whether it was set.
\<close>

definition freeze_now :: "'s store_ops \<Rightarrow> 's \<Rightarrow> bank \<Rightarrow> (bank, transaction_error) result" where
  "freeze_now so s b =
     (if bk_is_frozen b then Ok b
      else let b = b\<lparr>bk_is_frozen := True\<rparr> in
        if bk_finalized_hash b = None
        then and_then (unwrap_result (so_get_root_hash so s)) (\<lambda>h. Ok (b\<lparr>bk_finalized_hash := Some h\<rparr>))
        else Ok b)"

text \<open>
  Run alone, \<^verbatim>\<open>freeze\<close> never returns while a freeze lock is held: \<open>None\<close>. The interleaving
  with the threads that hold them is in \<^verbatim>\<open>Freeze_Protocol\<close>.
\<close>

definition bank_freeze ::
    "'s store_ops \<Rightarrow> 's \<Rightarrow> bank \<Rightarrow> (bank, transaction_error) result option" where
  "bank_freeze so s b = (if bk_freeze_lock_count b > 0 then None else Some (freeze_now so s b))"

text \<open>The child of a bank, and the parent, which is frozen on the way.\<close>

definition bank_child :: "bank \<Rightarrow> (bank, transaction_error) result" where
  "bank_child parent =
     (let blockhash_queue = bk_blockhash_queue parent @
            [\<lparr>bi_hash = bank_hash parent, bi_created_at_slot = bk_slot parent\<rparr>];
          blockhash_queue =
            (if length blockhash_queue > MAX_BLOCKHASH_QUEUE_DEPTH then tl blockhash_queue
             else blockhash_queue) in
      and_then (add_checked (bk_slot parent) 1) (\<lambda>slot.
      Ok \<lparr>bk_slot = slot, bk_blockhash_queue = blockhash_queue,
          bk_parent_hash = bank_hash parent, bk_is_frozen = False, bk_freeze_lock_count = 0,
          bk_finalized_hash = None, bk_processed = 0, bk_failed = 0\<rparr>))"

definition bank_new_from_parent ::
    "'s store_ops \<Rightarrow> 's \<Rightarrow> bank \<Rightarrow> (bank \<times> bank, transaction_error) result option" where
  "bank_new_from_parent so s parent =
     map_option (\<lambda>frozen. and_then frozen (\<lambda>parent.
         and_then (bank_child parent) (\<lambda>child. Ok (child, parent))))
       (bank_freeze so s parent)"

definition acquire_freeze_lock :: "bank \<Rightarrow> bank" where
  "acquire_freeze_lock b = b\<lparr>bk_freeze_lock_count := bk_freeze_lock_count b + 1\<rparr>"

definition release_freeze_lock :: "bank \<Rightarrow> bank" where
  "release_freeze_lock b = b\<lparr>bk_freeze_lock_count := bk_freeze_lock_count b - 1\<rparr>"

definition record_transaction_metrics :: "bool \<Rightarrow> bank \<Rightarrow> bank" where
  "record_transaction_metrics succeeded b =
     (if succeeded then b\<lparr>bk_processed := bk_processed b + 1\<rparr>
      else b\<lparr>bk_failed := bk_failed b + 1\<rparr>)"

section \<open>One transaction\<close>

definition check_preflight_rules :: "bank \<Rightarrow> transaction \<Rightarrow> (unit, transaction_error) result" where
  "check_preflight_rules b tx =
     (if bk_is_frozen b then Err (ProgramError (InternalError ''bank is frozen''))
      else case List.find (\<lambda>info. bi_hash info = msg_recent_blockhash (tx_message tx))
                  (bk_blockhash_queue b) of
        Some info \<Rightarrow>
          let last_valid_slot =
                saturating_add (bi_created_at_slot info) (of_nat MAX_BLOCKHASH_QUEUE_DEPTH) in
          if bk_slot b > last_valid_slot then Err BlockhashExpired else Ok ()
      | None \<Rightarrow> Err BlockhashNotFound)"

definition default_account :: "pubkey \<Rightarrow> account" where
  "default_account k = account_default\<lparr>acc_pubkey := k, acc_owner := SYSTEM_PROGRAM_ID\<rparr>"

text \<open>Each key gets a cell of its own, a key that is listed twice gets two.\<close>

definition load_and_verify_accounts ::
    "(pubkey \<Rightarrow> account option) \<Rightarrow> transaction \<Rightarrow> (heap, transaction_error) result" where
  "load_and_verify_accounts load tx =
     Ok (map (\<lambda>key. case load key of Some account \<Rightarrow> account | None \<Rightarrow> default_account key)
           (msg_account_keys (tx_message tx)))"

definition internal :: "string \<Rightarrow> transaction_error" where
  "internal t = ProgramError (InternalError t)"

text \<open>\<^verbatim>\<open>iter().position(..)\<close>.\<close>

primrec position :: "pubkey \<Rightarrow> pubkey list \<Rightarrow> nat option" where
  "position k [] = None"
| "position k (x # xs) = (if x = k then Some 0 else map_option Suc (position k xs))"

definition prepare_one ::
    "pubkey list \<Rightarrow> heap \<Rightarrow> account_meta \<Rightarrow> account_info list \<times> nat set \<Rightarrow>
     (account_info list \<times> nat set, transaction_error) result" where
  "prepare_one tx_account_keys accounts account_meta st =
     (case st of (account_infos, borrowed_mutably) \<Rightarrow>
      and_then (ok_or (position (am_pubkey account_meta) tx_account_keys)
          (internal ''instruction account not found in transaction'')) (\<lambda>account_index.
      if am_is_writable account_meta \<and> account_index \<in> borrowed_mutably
      then Err (internal ''account borrowed mutably more than once'')
      else let borrowed_mutably =
                 (if am_is_writable account_meta then insert account_index borrowed_mutably
                  else borrowed_mutably) in
      and_then (unwrap (if account_index < length accounts then Some (accounts ! account_index)
          else None)) (\<lambda>account.
      Ok (account_infos @
            [\<lparr>ai_pubkey = am_pubkey account_meta, ai_is_signer = am_is_signer account_meta,
              ai_is_writable = am_is_writable account_meta, ai_account = account_index,
              ai_executable = acc_executable account, ai_rent_epoch = acc_rent_epoch account\<rparr>],
          borrowed_mutably))))"

definition prepare_account_infos ::
    "instruction \<Rightarrow> pubkey list \<Rightarrow> heap \<Rightarrow> (account_info list, transaction_error) result" where
  "prepare_account_infos ix tx_account_keys accounts =
     and_then (for_each (prepare_one tx_account_keys accounts) (ix_accounts ix) ([], {}))
       (\<lambda>(account_infos, _). Ok account_infos)"

text \<open>One round of the loop over the instructions.\<close>

definition execute_one ::
    "('rent, 'exe) env \<Rightarrow> pubkey list \<Rightarrow> u64 \<Rightarrow> instruction \<Rightarrow> heap \<Rightarrow> program_cache \<Rightarrow>
     (heap, transaction_error) result \<times> program_cache" where
  "execute_one env keys compute_budget ix h cache =
     run_then (lift_result (prepare_account_infos ix keys h) cache) (\<lambda>account_infos cache.
     let invoke_context =
           invoke_context_new (ix_program_id ix) (ix_data ix) [] compute_budget in
     case execute_program env ix invoke_context account_infos h cache of (r, cache) \<Rightarrow>
       (map_err ProgramError (and_then r (\<lambda>(_, h). Ok h)), cache))"

primrec execute_all ::
    "('rent, 'exe) env \<Rightarrow> pubkey list \<Rightarrow> u64 \<Rightarrow> instruction list \<Rightarrow> heap \<Rightarrow> program_cache \<Rightarrow>
     (heap, transaction_error) result \<times> program_cache" where
  "execute_all env keys compute_budget [] h cache = (Ok h, cache)"
| "execute_all env keys compute_budget (ix # ixs) h cache =
     run_then (execute_one env keys compute_budget ix h cache)
       (execute_all env keys compute_budget ixs)"

definition execute_instructions ::
    "('rent, 'exe) env \<Rightarrow> transaction \<Rightarrow> u64 \<Rightarrow> heap \<Rightarrow> program_cache \<Rightarrow>
     (heap, transaction_error) result \<times> program_cache" where
  "execute_instructions env tx compute_budget h cache =
     execute_all env (msg_account_keys (tx_message tx)) compute_budget
       (msg_instructions (tx_message tx)) h cache"

text \<open>The final loop of \<^verbatim>\<open>process_single_transaction\<close>: every loaded account is written.\<close>

definition store_loaded :: "account \<Rightarrow> dirty_map \<Rightarrow> (dirty_map, transaction_error) result" where
  "store_loaded account overlay =
     map_err (\<lambda>e. case e of Anyhow t \<Rightarrow> internal t)
       (overlay_store overlay (acc_pubkey account) account)"

definition process_single_transaction ::
    "('rent, 'exe) env \<Rightarrow> 's store_ops \<Rightarrow> 's \<Rightarrow> bank \<Rightarrow> transaction \<Rightarrow> u64 \<Rightarrow> program_cache \<Rightarrow>
     (dirty_map, transaction_error) result \<times> program_cache" where
  "process_single_transaction env so s b tx compute_budget cache =
     run_then (lift_result (check_preflight_rules b tx) cache) (\<lambda>_ cache.
     run_then (lift_result (load_and_verify_accounts (overlay_load (so_load so) s overlay_new) tx) cache)
       (\<lambda>loaded cache.
     run_then (execute_instructions env tx compute_budget loaded cache) (\<lambda>loaded cache.
     lift_result (for_each store_loaded loaded overlay_new) cache)))"

definition simulate_transaction ::
    "('rent, 'exe) env \<Rightarrow> 's store_ops \<Rightarrow> 's \<Rightarrow> transaction \<Rightarrow> program_cache \<Rightarrow>
     (unit, transaction_error) result \<times> program_cache" where
  "simulate_transaction env so s tx cache =
     run_then (lift_result (load_and_verify_accounts (overlay_load (so_load so) s overlay_new) tx) cache)
       (\<lambda>loaded cache.
     run_then (execute_instructions env tx 200000 loaded cache) (\<lambda>_ cache. (Ok (), cache)))"

end
