(* ===== verification/Bank_Laws.thy ===== *)
theory Bank_Laws
  imports Bank Executor_Laws Scheduler
begin

text \<open>
  What a bank guarantees (\<^verbatim>\<open>src/bank.rs\<close>): the blockhash queue of a chain of banks, freezing,
  what a processed transaction leaves in its overlay, and that the transactions of a
  scheduled group commute with committing: run against one snapshot and committed in order
  they give the store that running them one after another gives.
\<close>

section \<open>Chains of banks\<close>

text \<open>The banks that come from the first one by \<^verbatim>\<open>new_from_parent\<close>, whatever the store holds.\<close>

inductive bank_chain :: "'s store_ops \<Rightarrow> bank \<Rightarrow> bool" for so where
  genesis: "bank_chain so bank_new"
| child: "bank_chain so p \<Longrightarrow> bank_new_from_parent so s p = Some (Ok (c, p')) \<Longrightarrow> bank_chain so c"

definition queue_inv :: "bank \<Rightarrow> bool" where
  "queue_inv b \<longleftrightarrow>
     length (bk_blockhash_queue b) = min (unat (bk_slot b) + 1) MAX_BLOCKHASH_QUEUE_DEPTH \<and>
     (\<forall>i < length (bk_blockhash_queue b).
        unat (bi_created_at_slot (bk_blockhash_queue b ! i)) =
          unat (bk_slot b) - (length (bk_blockhash_queue b) - i))"

lemma freeze_now_fields:
  "freeze_now so s b = Ok b' \<Longrightarrow>
     bk_slot b' = bk_slot b \<and> bk_blockhash_queue b' = bk_blockhash_queue b \<and> bk_is_frozen b'"
  by (auto simp: freeze_now_def Let_def split: if_splits)

lemma new_from_parent_Ok:
  assumes "bank_new_from_parent so s p = Some (Ok (c, p'))"
  shows "freeze_now so s p = Ok p'" and "bank_child p' = Ok c"
  using assms by (auto simp: bank_new_from_parent_def bank_freeze_def split: if_splits)

lemma bank_child_Ok:
  assumes "bank_child p = Ok c"
  defines "q \<equiv> bk_blockhash_queue p @ [\<lparr>bi_hash = bank_hash p, bi_created_at_slot = bk_slot p\<rparr>]"
  shows "unat (bk_slot c) = unat (bk_slot p) + 1" and "bk_parent_hash c = bank_hash p"
    and "bk_blockhash_queue c = (if length q > MAX_BLOCKHASH_QUEUE_DEPTH then tl q else q)"
    and "\<not> bk_is_frozen c" and "bk_finalized_hash c = None"
  using assms by (auto simp: bank_child_def Let_def add_checked_Ok unat_add_exact)

lemma queue_inv_new: "queue_inv bank_new"
  by (simp add: queue_inv_def bank_new_def MAX_BLOCKHASH_QUEUE_DEPTH_def)

lemma queue_inv_child:
  assumes inv: "queue_inv p" and child: "bank_child p = Ok c"
  shows "queue_inv c"
proof -
  let ?n = "length (bk_blockhash_queue p)" and ?s = "unat (bk_slot p)"
  define q where
    "q = bk_blockhash_queue p @ [\<lparr>bi_hash = bank_hash p, bi_created_at_slot = bk_slot p\<rparr>]"
  note c = bank_child_Ok [OF child, folded q_def]
  have n: "?n = min (?s + 1) 150" and entries: "\<And>i. i < ?n \<Longrightarrow>
      unat (bi_created_at_slot (bk_blockhash_queue p ! i)) = ?s - (?n - i)"
    using inv by (auto simp: queue_inv_def MAX_BLOCKHASH_QUEUE_DEPTH_def)
  have len: "length q = ?n + 1" by (simp add: q_def)
  have q: "unat (bi_created_at_slot (q ! i)) = ?s - (?n - i)" if "i < length q" for i
    using that entries [of i] by (cases "i < ?n") (auto simp: q_def nth_append less_Suc_eq)
  show ?thesis
  proof (cases "length q > MAX_BLOCKHASH_QUEUE_DEPTH")
    case True
    then have n150: "?n = 150" using n len by (simp add: MAX_BLOCKHASH_QUEUE_DEPTH_def)
    then have "?s \<ge> 149" using n by linarith
    with True n150 c(1,3) len q show ?thesis
      by (auto simp: queue_inv_def MAX_BLOCKHASH_QUEUE_DEPTH_def nth_tl)
  next
    case False
    then have "?n = ?s + 1" "?s < 149"
      using n len by (auto simp: MAX_BLOCKHASH_QUEUE_DEPTH_def min_def split: if_splits)
    with False c(1,3) len q show ?thesis
      by (auto simp: queue_inv_def MAX_BLOCKHASH_QUEUE_DEPTH_def)
  qed
qed

lemma queue_inv_cong:
  "bk_slot b' = bk_slot b \<Longrightarrow> bk_blockhash_queue b' = bk_blockhash_queue b \<Longrightarrow> queue_inv b' = queue_inv b"
  by (simp add: queue_inv_def)

lemma bank_chain_inv: "bank_chain so b \<Longrightarrow> queue_inv b"
proof (induction rule: bank_chain.induct)
  case genesis
  show ?case by (rule queue_inv_new)
next
  case (child p s c p')
  from new_from_parent_Ok [OF child.hyps(2)] child.IH show ?case
    using freeze_now_fields queue_inv_cong queue_inv_child by metis
qed

text \<open>An entry of the queue is never older than the depth, so its hash has not expired.\<close>

lemma queue_inv_fresh:
  assumes "queue_inv b" and "info \<in> set (bk_blockhash_queue b)"
  shows "bk_slot b \<le> saturating_add (bi_created_at_slot info) (of_nat MAX_BLOCKHASH_QUEUE_DEPTH)"
proof -
  let ?q = "bk_blockhash_queue b"
  obtain i where i: "i < length ?q" "info = ?q ! i" using assms(2) by (auto simp: in_set_conv_nth)
  then have "unat (bk_slot b) \<le> unat (bi_created_at_slot info) + 150"
    using assms(1) by (auto simp: queue_inv_def MAX_BLOCKHASH_QUEUE_DEPTH_def)
  moreover have "unat (bk_slot b) \<le> 2 ^ 64 - 1" using unat_le_max [of "bk_slot b"] by simp
  ultimately show ?thesis
    by (simp add: word_le_nat_alt unat_saturating_add MAX_BLOCKHASH_QUEUE_DEPTH_def)
qed

lemma preflight_not_expired:
  assumes "queue_inv b"
  shows "check_preflight_rules b tx \<noteq> Err BlockhashExpired"
proof (cases "List.find (\<lambda>info. bi_hash info = msg_recent_blockhash (tx_message tx))
    (bk_blockhash_queue b)")
  case (Some info)
  then have "info \<in> set (bk_blockhash_queue b)" by (auto simp: find_Some_iff)
  from queue_inv_fresh [OF assms this] Some show ?thesis
    by (auto simp: check_preflight_rules_def dest: leD)
qed (simp add: check_preflight_rules_def)

section \<open>Accounts of an instruction\<close>

lemma position_Some: "position k ks = Some i \<Longrightarrow> i < length ks \<and> ks ! i = k"
  by (induction ks arbitrary: i) (auto split: if_splits)

lemma prepare_one_wf:
  assumes "prepare_one keys h m (infos, ws) = Ok (infos', ws')" and "infos_wf infos h"
    and "length h = length keys"
  shows "infos_wf infos' h"
  using assms
  by (auto simp: prepare_one_def Let_def infos_wf_def dest!: position_Some split: if_splits)

lemma prepare_wf:
  assumes "prepare_account_infos ix keys h = Ok infos" and "length h = length keys"
  shows "infos_wf infos h"
proof -
  obtain ws where "for_each (prepare_one keys h) (ix_accounts ix) ([], {}) = Ok (infos, ws)"
    using assms(1) by (auto simp: prepare_account_infos_def)
  then have "infos_wf (fst (infos, ws)) h"
    by (rule for_each_invariant) (use assms(2) prepare_one_wf in \<open>auto simp: infos_wf_def\<close>)
  then show ?thesis by simp
qed

lemma execute_one_Ok:
  "fst (execute_one env keys budget ix h c) = Ok h' \<longleftrightarrow>
     (\<exists>infos ctx. prepare_account_infos ix keys h = Ok infos \<and>
        fst (execute_program env ix (invoke_context_new (ix_program_id ix) (ix_data ix) [] budget)
          infos h c) = Ok (ctx, h'))"
  by (simp add: execute_one_def run_then_Ok_iff Let_def case_prod_beta)

lemma execute_one_sound:
  assumes "fst (execute_one env keys budget ix h cache) = Ok h'" and "length h = length keys"
  shows "sound_step h h'"
  using assms(1) unfolding execute_one_Ok
  by (elim exE conjE) (rule executor_soundD [OF execute_program_sound], rule prepare_wf,
    assumption, rule assms(2), assumption)

lemma execute_all_sound:
  "fst (execute_all env keys budget ixs h cache) = Ok h' \<Longrightarrow> length h = length keys \<Longrightarrow>
     sound_step h h'"
proof (induction ixs arbitrary: h cache)
  case Nil
  then show ?case by simp
next
  case (Cons ix ixs)
  then obtain h1 where 1: "fst (execute_one env keys budget ix h cache) = Ok h1"
    and rest: "fst (execute_all env keys budget ixs h1 (snd (execute_one env keys budget ix h cache))) = Ok h'"
    by (auto simp: run_then_Ok_iff)
  have s: "sound_step h h1" using 1 Cons.prems(2) by (rule execute_one_sound)
  then have "sound_step h1 h'"
    using rest Cons.prems(2) sound_step_length by (intro Cons.IH) auto
  with s show ?case by (rule sound_step_trans)
qed

lemma execute_one_cache_free:
  assumes "fst (execute_one env keys budget ix h c) = Ok h'"
  shows "fst (execute_one env keys budget ix h c') = Ok h'"
  using assms unfolding execute_one_Ok by (blast intro: cache_freeD [OF execute_program_cache_free])

lemma execute_all_cache_free:
  "fst (execute_all env keys budget ixs h c) = Ok h' \<Longrightarrow>
     fst (execute_all env keys budget ixs h c') = Ok h'"
proof (induction ixs arbitrary: h h' c c')
  case (Cons ix ixs)
  from Cons.prems show ?case
    unfolding execute_all.simps by (rule run_then_cache_free) (blast intro: execute_one_cache_free Cons.IH)+
qed simp

section \<open>The overlay of a transaction\<close>

text \<open>The account a transaction sees at a key, stored or not.\<close>

definition seen :: "'s store_ops \<Rightarrow> 's \<Rightarrow> pubkey \<Rightarrow> account" where
  "seen so s k = (case so_load so s k of Some a \<Rightarrow> a | None \<Rightarrow> default_account k)"

definition well_keyed :: "'s store_ops \<Rightarrow> 's \<Rightarrow> bool" where
  "well_keyed so s \<longleftrightarrow> (\<forall>k a. so_load so s k = Some a \<longrightarrow> acc_pubkey a = k)"

lemma seen_key: "well_keyed so s \<Longrightarrow> acc_pubkey (seen so s k) = k"
  by (auto simp: seen_def well_keyed_def default_account_def account_default_def split: option.splits)

abbreviation keys_of :: "transaction \<Rightarrow> pubkey list" where
  "keys_of tx \<equiv> msg_account_keys (tx_message tx)"

lemma loaded_seen:
  "load_and_verify_accounts (overlay_load (so_load so) s overlay_new) tx = Ok (map (seen so s) (keys_of tx))"
  by (simp add: load_and_verify_accounts_def overlay_load_def overlay_new_def seen_def)

lemma store_loaded_all:
  "for_each store_loaded h m = Ok (fold (\<lambda>a. AList.update (acc_pubkey a) a) h m)"
  by (induction h arbitrary: m) (auto simp: store_loaded_def overlay_store_def)

lemma update_new: "k \<notin> set (map fst m) \<Longrightarrow> AList.update k v m = m @ [(k, v)]"
  by (induction m) auto

lemma fold_update_distinct:
  "distinct (map fst m @ map f h) \<Longrightarrow> fold (\<lambda>a. AList.update (f a) a) h m = m @ map (\<lambda>a. (f a, a)) h"
  by (induction h arbitrary: m) (auto simp: update_new)

lemma process_Ok:
  "fst (process_single_transaction env so s b tx budget c) = Ok d \<longleftrightarrow>
     check_preflight_rules b tx = Ok () \<and>
     (\<exists>h. fst (execute_instructions env tx budget (map (seen so s) (keys_of tx)) c) = Ok h \<and>
        d = fold (\<lambda>a. AList.update (acc_pubkey a) a) h [])"
  by (simp add: process_single_transaction_def run_then_Ok_iff loaded_seen store_loaded_all)
    (auto simp: overlay_new_def)

lemma process_cache_free:
  "fst (process_single_transaction env so s b tx budget c) = Ok d \<Longrightarrow>
     fst (process_single_transaction env so s b tx budget c') = Ok d"
  unfolding process_Ok execute_instructions_def by (blast intro: execute_all_cache_free)

lemma process_seen:
  assumes "\<And>k. k \<in> set (keys_of tx) \<Longrightarrow> seen so s k = seen so s' k"
  shows "fst (process_single_transaction env so s b tx budget c) = Ok d \<longleftrightarrow>
    fst (process_single_transaction env so s' b tx budget c) = Ok d"
proof -
  have "map (seen so s) (keys_of tx) = map (seen so s') (keys_of tx)" using assms by simp
  then show ?thesis by (simp only: process_Ok)
qed

text \<open>
  Over distinct keys the overlay holds one account for each key, in the order of the keys,
  and the accounts come from those loaded by a sound step.
\<close>

lemma process_overlay:
  assumes ok: "fst (process_single_transaction env so s b tx budget c) = Ok d"
    and keyed: "well_keyed so s" and distinct: "distinct (keys_of tx)"
  shows "map fst d = keys_of tx" and "sound_step (map (seen so s) (keys_of tx)) (map snd d)"
    and "list_all (\<lambda>(k, a). acc_pubkey a = k) d"
proof -
  obtain h where h: "fst (execute_instructions env tx budget (map (seen so s) (keys_of tx)) c) = Ok h"
    and d: "d = fold (\<lambda>a. AList.update (acc_pubkey a) a) h []"
    using ok by (auto simp: process_Ok)
  have s: "sound_step (map (seen so s) (keys_of tx)) h"
    using h unfolding execute_instructions_def by (rule execute_all_sound) simp
  have "map acc_pubkey h = map acc_pubkey (map (seen so s) (keys_of tx))"
    using s by (simp add: sound_step_def)
  also have "\<dots> = keys_of tx" by (simp add: seen_key [OF keyed] comp_def)
  finally have keys: "map acc_pubkey h = keys_of tx" .
  with d distinct have d: "d = map (\<lambda>a. (acc_pubkey a, a)) h"
    using fold_update_distinct [of "[]" acc_pubkey h] by simp
  show "map fst d = keys_of tx" using keys by (simp add: d comp_def)
  show "sound_step (map (seen so s) (keys_of tx)) (map snd d)" using s by (simp add: d comp_def)
  show "list_all (\<lambda>(k, a). acc_pubkey a = k) d" by (simp add: d list_all_iff)
qed

section \<open>Groups run in parallel as they would one after another\<close>

text \<open>The overlay a transaction commits, if it succeeds; the cache does not matter.\<close>

definition tx_overlay ::
    "('rent, 'exe) env \<Rightarrow> 's store_ops \<Rightarrow> bank \<Rightarrow> 's \<Rightarrow> transaction \<times> u64 \<Rightarrow> dirty_map option" where
  "tx_overlay env so b s txc =
     (case fst (process_single_transaction env so s b (fst txc) (snd txc) []) of
        Ok d \<Rightarrow> Some d | _ \<Rightarrow> None)"

lemma tx_overlay_Some:
  "tx_overlay env so b s (tx, budget) = Some d \<longleftrightarrow>
     fst (process_single_transaction env so s b tx budget c) = Ok d"
proof -
  let ?p = "\<lambda>c. fst (process_single_transaction env so s b tx budget c)"
  have "?p [] = Ok d \<longleftrightarrow> ?p c = Ok d" by (intro iffI; erule process_cache_free)
  then show ?thesis by (cases "?p []") (simp_all add: tx_overlay_def)
qed

definition run_parallel ::
    "('rent, 'exe) env \<Rightarrow> 's store_ops \<Rightarrow> bank \<Rightarrow> (transaction \<times> u64) list \<Rightarrow> 's \<Rightarrow> ('s, anyhow) result" where
  "run_parallel env so b txs s =
     commit_overlays (so_store so) (List.map_filter (tx_overlay env so b s) txs) s"

primrec run_sequential ::
    "('rent, 'exe) env \<Rightarrow> 's store_ops \<Rightarrow> bank \<Rightarrow> (transaction \<times> u64) list \<Rightarrow> 's \<Rightarrow> ('s, anyhow) result" where
  "run_sequential env so b [] s = Ok s"
| "run_sequential env so b (tx # txs) s =
     (case tx_overlay env so b s tx of
        None \<Rightarrow> run_sequential env so b txs s
      | Some d \<Rightarrow> and_then (commit_overlays (so_store so) [d] s) (run_sequential env so b txs))"

text \<open>
  A transaction is well declared on a store when its keys are distinct, each is an account of
  some instruction, and it changes only accounts it declares writable. The code checks none
  of the three.
\<close>

definition well_declared ::
    "('rent, 'exe) env \<Rightarrow> 's store_ops \<Rightarrow> bank \<Rightarrow> 's \<Rightarrow> transaction \<times> u64 \<Rightarrow> bool" where
  "well_declared env so b s txc \<longleftrightarrow>
     distinct (keys_of (fst txc)) \<and>
     set (keys_of (fst txc)) \<subseteq> set (read_set (fst txc)) \<union> set (write_set (fst txc)) \<and>
     (\<forall>d k. tx_overlay env so b s txc = Some d \<longrightarrow> k \<in> set (keys_of (fst txc)) \<longrightarrow>
        k \<notin> set (write_set (fst txc)) \<longrightarrow> map_of d k = Some (seen so s k))"

lemma tx_overlay_seen:
  assumes "\<And>k. k \<in> set (keys_of (fst txc)) \<Longrightarrow> seen so s k = seen so s' k"
  shows "tx_overlay env so b s txc = tx_overlay env so b s' txc"
proof -
  have "tx_overlay env so b s txc = Some d \<longleftrightarrow> tx_overlay env so b s' txc = Some d" for d
    using process_seen [OF assms, where env = env and b = b and budget = "snd txc" and c = "[]"]
      tx_overlay_Some [of env so b _ "fst txc" "snd txc" d "[]"] by simp
  then show ?thesis by (metis option.exhaust)
qed

lemma commit_one:
  assumes "account_store (so_load so) (so_store so) invar (\<lambda>_. True)"
    and "commit_overlays (so_store so) [d] s = Ok s'" and "invar s" and "wf_map d"
  shows "invar s' \<and> so_load so s' = so_load so s ++ map_of d"
  using account_store.commit_load [OF assms(1,2,3)] assms(4) by (simp add: list_all_iff)

lemma commit_Cons:
  "commit_overlays st (d # ds) s = and_then (commit_overlays st [d] s) (commit_overlays st ds)"
  by (auto simp: commit_overlays_def and_then_assoc cong: and_then_cong)

lemma map_filter_cong_on:
  "(\<And>x. x \<in> set xs \<Longrightarrow> f x = g x) \<Longrightarrow> List.map_filter f xs = List.map_filter g xs"
  by (induction xs) (simp_all add: List.map_filter_def)

text \<open>The induction: \<open>s\<close> is the snapshot, \<open>t\<close> the store some of the group has been committed to.\<close>

lemma sequential_is_commit:
  assumes store: "account_store (so_load so) (so_store so) invar (\<lambda>_. True)"
    and "invar t" and keyed: "well_keyed so s"
    and "list_all (well_declared env so b s) txs"
    and "sorted_wrt (\<lambda>x y. independent (extract_sets (n, fst x)) (extract_sets (m, fst y))) txs"
    and "\<forall>tx \<in> set txs. \<forall>k \<in> set (keys_of (fst tx)). seen so t k = seen so s k"
  shows "run_sequential env so b txs t =
    commit_overlays (so_store so) (List.map_filter (tx_overlay env so b s) txs) t"
  using assms(2,4,5,6)
proof (induction txs arbitrary: t)
  case Nil
  then show ?case by (simp add: commit_overlays_def List.map_filter_def)
next
  case (Cons tx txs)
  have same: "tx_overlay env so b t tx = tx_overlay env so b s tx"
    using Cons.prems(4) by (intro tx_overlay_seen) simp
  show ?case
  proof (cases "tx_overlay env so b s tx")
    case None
    with same Cons show ?thesis by (simp add: List.map_filter_def)
  next
    case (Some d)
    have decl: "well_declared env so b s tx" using Cons.prems(2) by simp
    have d: "fst (process_single_transaction env so s b (fst tx) (snd tx) []) = Ok d"
      using Some tx_overlay_Some [of env so b s "fst tx" "snd tx" d "[]"] by simp
    have dist: "distinct (keys_of (fst tx))" using decl by (simp add: well_declared_def)
    note ov = process_overlay [OF d keyed dist]
    have wf: "wf_map d" using ov(1) dist by (simp add: wf_map_def)
    have dom: "dom (map_of d) = set (keys_of (fst tx))"
      using ov(1) by (metis dom_map_of_conv_image_fst list.set_map)
    have "and_then (commit_overlays (so_store so) [d] t) (run_sequential env so b txs) =
        and_then (commit_overlays (so_store so) [d] t)
          (commit_overlays (so_store so) (List.map_filter (tx_overlay env so b s) txs))"
    proof (rule and_then_cong [OF refl])
      fix t' assume t': "commit_overlays (so_store so) [d] t = Ok t'"
      note load = commit_one [OF store t' Cons.prems(1) wf]
      have "seen so t' k = seen so s k"
        if tx': "tx' \<in> set txs" and k: "k \<in> set (keys_of (fst tx'))" for tx' k
      proof (cases "k \<in> set (keys_of (fst tx))")
        case False
        then have "so_load so t' k = so_load so t k"
          using load dom by (auto simp: map_add_dom_app_simps)
        then show ?thesis using Cons.prems(4) tx' k by (simp add: seen_def)
      next
        case True
        have "independent (extract_sets (n, fst tx)) (extract_sets (m, fst tx'))"
          using Cons.prems(3) tx' by simp
        moreover have "k \<in> set (read_set (fst tx')) \<union> set (write_set (fst tx'))"
          using Cons.prems(2) tx' k by (auto simp: list_all_iff well_declared_def)
        ultimately have "k \<notin> set (write_set (fst tx))"
          by (auto simp: independent_def extract_sets_def)
        then have "map_of d k = Some (seen so s k)"
          using decl Some True by (simp add: well_declared_def)
        then show ?thesis using load by (simp add: seen_def)
      qed
      then show "run_sequential env so b txs t' =
          commit_overlays (so_store so) (List.map_filter (tx_overlay env so b s) txs) t'"
        using Cons.prems load by (intro Cons.IH) auto
    qed
    moreover have "List.map_filter (tx_overlay env so b s) (tx # txs) =
        d # List.map_filter (tx_overlay env so b s) txs"
      using Some by (simp add: List.map_filter_def)
    ultimately show ?thesis
      using same by (simp only: run_sequential.simps Some option.case commit_Cons [symmetric])
  qed
qed

end
