(* ===== verification/Supply.thy ===== *)
theory Supply
  imports Bank_Laws
begin

text \<open>
  The lamports of the in-memory store and what committing a transaction's overlay does to
  them: with distinct keys the total cannot grow.
\<close>

section \<open>The lamports of a store\<close>

text \<open>The in-memory store as the object behind \<^verbatim>\<open>Arc<dyn AccountStore>\<close>.\<close>

definition mem_ops :: "crypto \<Rightarrow> (pubkey \<times> account) codec \<Rightarrow> mem_store store_ops" where
  "mem_ops cr lc = \<lparr>so_load = mem_load, so_store = mem_store, so_get_root_hash = mem_get_root_hash cr lc\<rparr>"

lemma mem_ops_sel [simp]:
  "so_load (mem_ops cr lc) = mem_load" "so_store (mem_ops cr lc) = mem_store"
  "so_get_root_hash (mem_ops cr lc) = mem_get_root_hash cr lc"
  by (simp_all add: mem_ops_def)

definition lamports_at :: "(pubkey \<rightharpoonup> account) \<Rightarrow> pubkey \<Rightarrow> nat" where
  "lamports_at m k = (case m k of None \<Rightarrow> 0 | Some a \<Rightarrow> unat (acc_lamports a))"

definition stored_lamports :: "mem_store \<Rightarrow> nat" where
  "stored_lamports s = total_lamports (mem_all_accounts s)"

lemma supply_Nil [simp]: "stored_lamports [] = 0"
  by (simp add: stored_lamports_def mem_all_accounts_def total_lamports_def)

lemma supply_Cons [simp]: "stored_lamports ((k, a) # s) = unat (acc_lamports a) + stored_lamports s"
  by (simp add: stored_lamports_def mem_all_accounts_def total_lamports_def)

lemma supply_sum:
  "wf_map s \<Longrightarrow> finite K \<Longrightarrow> dom (map_of s) \<subseteq> K \<Longrightarrow> stored_lamports s = (\<Sum>k \<in> K. lamports_at (map_of s) k)"
proof (induction s)
  case Nil
  then show ?case by (simp add: lamports_at_def)
next
  case (Cons ka s)
  obtain k a where ka: "ka = (k, a)" by fastforce
  have k: "k \<in> K" and new: "map_of s k = None" and sub: "dom (map_of s) \<subseteq> K" and wf: "wf_map s"
    using Cons.prems by (auto simp: ka wf_map_def map_of_eq_None_iff split: if_splits)
  let ?rest = "\<Sum>j \<in> K - {k}. lamports_at (map_of s) j"
  have "(\<Sum>j \<in> K. lamports_at (map_of s) j) = lamports_at (map_of s) k + ?rest"
    using Cons.prems(2) k by (rule sum.remove)
  moreover have "(\<Sum>j \<in> K - {k}. lamports_at (map_of (ka # s)) j) = ?rest"
    by (rule sum.cong) (auto simp: ka lamports_at_def)
  then have "(\<Sum>j \<in> K. lamports_at (map_of (ka # s)) j) = lamports_at (map_of (ka # s)) k + ?rest"
    using sum.remove [OF Cons.prems(2) k, of "lamports_at (map_of (ka # s))"] by simp
  ultimately show ?case
    using Cons.IH [OF wf Cons.prems(2) sub] by (simp add: ka lamports_at_def new)
qed

lemma seen_lamports: "unat (acc_lamports (seen so s k)) = lamports_at (so_load so s) k"
  by (simp add: seen_def lamports_at_def default_account_def account_default_def split: option.splits)

lemma total_seen:
  "distinct ks \<Longrightarrow> total_lamports (map (seen so s) ks) = (\<Sum>k \<in> set ks. lamports_at (so_load so s) k)"
  by (simp add: total_lamports_def comp_def seen_lamports sum_list_distinct_conv_sum_set)

lemma total_overlay:
  "wf_map d \<Longrightarrow> total_lamports (map snd d) = (\<Sum>k \<in> set (map fst d). lamports_at (map_of d) k)"
  using supply_sum [of d "set (map fst d)"]
  by (simp add: stored_lamports_def mem_all_accounts_def dom_map_of_conv_image_fst)

section \<open>Committing one transaction\<close>

lemma commit_supply:
  assumes ok: "fst (process_single_transaction env so s b tx budget c) = Ok d"
    and so: "so_load so = mem_load" and keyed: "well_keyed so s" and wf: "wf_map s"
    and distinct: "distinct (keys_of tx)" and fits: "stored_lamports s < 2 ^ 64"
    and commit: "commit_overlays mem_store [d] s = Ok s'"
  shows "wf_map s'" and "mem_load s' = mem_load s ++ map_of d" and "stored_lamports s' \<le> stored_lamports s"
proof -
  note ov = process_overlay [OF ok keyed distinct]
  have wfd: "wf_map d" using ov(1) distinct by (simp add: wf_map_def)
  show wf': "wf_map s'" and load: "mem_load s' = mem_load s ++ map_of d"
    using mem.commit_load [OF commit wf] wfd by (simp_all add: list_all_iff)
  let ?K = "set (keys_of tx)" and ?D = "dom (map_of s)"
  have dom: "dom (map_of d) = ?K" using ov(1) by (simp add: dom_map_of_conv_image_fst flip: set_map)
  have "map_of s' = map_of s ++ map_of d"
    using load by (simp add: mem_load_def [abs_def])
  then have dom': "dom (map_of s') = ?D \<union> ?K" using dom by (simp add: Un_commute)
  have fin: "finite (?D \<union> ?K)" by (simp add: finite_dom_map_of)
  have split: "(\<Sum>k \<in> ?D \<union> ?K. f k) = (\<Sum>k \<in> ?D - ?K. f k) + (\<Sum>k \<in> ?K. f k)" for f :: "pubkey \<Rightarrow> nat"
    using sum.union_disjoint [of "?D - ?K" ?K f] by (simp add: finite_dom_map_of Diff_Int_distrib2)
  have rest: "(\<Sum>k \<in> ?D - ?K. lamports_at (map_of s') k) = (\<Sum>k \<in> ?D - ?K. lamports_at (map_of s) k)"
  proof (rule sum.cong [OF refl])
    fix k assume "k \<in> ?D - ?K"
    then have "map_of d k = None" using dom by auto
    then show "lamports_at (map_of s') k = lamports_at (map_of s) k"
      using fun_cong [OF load, of k] by (simp add: lamports_at_def mem_load_def map_add_def)
  qed
  have keys: "(\<Sum>k \<in> ?K. lamports_at (map_of s') k) = total_lamports (map snd d)"
  proof -
    have "lamports_at (map_of s') k = lamports_at (map_of d) k" if "k \<in> ?K" for k
    proof -
      have "k \<in> dom (map_of d)" using that by (simp only: dom)
      then obtain a where "map_of d k = Some a" by (auto simp only: dom_def mem_Collect_eq not_None_eq)
      then show ?thesis using fun_cong [OF load, of k] by (simp add: lamports_at_def mem_load_def)
    qed
    then have "(\<Sum>k \<in> ?K. lamports_at (map_of s') k) = (\<Sum>k \<in> ?K. lamports_at (map_of d) k)"
      by (rule sum.cong [OF refl])
    with total_overlay [OF wfd] show ?thesis unfolding ov(1) by (rule trans [OF _ sym, rotated])
  qed
  have before: "(\<Sum>k \<in> ?K. lamports_at (map_of s) k) = total_lamports (map (seen so s) (keys_of tx))"
    using total_seen [OF distinct, of so s] by (simp add: so mem_load_def [abs_def])
  have s: "stored_lamports s = (\<Sum>k \<in> ?D - ?K. lamports_at (map_of s) k) + total_lamports (map (seen so s) (keys_of tx))"
    using supply_sum [OF wf fin] split before by simp
  have s': "stored_lamports s' = (\<Sum>k \<in> ?D - ?K. lamports_at (map_of s) k) + total_lamports (map snd d)"
    using supply_sum [OF wf' fin] split rest keys dom' by simp
  have "total_lamports (map snd d) \<le> total_lamports (map (seen so s) (keys_of tx))"
    using ov(2) s fits by (simp add: sound_step_def)
  with s s' show "stored_lamports s' \<le> stored_lamports s" by simp
qed

lemma commit_well_keyed:
  assumes "mem_load s' = mem_load s ++ map_of d" and "well_keyed (mem_ops cr lc) s"
    and "list_all (\<lambda>(k, a). acc_pubkey a = k) d"
  shows "well_keyed (mem_ops cr lc) s'"
  using assms by (auto simp: well_keyed_def list_all_iff dest!: map_of_SomeD)

end
