(* ===== verification/Freeze_Protocol.thy ===== *)
theory Freeze_Protocol
  imports Bank_Laws
begin

text \<open>
  \<^verbatim>\<open>Bank::freeze\<close> against the banking stage, as they interleave: a freezer that waits for the
  freeze locks to be given back, raises the flag and hashes the store, and workers that hold a
  freeze lock from \<^verbatim>\<open>acquire_freeze_lock\<close> over the processing of a group
  (\<^verbatim>\<open>process_single_transaction\<close>, which tests the flag) to the commit and the drop of the
  guard. Each access to a shared atomic or to the store is one step.
\<close>

section \<open>The steps\<close>

text \<open>A worker with a group to run, the overlays so far, and after the commit.\<close>

datatype worker = Idle | Processing "(transaction \<times> u64) list" "dirty_map list" | Finished

text \<open>The freezer in its wait loop, past it, past the swap of the flag, and done.\<close>

datatype freezer = Waiting | Passed | Hashing | Frozen

text \<open>
  The state, with two ghosts: the store whose hash became final, and whether a freeze lock was
  taken between the freezer's last look at the count and its swap of the flag.
\<close>

record 's protocol =
  fz_bank :: bank
  fz_store :: 's
  fz_workers :: "worker list"
  fz_freezer :: freezer
  fz_hashed :: "'s option"
  fz_raced :: bool

definition set_worker :: "nat \<Rightarrow> worker \<Rightarrow> 's protocol \<Rightarrow> 's protocol" where
  "set_worker i w st = st\<lparr>fz_workers := (fz_workers st)[i := w]\<rparr>"

text \<open>The worker's steps, each on one worker.\<close>

definition worker_acquire :: "(transaction \<times> u64) list \<Rightarrow> nat \<Rightarrow> 's protocol \<Rightarrow> 's protocol" where
  "worker_acquire grp i st =
     (set_worker i (Processing grp []) st)
       \<lparr>fz_bank := acquire_freeze_lock (fz_bank st),
        fz_raced := (fz_raced st \<or> fz_freezer st = Passed)\<rparr>"

definition worker_run ::
    "('rent, 'exe) env \<Rightarrow> 's store_ops \<Rightarrow> program_cache \<Rightarrow> transaction \<times> u64 \<Rightarrow>
     (transaction \<times> u64) list \<Rightarrow> dirty_map list \<Rightarrow> nat \<Rightarrow> 's protocol \<Rightarrow> 's protocol" where
  "worker_run env so cache txc rest overlays i st =
     set_worker i
       (case fst (process_single_transaction env so (fz_store st) (fz_bank st) (fst txc) (snd txc) cache) of
          Ok overlay \<Rightarrow> Processing rest (overlays @ [overlay])
        | Err e \<Rightarrow> Processing rest overlays
        | Panic \<Rightarrow> Finished) st"

definition worker_release :: "nat \<Rightarrow> 's protocol \<Rightarrow> 's protocol" where
  "worker_release i st = (set_worker i Idle st)\<lparr>fz_bank := release_freeze_lock (fz_bank st)\<rparr>"

text \<open>
  The freezer's steps: the load of the count that ends the wait, the swap, and the write of the
  hash. A hash that cannot be computed panics, and then nothing follows.
\<close>

definition freezer_swap :: "'s protocol \<Rightarrow> 's protocol" where
  "freezer_swap st =
     (if bk_is_frozen (fz_bank st) then st\<lparr>fz_freezer := Frozen\<rparr>
      else st\<lparr>fz_freezer := Hashing, fz_bank := (fz_bank st)\<lparr>bk_is_frozen := True\<rparr>\<rparr>)"

definition freezer_hash :: "hash \<Rightarrow> 's protocol \<Rightarrow> 's protocol" where
  "freezer_hash h st =
     st\<lparr>fz_freezer := Frozen, fz_hashed := Some (fz_store st),
        fz_bank := (fz_bank st)\<lparr>bk_finalized_hash := Some h\<rparr>\<rparr>"

inductive protocol_step ::
    "('rent, 'exe) env \<Rightarrow> 's store_ops \<Rightarrow> 's protocol \<Rightarrow> 's protocol \<Rightarrow> bool" for env so where
  acquire: "i < length (fz_workers st) \<Longrightarrow> fz_workers st ! i = Idle \<Longrightarrow>
     protocol_step env so st (worker_acquire grp i st)"
| run: "i < length (fz_workers st) \<Longrightarrow> fz_workers st ! i = Processing (txc # rest) overlays \<Longrightarrow>
     protocol_step env so st (worker_run env so cache txc rest overlays i st)"
| commit: "i < length (fz_workers st) \<Longrightarrow> fz_workers st ! i = Processing [] overlays \<Longrightarrow>
     commit_overlays (so_store so) overlays (fz_store st) = Ok s' \<Longrightarrow>
     protocol_step env so st ((set_worker i Finished st)\<lparr>fz_store := s'\<rparr>)"
| refuse: "i < length (fz_workers st) \<Longrightarrow> fz_workers st ! i = Processing [] overlays \<Longrightarrow>
     protocol_step env so st (set_worker i Finished st)"
| release: "i < length (fz_workers st) \<Longrightarrow> fz_workers st ! i = Finished \<Longrightarrow>
     protocol_step env so st (worker_release i st)"
| pass: "fz_freezer st = Waiting \<Longrightarrow> bk_freeze_lock_count (fz_bank st) = 0 \<Longrightarrow>
     protocol_step env so st (st\<lparr>fz_freezer := Passed\<rparr>)"
| swap: "fz_freezer st = Passed \<Longrightarrow> protocol_step env so st (freezer_swap st)"
| hash: "fz_freezer st = Hashing \<Longrightarrow> bk_finalized_hash (fz_bank st) = None \<Longrightarrow>
     so_get_root_hash so (fz_store st) = Ok h \<Longrightarrow>
     protocol_step env so st (freezer_hash h st)"

text \<open>A bank that is not frozen, \<open>n\<close> idle workers, and a freezer that begins.\<close>

definition protocol_start :: "bank \<Rightarrow> 's \<Rightarrow> nat \<Rightarrow> 's protocol" where
  "protocol_start b s n =
     \<lparr>fz_bank = b, fz_store = s, fz_workers = replicate n Idle, fz_freezer = Waiting,
      fz_hashed = None, fz_raced = False\<rparr>"

inductive protocol_reachable ::
    "('rent, 'exe) env \<Rightarrow> 's store_ops \<Rightarrow> 's protocol \<Rightarrow> bool" for env so where
  start: "\<not> bk_is_frozen b \<Longrightarrow> bk_freeze_lock_count b = 0 \<Longrightarrow> bk_finalized_hash b = None \<Longrightarrow>
     protocol_reachable env so (protocol_start b s n)"
| step: "protocol_reachable env so st \<Longrightarrow> protocol_step env so st st' \<Longrightarrow>
     protocol_reachable env so st'"

section \<open>The invariant\<close>

definition holds_lock :: "worker \<Rightarrow> bool" where
  "holds_lock w \<longleftrightarrow> w \<noteq> Idle"

definition no_overlays :: "worker \<Rightarrow> bool" where
  "no_overlays w \<longleftrightarrow> (case w of Processing grp overlays \<Rightarrow> overlays = [] | _ \<Rightarrow> True)"

definition protocol_inv :: "'s protocol \<Rightarrow> bool" where
  "protocol_inv st \<longleftrightarrow>
     bk_freeze_lock_count (fz_bank st) = length (filter holds_lock (fz_workers st)) \<and>
     (bk_is_frozen (fz_bank st) \<longleftrightarrow> fz_freezer st = Hashing \<or> fz_freezer st = Frozen) \<and>
     (fz_hashed st \<noteq> None \<longrightarrow> fz_freezer st = Frozen) \<and>
     (\<not> fz_raced st \<longrightarrow>
       (fz_freezer st = Passed \<longrightarrow> bk_freeze_lock_count (fz_bank st) = 0) \<and>
       (bk_is_frozen (fz_bank st) \<longrightarrow> list_all no_overlays (fz_workers st)) \<and>
       (\<forall>s0. fz_hashed st = Some s0 \<longrightarrow> fz_store st = s0))"

lemma list_all_update: "list_all P xs \<Longrightarrow> P y \<Longrightarrow> list_all P (xs[i := y])"
  by (auto simp: list_all_iff dest!: set_update_subset_insert [THEN subsetD])

lemma frozen_refuses:
  "bk_is_frozen b \<Longrightarrow> \<exists>e. fst (process_single_transaction env so s b tx budget cache) = Err e"
  by (simp add: process_single_transaction_def check_preflight_rules_def)

lemma protocol_inv_start:
  "\<not> bk_is_frozen b \<Longrightarrow> bk_freeze_lock_count b = 0 \<Longrightarrow> protocol_inv (protocol_start b s n)"
  by (simp add: protocol_inv_def protocol_start_def holds_lock_def)

lemma inv_all_idle:
  assumes "protocol_inv st" and "bk_freeze_lock_count (fz_bank st) = 0"
  shows "list_all no_overlays (fz_workers st)"
proof -
  have "filter holds_lock (fz_workers st) = []" using assms by (simp add: protocol_inv_def)
  then have "\<forall>w \<in> set (fz_workers st). w = Idle" by (simp add: filter_empty_conv holds_lock_def)
  then show ?thesis by (auto simp: list_all_iff no_overlays_def)
qed

lemma protocol_inv_step:
  assumes "protocol_step env so st st'" and inv: "protocol_inv st"
  shows "protocol_inv st'"
  using assms(1)
proof cases
  case (acquire i grp)
  then show ?thesis
    using inv filter_update [of i "fz_workers st" holds_lock "Processing grp []"]
    by (auto simp: protocol_inv_def worker_acquire_def set_worker_def acquire_freeze_lock_def
        holds_lock_def no_overlays_def intro: list_all_update)
next
  case (run i txc rest overlays cache)
  let ?w = "case fst (process_single_transaction env so (fz_store st) (fz_bank st) (fst txc) (snd txc) cache) of
      Ok overlay \<Rightarrow> Processing rest (overlays @ [overlay])
    | Err e \<Rightarrow> Processing rest overlays | Panic \<Rightarrow> Finished"
  have "holds_lock ?w" by (simp add: holds_lock_def split: result.splits)
  moreover have "no_overlays ?w"
    if "bk_is_frozen (fz_bank st)" and "list_all no_overlays (fz_workers st)"
  proof -
    have "no_overlays (Processing (txc # rest) overlays)"
      using that(2) run(2,3) by (auto simp: list_all_length)
    then show ?thesis
      using frozen_refuses [OF that(1), of env so "fz_store st" "fst txc" "snd txc" cache]
      by (auto simp: no_overlays_def)
  qed
  ultimately show ?thesis
    using inv run(1-3) filter_update [of i "fz_workers st" holds_lock ?w]
    by (auto simp: protocol_inv_def worker_run_def set_worker_def holds_lock_def
        intro: list_all_update)
next
  case (commit i overlays s')
  have "s' = fz_store st" if "bk_is_frozen (fz_bank st)" and "list_all no_overlays (fz_workers st)"
  proof -
    have "no_overlays (Processing [] overlays)" using that(2) commit(2,3) by (auto simp: list_all_length)
    then show ?thesis using commit(4) by (simp add: no_overlays_def commit_overlays_def)
  qed
  then show ?thesis
    using inv commit(1-3) filter_update [of i "fz_workers st" holds_lock Finished]
    by (auto simp: protocol_inv_def set_worker_def holds_lock_def no_overlays_def
        intro: list_all_update)
next
  case (refuse i overlays)
  then show ?thesis
    using inv filter_update [of i "fz_workers st" holds_lock Finished]
    by (auto simp: protocol_inv_def set_worker_def holds_lock_def no_overlays_def
        intro: list_all_update)
next
  case (release i)
  then show ?thesis
    using inv filter_update [of i "fz_workers st" holds_lock Idle]
    by (auto simp: protocol_inv_def worker_release_def release_freeze_lock_def set_worker_def
        holds_lock_def no_overlays_def intro: list_all_update)
next
  case pass
  then show ?thesis using inv by (auto simp: protocol_inv_def)
next
  case swap
  then show ?thesis
    using inv inv_all_idle [OF inv] by (auto simp: protocol_inv_def freezer_swap_def)
next
  case (hash h)
  then show ?thesis using inv by (auto simp: protocol_inv_def freezer_hash_def)
qed

lemma protocol_reachable_inv: "protocol_reachable env so st \<Longrightarrow> protocol_inv st"
  by (induction rule: protocol_reachable.induct) (auto intro: protocol_inv_start protocol_inv_step)

text \<open>The final hash is the root of the store that was hashed.\<close>

definition hash_inv :: "'s store_ops \<Rightarrow> 's protocol \<Rightarrow> bool" where
  "hash_inv so st \<longleftrightarrow>
     (case fz_hashed st of
        None \<Rightarrow> bk_finalized_hash (fz_bank st) = None
      | Some s0 \<Rightarrow> so_get_root_hash so s0 = Ok (bank_hash (fz_bank st)) \<and>
          bk_finalized_hash (fz_bank st) \<noteq> None)"

lemma hash_inv_step: "protocol_step env so st st' \<Longrightarrow> hash_inv so st \<Longrightarrow> hash_inv so st'"
  by (induction rule: protocol_step.induct)
    (auto simp: hash_inv_def worker_acquire_def worker_run_def worker_release_def freezer_swap_def
      freezer_hash_def set_worker_def acquire_freeze_lock_def release_freeze_lock_def bank_hash_def
      split: option.splits)

lemma hash_inv_start: "bk_finalized_hash b = None \<Longrightarrow> hash_inv so (protocol_start b s n)"
  by (simp add: hash_inv_def protocol_start_def)

lemma protocol_reachable_hash: "protocol_reachable env so st \<Longrightarrow> hash_inv so st"
  by (induction rule: protocol_reachable.induct) (auto intro: hash_inv_start hash_inv_step)

end
