(* ===== verification/Bank_Properties.thy ===== *)
theory Bank_Properties
  imports Supply Freeze_Protocol Core_Properties Program_Properties
begin

text \<open>
  The properties of the bank: the blockhash window, freezing, the lamports of the store, the
  duplicate-key hole, and the serializability of scheduled groups, each with a witness.
\<close>

section \<open>Chains of banks\<close>


definition rooted :: "unit store_ops" where
  "rooted = \<lparr>so_load = (\<lambda>_ _. None), so_store = (\<lambda>s _ _. Ok s), so_get_root_hash = (\<lambda>_. Ok (Hash 7))\<rparr>"



text \<open>Freezing a bank fixes its hash to the root of the store at that moment for good: freezing
  again, over whatever store, changes nothing, and every later transaction is refused.\<close>

theorem freezing_is_final:
  assumes "bank_freeze so s b = Some (Ok b')" and "\<not> bk_is_frozen b" and "bk_finalized_hash b = None"
  shows "so_get_root_hash so s = Ok (bank_hash b') \<and> bank_freeze so s' b' = Some (Ok b') \<and>
    fst (process_single_transaction env so s' b' tx budget cache) =
      Err (ProgramError (InternalError ''bank is frozen''))"
  using assms
  by (auto simp: bank_freeze_def freeze_now_def Let_def bank_hash_def process_single_transaction_def
      check_preflight_rules_def split: if_splits)

theorem freezing_is_final_witness:
  "\<exists>b'. bank_freeze rooted () bank_new = Some (Ok b') \<and> bank_hash b' = Hash 7 \<and>
     fst (process_single_transaction wire_env rooted () b' (signed_tx []) 5 []) =
       Err (ProgramError (InternalError ''bank is frozen''))"
proof -
  obtain b' where b': "bank_freeze rooted () bank_new = Some (Ok b')"
    by (simp add: bank_freeze_def freeze_now_def bank_new_def rooted_def Let_def)
  from freezing_is_final [OF b', of "()" wire_env "signed_tx []" 5 "[]"]
  have "so_get_root_hash rooted () = Ok (bank_hash b')"
    "fst (process_single_transaction wire_env rooted () b' (signed_tx []) 5 []) =
       Err (ProgramError (InternalError ''bank is frozen''))"
    by (simp_all add: bank_new_def)
  with b' show ?thesis by (simp add: rooted_def)
qed

text \<open>C15: In every interleaving of the freezer with the workers, when no freeze lock was taken between
  the freezer's last look at the lock count and its swap of the flag, the final hash of the
  bank stays the root of the store: nothing is committed after it is computed.\<close>

theorem freeze_keeps_store:
  assumes "protocol_reachable env so st" and "\<not> fz_raced st" and "fz_hashed st = Some s0"
  shows "bk_is_frozen (fz_bank st) \<and> fz_store st = s0 \<and>
    so_get_root_hash so (fz_store st) = Ok (bank_hash (fz_bank st))"
  using protocol_reachable_inv [OF assms(1)] protocol_reachable_hash [OF assms(1)] assms(2,3)
  by (auto simp: protocol_inv_def hash_inv_def)

definition hashed_state :: "unit protocol" where
  "hashed_state = freezer_hash (Hash 7) (freezer_swap ((protocol_start bank_new () 2)\<lparr>fz_freezer := Passed\<rparr>))"

lemma hashed_state_reachable: "protocol_reachable wire_env rooted hashed_state"
proof -
  let ?s0 = "protocol_start bank_new () 2"
  have 0: "protocol_reachable wire_env rooted ?s0"
    by (rule protocol_reachable.start) (simp_all add: bank_new_def)
  have 1: "protocol_reachable wire_env rooted (?s0\<lparr>fz_freezer := Passed\<rparr>)"
    by (rule protocol_reachable.step [OF 0], rule protocol_step.pass)
      (simp_all add: protocol_start_def bank_new_def)
  have 2: "protocol_reachable wire_env rooted (freezer_swap (?s0\<lparr>fz_freezer := Passed\<rparr>))"
    by (rule protocol_reachable.step [OF 1], rule protocol_step.swap) simp
  show ?thesis unfolding hashed_state_def
    by (rule protocol_reachable.step [OF 2], rule protocol_step.hash)
      (simp_all add: freezer_swap_def protocol_start_def bank_new_def rooted_def)
qed

theorem freeze_keeps_store_witness:
  "bk_is_frozen (fz_bank hashed_state) \<and> so_get_root_hash rooted (fz_store hashed_state) = Ok (Hash 7)"
  using freeze_keeps_store [OF hashed_state_reachable, of "()"]
  by (simp add: hashed_state_def freezer_hash_def freezer_swap_def protocol_start_def bank_new_def rooted_def)

section \<open>The lamports of the store\<close>

text \<open>C17: A transaction over distinct keys that is processed and committed leaves the store no more
  lamports than it had, and every account under its own key.\<close>

theorem stored_lamports_never_grow:
  assumes "fst (process_single_transaction env (mem_ops cr lc) s b tx budget cache) = Ok d"
    and "wf_map s" and "well_keyed (mem_ops cr lc) s" and "distinct (msg_account_keys (tx_message tx))"
    and "stored_lamports s < 2 ^ 64"
  shows "\<exists>s'. commit_overlays mem_store [d] s = Ok s' \<and> wf_map s' \<and>
    well_keyed (mem_ops cr lc) s' \<and> stored_lamports s' \<le> stored_lamports s"
proof -
  obtain s' where c: "commit_overlays mem_store [d] s = Ok s'" using mem.commit_total by blast
  note cs = commit_supply [OF assms(1) _ assms(3,2,4,5) c, simplified]
  have "well_keyed (mem_ops cr lc) s'"
    using cs(2) assms(3) process_overlay(3) [OF assms(1,3,4)] by (rule commit_well_keyed)
  with c cs show ?thesis by blast
qed

definition pay_tx :: "pubkey list \<Rightarrow> pubkey \<Rightarrow> pubkey \<Rightarrow> bytes \<Rightarrow> transaction" where
  "pay_tx keys a b data = \<lparr>tx_signatures = [], tx_message = \<lparr>msg_account_keys = keys,
     msg_recent_blockhash = hash_default, msg_instructions = [\<lparr>ix_program_id = SYSTEM_PROGRAM_ID,
       ix_accounts = [\<lparr>am_pubkey = a, am_is_signer = True, am_is_writable = True\<rparr>,
         \<lparr>am_pubkey = b, am_is_signer = False, am_is_writable = True\<rparr>],
       ix_data = data\<rparr>]\<rparr>\<rparr>"

lemma preflight_genesis [simp]: "check_preflight_rules bank_new (pay_tx keys a b data) = Ok ()"
  by (simp add: check_preflight_rules_def bank_new_def pay_tx_def Let_def)

lemma execute_program_system:
  "ix_program_id ix = SYSTEM_PROGRAM_ID \<Longrightarrow>
     execute_program env ix ctx infos h cache =
       with_ctx ctx (system_entrypoint (env_system env) ctx infos h) cache"
  by (subst execute_program_unfold) (rule chained_system)

text \<open>What the one instruction of such a transaction does when its accounts are two cells.\<close>

lemma pay_executes:
  assumes "de (env_system env) data = Some (SystemTransfer n)"
    and "position a keys = Some i" and "position b keys = Some j" and "i \<noteq> j"
    and "length h = length keys" and "n \<le> acc_lamports (h ! i)"
  shows "fst (execute_instructions env (pay_tx keys a b data) budget h cache) =
    Ok (h[i := (h ! i)\<lparr>acc_lamports := acc_lamports (h ! i) - n\<rparr>,
          j := (h ! j)\<lparr>acc_lamports := saturating_add (acc_lamports (h ! j)) n\<rparr>])"
proof -
  have ij: "i < length h" "j < length h"
    using position_Some [OF assms(2)] position_Some [OF assms(3)] assms(5) by simp_all
  show ?thesis
    using assms ij
    by (simp add: execute_instructions_def pay_tx_def execute_one_def prepare_account_infos_def
        prepare_one_def Let_def execute_program_system system_entrypoint_def invoke_context_new_def
        system_transfer_def move_lamports_def heap_ops with_ctx_def saturating_sub_def
        lift_result_def not_less)
qed

lemma seen_pubkey_mem: "well_keyed (mem_ops cr lc) s \<Longrightarrow> acc_pubkey (seen (mem_ops cr lc) s k) = k"
  by (rule seen_key)

lemma pay_processed:
  assumes data: "de (env_system env) data = Some (SystemTransfer n)" and ab: "a \<noteq> b"
    and keyed: "well_keyed so s" and funds: "n \<le> acc_lamports (seen so s a)"
    and pre: "\<And>ks. check_preflight_rules bk (pay_tx ks a b data) = Ok ()"
  shows "fst (process_single_transaction env so s bk (pay_tx [a, b] a b data) budget cache) =
      Ok [(a, (seen so s a)\<lparr>acc_lamports := acc_lamports (seen so s a) - n\<rparr>),
          (b, (seen so s b)\<lparr>acc_lamports := saturating_add (acc_lamports (seen so s b)) n\<rparr>)]"
    and "fst (process_single_transaction env so s bk (pay_tx [a, a, b] a b data) budget cache) =
      Ok [(a, seen so s a),
          (b, (seen so s b)\<lparr>acc_lamports := saturating_add (acc_lamports (seen so s b)) n\<rparr>)]"
proof -
  have keys: "msg_account_keys (tx_message (pay_tx ks a b data)) = ks" for ks
    by (simp add: pay_tx_def)
  have pos: "position a [a, b] = Some 0" "position b [a, b] = Some 1"
    "position a [a, a, b] = Some 0" "position b [a, a, b] = Some 2"
    using ab by (simp_all add: numeral_2_eq_2)
  show "fst (process_single_transaction env so s bk (pay_tx [a, b] a b data) budget cache) =
      Ok [(a, (seen so s a)\<lparr>acc_lamports := acc_lamports (seen so s a) - n\<rparr>),
          (b, (seen so s b)\<lparr>acc_lamports := saturating_add (acc_lamports (seen so s b)) n\<rparr>)]"
    using pay_executes [OF data pos(1,2), of "map (seen so s) [a, b]" budget cache] ab funds
    by (simp add: process_Ok pre keys seen_key [OF keyed])
  show "fst (process_single_transaction env so s bk (pay_tx [a, a, b] a b data) budget cache) =
      Ok [(a, seen so s a),
          (b, (seen so s b)\<lparr>acc_lamports := saturating_add (acc_lamports (seen so s b)) n\<rparr>)]"
    using pay_executes [OF data pos(3,4), of "map (seen so s) [a, a, b]" budget cache] ab funds
    by (simp add: process_Ok pre keys seen_key [OF keyed] numeral_2_eq_2)
qed

definition purse :: mem_store where
  "purse = [(Pubkey 1, account_at 1 5), (Pubkey 2, account_at 2 6)]"

lemma account_at_sel [simp]: "acc_pubkey (account_at w l) = Pubkey w" "acc_lamports (account_at w l) = l"
  by (simp_all add: account_at_def)

lemma purse_wf [simp]: "wf_map purse" "well_keyed (mem_ops cr lc) purse" "stored_lamports purse = 11"
  by (auto simp: purse_def wf_map_def well_keyed_def mem_load_def split: if_splits)

lemma purse_seen [simp]:
  "seen (mem_ops cr lc) purse (Pubkey 1) = account_at 1 5"
  "seen (mem_ops cr lc) purse (Pubkey 2) = account_at 2 6"
  by (simp_all add: seen_def purse_def mem_load_def)

lemma wire_transfer: "de (env_system wire_env) (put_system (SystemTransfer n)) = Some (SystemTransfer n)"
  by simp

theorem stored_lamports_never_grow_witness:
  "\<exists>d s'. fst (process_single_transaction wire_env (mem_ops wire_crypto leaf_codec) purse bank_new
       (pay_tx [Pubkey 1, Pubkey 2] (Pubkey 1) (Pubkey 2) (put_system (SystemTransfer 3))) 9 []) = Ok d \<and>
     commit_overlays mem_store [d] purse = Ok s' \<and> stored_lamports s' \<le> 11"
proof -
  let ?tx = "pay_tx [Pubkey 1, Pubkey 2] (Pubkey 1) (Pubkey 2) (put_system (SystemTransfer 3))"
  obtain d where d: "fst (process_single_transaction wire_env (mem_ops wire_crypto leaf_codec) purse
      bank_new ?tx 9 []) = Ok d"
    using pay_processed(1) [OF wire_transfer, of "Pubkey 1" "Pubkey 2" "mem_ops wire_crypto leaf_codec"
        purse 3 bank_new 9 "[]"] by simp
  from stored_lamports_never_grow [OF d] d show ?thesis by (auto simp: pay_tx_def)
qed

text \<open>C33: A transaction that lists a key twice and pays from it keeps the payment and gives it too:
  the second, untouched copy of the payer overwrites the debited one, so the payer ends as it
  began and the payee has the amount. Nothing rejects such a transaction.\<close>

theorem duplicate_keys_create_lamports:
  assumes "de (env_system env) data = Some (SystemTransfer n)" and "a \<noteq> b"
    and "well_keyed so s" and "n \<le> acc_lamports (seen so s a)"
  shows "\<exists>d. fst (process_single_transaction env so s bank_new (pay_tx [a, a, b] a b data) budget cache) = Ok d \<and>
    map_of d a = Some (seen so s a) \<and>
    map_of d b = Some ((seen so s b)\<lparr>acc_lamports := saturating_add (acc_lamports (seen so s b)) n\<rparr>)"
  using pay_processed(2) [OF assms preflight_genesis, of budget cache] assms(2) by auto

theorem duplicate_keys_create_lamports_witness:
  "\<exists>d. fst (process_single_transaction wire_env (mem_ops wire_crypto leaf_codec) purse bank_new
       (pay_tx [Pubkey 1, Pubkey 1, Pubkey 2] (Pubkey 1) (Pubkey 2) (put_system (SystemTransfer 3))) 9 []) = Ok d \<and>
     map_of d (Pubkey 1) = Some (account_at 1 5) \<and> map_of d (Pubkey 2) = Some (account_at 2 9)"
  using duplicate_keys_create_lamports [OF wire_transfer, of "Pubkey 1" "Pubkey 2"
      "mem_ops wire_crypto leaf_codec" purse 3 9 "[]"]
  by (simp add: saturating_add_def account_at_def)

definition raced_group :: "(transaction \<times> u64) list" where
  "raced_group = [(pay_tx [Pubkey 1, Pubkey 2] (Pubkey 1) (Pubkey 2) (put_system (SystemTransfer 3)), 9)]"

text \<open>C16: The lock does not close the race: a worker that takes its freeze lock after the freezer's
  last look at the count, and runs its transaction before the flag is raised, commits after
  the root was computed, so the frozen bank's final hash is not the root of its store.\<close>

theorem freeze_race:
  "\<exists>st. protocol_reachable wire_env (mem_ops wire_crypto leaf_codec) st \<and>
     bk_is_frozen (fz_bank st) \<and> fz_hashed st = Some purse \<and> mem_load (fz_store st) \<noteq> mem_load purse"
proof -
  let ?so = "mem_ops wire_crypto leaf_codec" and ?start = "protocol_start bank_new purse 1"
  let ?reach = "protocol_reachable wire_env ?so"
  let ?d = "[(Pubkey 1, account_at 1 2), (Pubkey 2, account_at 2 9)]"
  let ?b = "acquire_freeze_lock bank_new"
  let ?st = "\<lambda>w b fr hs. \<lparr>fz_bank = b, fz_store = purse, fz_workers = [w], fz_freezer = fr,
    fz_hashed = hs, fz_raced = True\<rparr>"
  have 0: "?reach ?start" by (rule protocol_reachable.start) (simp_all add: bank_new_def)
  have 1: "?reach (?start\<lparr>fz_freezer := Passed\<rparr>)"
    by (rule protocol_reachable.step [OF 0], rule protocol_step.pass)
      (simp_all add: protocol_start_def bank_new_def)
  have "?reach (worker_acquire raced_group 0 (?start\<lparr>fz_freezer := Passed\<rparr>))"
    by (rule protocol_reachable.step [OF 1], rule protocol_step.acquire) (simp_all add: protocol_start_def)
  then have 2: "?reach (?st (Processing raced_group []) ?b Passed None)"
    by (simp add: worker_acquire_def set_worker_def protocol_start_def)
  have "fst (process_single_transaction wire_env ?so purse ?b (fst (hd raced_group)) 9 []) = Ok ?d"
    using pay_processed(1) [OF wire_transfer, of "Pubkey 1" "Pubkey 2" ?so purse 3 ?b 9 "[]"]
    by (simp add: raced_group_def check_preflight_rules_def acquire_freeze_lock_def bank_new_def
        pay_tx_def saturating_add_def account_at_def)
  moreover have "?reach (worker_run wire_env ?so [] (hd raced_group) [] [] 0
      (?st (Processing raced_group []) ?b Passed None))"
    by (rule protocol_reachable.step [OF 2], rule protocol_step.run) (simp_all add: raced_group_def)
  ultimately have 3: "?reach (?st (Processing [] [?d]) ?b Passed None)"
    by (simp add: worker_run_def set_worker_def raced_group_def)
  have "?reach (freezer_swap (?st (Processing [] [?d]) ?b Passed None))"
    by (rule protocol_reachable.step [OF 3], rule protocol_step.swap) simp
  then have 4: "?reach (?st (Processing [] [?d]) (?b\<lparr>bk_is_frozen := True\<rparr>) Hashing None)"
    by (simp add: freezer_swap_def acquire_freeze_lock_def bank_new_def)
  obtain h where h: "mem_get_root_hash wire_crypto leaf_codec purse = Ok h"
    unfolding mem_get_root_hash_def mem_all_accounts_def
    using hash_accounts_nonempty [of leaf_codec "map snd purse" wire_crypto]
    by (auto simp: purse_def leaf_codec_def)
  have "?reach (freezer_hash h (?st (Processing [] [?d]) (?b\<lparr>bk_is_frozen := True\<rparr>) Hashing None))"
    by (rule protocol_reachable.step [OF 4], rule protocol_step.hash)
      (simp_all add: acquire_freeze_lock_def bank_new_def h)
  then have 5: "?reach (?st (Processing [] [?d])
      (?b\<lparr>bk_is_frozen := True, bk_finalized_hash := Some h\<rparr>) Frozen (Some purse))"
    by (simp add: freezer_hash_def)
  obtain s' where s': "commit_overlays mem_store [?d] purse = Ok s'" using mem.commit_total by blast
  have "mem_load s' = mem_load purse ++ map_of ?d"
    using mem.commit_load [OF s' purse_wf(1)] by (simp add: wf_map_def)
  then have "mem_load s' (Pubkey 1) \<noteq> mem_load purse (Pubkey 1)"
    by (simp add: purse_def mem_load_def account_at_def account_default_def)
  moreover have "?reach ((set_worker 0 Finished (?st (Processing [] [?d])
      (?b\<lparr>bk_is_frozen := True, bk_finalized_hash := Some h\<rparr>) Frozen (Some purse)))\<lparr>fz_store := s'\<rparr>)"
    by (rule protocol_reachable.step [OF 5], rule protocol_step.commit) (simp_all, rule s')
  ultimately show ?thesis by (intro exI conjI) (assumption, auto simp: set_worker_def)
qed

section \<open>Groups\<close>

text \<open>The transactions of a scheduled group, run against one snapshot of the store and
  committed in order as the banking stage does, leave the store that running and committing
  them one after another leaves, when each is well declared: its keys are distinct, each
  belongs to an instruction, and it changes only accounts it declares writable.\<close>

theorem scheduled_group_serializable:
  assumes "g \<in> set (schedule batch)" and "wf_map s" and "well_keyed (mem_ops cr lc) s"
    and "list_all (well_declared env (mem_ops cr lc) b s) (map (\<lambda>(_, tx). (tx, budget tx)) g)"
  shows "run_parallel env (mem_ops cr lc) b (map (\<lambda>(_, tx). (tx, budget tx)) g) s =
    run_sequential env (mem_ops cr lc) b (map (\<lambda>(_, tx). (tx, budget tx)) g) s"
proof -
  have "sorted_wrt (\<lambda>x y. independent (extract_sets x) (extract_sets y)) g"
    using schedule_group [OF assms(1)] by blast
  then have "sorted_wrt (\<lambda>x y. independent (extract_sets (0, fst x)) (extract_sets (0, fst y)))
      (map (\<lambda>(_, tx). (tx, budget tx)) g)"
    by (simp add: sorted_wrt_map case_prod_beta extract_sets_def)
  moreover have "account_store (so_load (mem_ops cr lc)) (so_store (mem_ops cr lc)) wf_map (\<lambda>_. True)"
    by (simp add: mem.account_store_axioms)
  ultimately show ?thesis
    unfolding run_parallel_def using assms(2-4) by (intro sequential_is_commit [symmetric, where invar = wf_map and n = 0 and m = 0]) simp_all
qed

abbreviation two_payments :: "(nat \<times> transaction) list" where
  "two_payments \<equiv>
     [(0, pay_tx [Pubkey 1, Pubkey 2] (Pubkey 1) (Pubkey 2) (put_system (SystemTransfer 3))),
      (1, pay_tx [Pubkey 3, Pubkey 4] (Pubkey 3) (Pubkey 4) (put_system (SystemTransfer 1)))]"

lemma declared_pay:
  "declared_keys True (pay_tx keys a b data) = [a, b]" "declared_keys False (pay_tx keys a b data) = []"
  by (simp_all add: declared_keys_def pay_tx_def)

lemma pay_well_declared: "a \<noteq> b \<Longrightarrow> well_declared env so bk s (pay_tx [a, b] a b data, n)"
  by (simp add: well_declared_def declared_pay) (simp add: pay_tx_def)

lemma two_payments_one_group: "two_payments \<in> set (schedule two_payments)"
  by (simp add: schedule_def extract_sets_def write_set_def read_set_def declared_pay btree_set_def
      schedule_loop.simps upt_rec conflicts_def)

theorem scheduled_group_serializable_witness:
  "run_parallel wire_env (mem_ops wire_crypto leaf_codec) bank_new
     (map (\<lambda>(_, tx). (tx, 9)) two_payments) purse =
   run_sequential wire_env (mem_ops wire_crypto leaf_codec) bank_new
     (map (\<lambda>(_, tx). (tx, 9)) two_payments) purse"
  by (rule scheduled_group_serializable [OF two_payments_one_group purse_wf(1,2)])
    (simp add: pay_well_declared)

end
