(* ===== verification/Recorder.thy ===== *)
theory Recorder
  imports Transactions Poh
begin

text \<open>
  \<^verbatim>\<open>src/tx_recorder.rs\<close>: the hash of a batch, from the first signatures of its
  transactions, sent to the proof-of-history service. The channel (\<^verbatim>\<open>crossbeam\<close>) is the list
  of what was sent, and sending fails when the receiver is gone.
\<close>

datatype recorder_error = RecorderPoh poh_error | SendError

record 'a channel =
  ch_sent :: "'a list"
  ch_open :: bool

definition channel_send :: "'a \<Rightarrow> 'a channel \<Rightarrow> 'a channel option" where
  "channel_send x ch = (if ch_open ch then Some (ch\<lparr>ch_sent := ch_sent ch @ [x]\<rparr>) else None)"

text \<open>\<^verbatim>\<open>tx.signatures[0]\<close>, which panics when there is none.\<close>

definition first_signature :: "nat \<times> transaction \<Rightarrow> (bytes, recorder_error) result" where
  "first_signature itx =
     (case tx_signatures (snd itx) of [] \<Rightarrow> Panic | s # _ \<Rightarrow> Ok (signature_bytes s))"

definition record_transactions ::
    "crypto \<Rightarrow> hash channel \<Rightarrow> (nat \<times> transaction) list \<Rightarrow> (hash channel, recorder_error) result" where
  "record_transactions cr sender txs =
     (if txs = [] then Ok sender
      else and_then (collect_results first_signature txs) (\<lambda>sigs.
        let batch_hash = Hash (sha256 cr (concat sigs)) in
        ok_or (channel_send batch_hash sender) SendError))"

definition is_signed :: "nat \<times> transaction \<Rightarrow> bool" where
  "is_signed itx \<longleftrightarrow> tx_signatures (snd itx) \<noteq> []"

lemma first_signatures:
  "collect_results first_signature txs =
     (if list_all is_signed txs
      then Ok (map (\<lambda>itx. signature_bytes (hd (tx_signatures (snd itx)))) txs) else Panic)"
  by (induction txs) (auto simp: first_signature_def is_signed_def split: list.splits)

lemma record_transactions_cases:
  "record_transactions cr sender txs =
     (if txs = [] then Ok sender
      else if \<not> list_all is_signed txs then Panic
      else if ch_open sender
      then Ok (sender\<lparr>ch_sent := ch_sent sender @
        [Hash (sha256 cr (concat (map (\<lambda>itx. signature_bytes (hd (tx_signatures (snd itx)))) txs)))]\<rparr>)
      else Err SendError)"
  by (simp add: record_transactions_def first_signatures channel_send_def)

text \<open>What was sent stays sent.\<close>

definition sent_more :: "'a channel \<Rightarrow> 'a channel \<Rightarrow> bool" where
  "sent_more ch ch' \<longleftrightarrow> ch_open ch' = ch_open ch \<and> (\<exists>xs. ch_sent ch' = ch_sent ch @ xs)"

lemma sent_more_refl [simp]: "sent_more ch ch"
  by (simp add: sent_more_def)

lemma sent_more_trans: "sent_more ch ch' \<Longrightarrow> sent_more ch' ch'' \<Longrightarrow> sent_more ch ch''"
  by (auto simp: sent_more_def)

lemma sent_more_nth:
  "sent_more ch ch' \<Longrightarrow> i \<le> length (ch_sent ch) \<Longrightarrow> take i (ch_sent ch') = take i (ch_sent ch)"
  by (auto simp: sent_more_def)

lemma sent_more_length: "sent_more ch ch' \<Longrightarrow> length (ch_sent ch) \<le> length (ch_sent ch')"
  by (auto simp: sent_more_def)

lemma record_sends: "record_transactions cr sender txs = Ok sender' \<Longrightarrow> sent_more sender sender'"
  by (auto simp: record_transactions_cases sent_more_def split: if_splits)

end
