(* ===== verification/Banking_Stage.thy ===== *)
theory Banking_Stage
  imports Bank Scheduler Account_Locks Cost_Model Recorder
begin

text \<open>
  \<^verbatim>\<open>src/banking_stage.rs\<close>: a batch from its signatures to the commit of its groups. The
  state is everything a batch reads and writes: the store, the bank's counters, the lock table,
  the cost tracker, the two channels, the executor's cache and the batch's results. It outlives
  early returns and panics, so every step gives a result together with the state it leaves.
\<close>

section \<open>The state of the stage\<close>

datatype batch_error = VerificationPanicked | RecorderFailed recorder_error

record 's stage =
  st_store :: 's
  st_bank :: bank
  st_locks :: lock_state
  st_tracker :: cost_tracker
  st_tx_sender :: "transaction channel"
  st_poh_sender :: "hash channel"
  st_cache :: program_cache
  st_final_results :: "transaction_error option list"

type_synonym costed = "nat \<times> transaction \<times> transaction_cost"

definition banking_stage_new ::
    "hash channel \<Rightarrow> transaction channel \<Rightarrow> 's \<Rightarrow> bank \<Rightarrow> 's stage" where
  "banking_stage_new poh_record_sender tx_sender s b =
     \<lparr>st_store = s, st_bank = b, st_locks = locks_new,
      st_tracker = cost_tracker_new MAX_BLOCK_UNITS MAX_WRITABLE_ACCOUNT_UNITS,
      st_tx_sender = tx_sender, st_poh_sender = poh_record_sender, st_cache = [],
      st_final_results = []\<rparr>"

text \<open>A loop over the state that collects what its body returns.\<close>

primrec loop ::
    "('x \<Rightarrow> 's \<Rightarrow> ('y, 'e) result \<times> 's) \<Rightarrow> 'x list \<Rightarrow> 's \<Rightarrow> ('y list, 'e) result \<times> 's" where
  "loop f [] st = (Ok [], st)"
| "loop f (x # xs) st =
     run_then (f x st) (\<lambda>y st. run_then (loop f xs st) (\<lambda>ys st. (Ok (y # ys), st)))"

definition set_result :: "nat \<Rightarrow> transaction_error \<Rightarrow> 's stage \<Rightarrow> 's stage" where
  "set_result i e st = st\<lparr>st_final_results := (st_final_results st)[i := Some e]\<rparr>"

text \<open>Sending may fail, which is only logged.\<close>

definition requeue_transaction :: "transaction \<Rightarrow> 's stage \<Rightarrow> 's stage" where
  "requeue_transaction tx st =
     (case channel_send tx (st_tx_sender st) of
        Some ch \<Rightarrow> st\<lparr>st_tx_sender := ch\<rparr> | None \<Rightarrow> st)"

text \<open>\<^verbatim>\<open>subtract_cost\<close> on the shared tracker.\<close>

definition refund :: "transaction_cost \<Rightarrow> 's stage \<Rightarrow> (unit, batch_error) result \<times> 's stage" where
  "refund cost st =
     run_then (lift_result (unwrap_result (subtract_cost (st_tracker st) cost)) st)
       (\<lambda>ct st. (Ok (), st\<lparr>st_tracker := ct\<rparr>))"

section \<open>The parts of a batch\<close>

text \<open>
  The verification runs in a blocking task, whose panic is the error of its \<^verbatim>\<open>await\<close>. Then
  the transactions whose signatures are bad are dropped with their error.
\<close>

definition verify_batch ::
    "crypto \<Rightarrow> message codec \<Rightarrow> transaction list \<Rightarrow>
     ((unit, transaction_error) result list, batch_error) result" where
  "verify_batch cr mc txs =
     (let verified = map (verify_signatures_sync cr mc) txs in
      if Panic \<in> set verified then Err VerificationPanicked else Ok verified)"

definition verdict :: "(unit, transaction_error) result \<Rightarrow> transaction_error option" where
  "verdict r = (case r of Err e \<Rightarrow> Some e | _ \<Rightarrow> None)"

definition txs_to_schedule ::
    "(unit, transaction_error) result list \<Rightarrow> transaction list \<Rightarrow> (nat \<times> transaction) list" where
  "txs_to_schedule verification_results txs =
     filter (\<lambda>(i, _). verdict (verification_results ! i) = None) (enumerate 0 txs)"

text \<open>The cost of one transaction: charged when it fits, and otherwise its result.\<close>

definition select_one ::
    "pubkey set \<Rightarrow> nat \<times> transaction \<Rightarrow> 's stage \<Rightarrow> (costed option, batch_error) result \<times> 's stage" where
  "select_one cost_model itx st =
     (case itx of (original_index, tx) \<Rightarrow>
      run_then (lift_result (unwrap_result (calculate_cost cost_model tx)) st) (\<lambda>cost st.
      if would_fit (st_tracker st) cost = Ok ()
      then run_then (lift_result (unwrap_result (add_cost (st_tracker st) cost)) st)
        (\<lambda>ct st. (Ok (Some (original_index, tx, cost)), st\<lparr>st_tracker := ct\<rparr>))
      else (Ok None, set_result original_index WouldExceedMaxBlockCostLimit st)))"

text \<open>A group that is refused its locks gives its costs back and goes to the queue again.\<close>

definition roll_back_one ::
    "(nat \<times> transaction) list \<Rightarrow> costed \<Rightarrow> 's stage \<Rightarrow> (unit, batch_error) result \<times> 's stage" where
  "roll_back_one scheduled c st =
     (case c of (original_index, _, cost) \<Rightarrow>
      run_then (refund cost st) (\<lambda>_ st.
      let st = set_result original_index AccountInUse st in
      run_then (lift_result (unwrap (List.find (\<lambda>(idx, _). idx = original_index) scheduled)) st)
        (\<lambda>(_, tx) st. (Ok (), requeue_transaction tx st))))"

text \<open>
  One call inside \<^verbatim>\<open>par_iter\<close>. The threads share the store, which none of them writes, and
  the executor's cache, on which no success depends; a panic of one is a panic of the stage.
\<close>

definition process_one ::
    "('rent, 'exe) env \<Rightarrow> 's store_ops \<Rightarrow> costed \<Rightarrow> 's stage \<Rightarrow>
     (costed \<times> (dirty_map, transaction_error) result, batch_error) result \<times> 's stage" where
  "process_one env so c st =
     (case c of (_, tx, cost) \<Rightarrow>
      case process_single_transaction env so (st_store st) (st_bank st) tx (cost_sum cost) (st_cache st) of
        (r, cache) \<Rightarrow>
          (if r = Panic then Panic else Ok (c, r), st\<lparr>st_cache := cache\<rparr>))"

definition record_group ::
    "crypto \<Rightarrow> (nat \<times> transaction) list \<Rightarrow> 's stage \<Rightarrow> (unit, batch_error) result \<times> 's stage" where
  "record_group cr txs st =
     run_then (lift_result (map_err RecorderFailed (record_transactions cr (st_poh_sender st) txs)) st)
       (\<lambda>ch st. (Ok (), st\<lparr>st_poh_sender := ch\<rparr>))"

text \<open>What follows for each result: metrics, and the overlay or the error.\<close>

definition settle_one ::
    "costed \<times> (dirty_map, transaction_error) result \<Rightarrow> 's stage \<Rightarrow>
     (dirty_map option, batch_error) result \<times> 's stage" where
  "settle_one cr st =
     (case cr of ((original_index, tx, cost), processing_result) \<Rightarrow>
      let st = st\<lparr>st_bank := record_transaction_metrics (is_ok processing_result) (st_bank st)\<rparr> in
      case processing_result of
        Ok overlay \<Rightarrow> (Ok (Some overlay), st)
      | Err e \<Rightarrow>
          run_then (refund cost st) (\<lambda>_ st.
          let st = (if is_retryable e then requeue_transaction tx st else st) in
          (Ok None, set_result original_index e st))
      | Panic \<Rightarrow> (Panic, st))"

definition commit_group ::
    "'s store_ops \<Rightarrow> dirty_map list \<Rightarrow> 's stage \<Rightarrow> (unit, batch_error) result \<times> 's stage" where
  "commit_group so overlays st =
     run_then (lift_result (unwrap_result (commit_overlays (so_store so) overlays (st_store st))) st)
       (\<lambda>s st. (Ok (), st\<lparr>st_store := s\<rparr>))"

text \<open>
  The body between taking the guards and dropping them. Both guards are dropped whether it
  ends, returns early or unwinds.
\<close>

definition locked_group ::
    "('rent, 'exe) env \<Rightarrow> 's store_ops \<Rightarrow> crypto \<Rightarrow> costed list \<Rightarrow> 's stage \<Rightarrow>
     (unit, batch_error) result \<times> 's stage" where
  "locked_group env so cr chosen st =
     run_then (loop (process_one env so) chosen st) (\<lambda>group_results st.
     run_then (record_group cr (map (\<lambda>(i, tx, _). (i, tx)) chosen) st) (\<lambda>_ st.
     run_then (loop settle_one group_results st) (\<lambda>overlays st.
     commit_group so (List.map_filter id overlays) st)))"

definition drop_guards ::
    "lock_guard \<Rightarrow> (unit, batch_error) result \<times> 's stage \<Rightarrow> (unit, batch_error) result \<times> 's stage" where
  "drop_guards guard rst =
     (case rst of (r, st) \<Rightarrow>
      case drop_guard guard (st_locks st) of
        Ok locks \<Rightarrow> (r, st\<lparr>st_locks := locks, st_bank := release_freeze_lock (st_bank st)\<rparr>)
      | _ \<Rightarrow> (Panic, st))"

definition run_chosen ::
    "('rent, 'exe) env \<Rightarrow> 's store_ops \<Rightarrow> crypto \<Rightarrow> (nat \<times> transaction) list \<Rightarrow> costed list \<Rightarrow> 's stage \<Rightarrow>
     (unit, batch_error) result \<times> 's stage" where
  "run_chosen env so cr scheduled chosen st =
     (if chosen = [] then (Ok (), st)
      else
        case try_lock_accounts_for_group (map (\<lambda>(i, tx, _). (i, tx)) chosen) (st_locks st) of
          Ok (locks, guard) \<Rightarrow>
            drop_guards guard (locked_group env so cr chosen
              (st\<lparr>st_locks := locks, st_bank := acquire_freeze_lock (st_bank st)\<rparr>))
        | Err LockAccountInUse \<Rightarrow>
            run_then (loop (roll_back_one scheduled) chosen st) (\<lambda>_ st. (Ok (), st))
        | Panic \<Rightarrow> (Panic, st))"

definition process_group ::
    "('rent, 'exe) env \<Rightarrow> 's store_ops \<Rightarrow> crypto \<Rightarrow> pubkey set \<Rightarrow> (nat \<times> transaction) list \<Rightarrow>
     (nat \<times> transaction) list \<Rightarrow> 's stage \<Rightarrow> (unit, batch_error) result \<times> 's stage" where
  "process_group env so cr cost_model scheduled grp st =
     run_then (loop (select_one cost_model) grp st) (\<lambda>selected.
       run_chosen env so cr scheduled (List.map_filter id selected))"

definition process_batch ::
    "('rent, 'exe) env \<Rightarrow> 's store_ops \<Rightarrow> crypto \<Rightarrow> message codec \<Rightarrow> pubkey set \<Rightarrow> transaction list \<Rightarrow>
     's stage \<Rightarrow> (transaction_error option list, batch_error) result \<times> 's stage" where
  "process_batch env so cr mc cost_model txs st =
     run_then (lift_result (verify_batch cr mc txs) st) (\<lambda>verification_results st.
     let st = st\<lparr>st_final_results := map verdict verification_results\<rparr>;
         scheduled = txs_to_schedule verification_results txs in
     run_then (loop (process_group env so cr cost_model scheduled) (schedule scheduled) st) (\<lambda>_ st.
     (Ok (st_final_results st), st\<lparr>st_tracker := cost_reset (st_tracker st)\<rparr>)))"

end
