(* ===== verification/Banking_Laws.thy ===== *)
theory Banking_Laws
  imports Banking_Stage Bank_Laws
begin

text \<open>
  What a batch guarantees (\<^verbatim>\<open>src/banking_stage.rs\<close>): it gives its locks back, whatever its
  result, it re-queues nothing when the lock table is free, it is refused or dies on malformed
  signatures, and it completes otherwise, with no panic of the cost tracker.
\<close>

section \<open>What the parts of a batch keep\<close>

text \<open>A relation between the state before and the state after, whatever the result.\<close>

lemma run_then_rel:
  assumes "transp R" and "R st (snd m)" and "\<And>a. fst m = Ok a \<Longrightarrow> R (snd m) (snd (f a (snd m)))"
  shows "R st (snd (run_then m f))"
proof (cases "fst m")
  case (Ok a)
  then have "run_then m f = f a (snd m)" by (cases m) simp
  with assms(2) assms(3) [OF Ok] show ?thesis by (metis assms(1) transpE)
qed (use assms(2) in \<open>cases m, simp\<close>)+

lemma loop_rel:
  assumes "transp R" and "reflp R" and "\<And>x st. x \<in> set xs \<Longrightarrow> R st (snd (f x st))"
  shows "R st (snd (loop f xs st))"
  using assms(3)
proof (induction xs arbitrary: st)
  case Nil
  show ?case using assms(2) by (simp add: reflpD)
next
  case (Cons x xs)
  have rest: "R s1 (snd (run_then (loop f xs s1) (\<lambda>ys st. (Ok (y # ys), st))))" for y s1
    by (rule run_then_rel [OF assms(1)]) (simp_all add: Cons reflpD [OF assms(2)])
  show ?case
    unfolding loop.simps by (rule run_then_rel [OF assms(1)]) (rule Cons.prems, simp, rule rest)
qed

text \<open>
  A relation that no step of the stage breaks but the commit, the re-queueing of a transaction,
  and taking and dropping guards (\<open>step_relation\<close>), with the commit (\<open>stage_relation\<close>), with
  re-queueing (\<open>requeue_steps\<close>), and with both (\<open>requeue_relation\<close>).
\<close>

locale step_relation =
  fixes R :: "'s stage \<Rightarrow> 's stage \<Rightarrow> bool"
  assumes trans: "transp R" and refl: "reflp R"
    and tracker: "R st (st\<lparr>st_tracker := ct\<rparr>)" and cache: "R st (st\<lparr>st_cache := c\<rparr>)"
    and poh_sender: "sent_more (st_poh_sender st) ch \<Longrightarrow> R st (st\<lparr>st_poh_sender := ch\<rparr>)"
    and set_result: "R st (set_result i e st)"
    and metrics: "R st (st\<lparr>st_bank := record_transaction_metrics ok (st_bank st)\<rparr>)"
begin

lemmas run_then = run_then_rel [OF trans]
lemmas looping = loop_rel [OF trans refl]

lemma R_refl [simp]: "R st st"
  using refl by (rule reflpD)

lemma R_trans: "R st st' \<Longrightarrow> R st' st'' \<Longrightarrow> R st st''"
  using trans by (rule transpD)

lemma refund: "R st (snd (refund cost st))"
  unfolding refund_def by (rule run_then) (simp_all add: tracker)

lemma select: "R st (snd (select_one b itx st))"
  unfolding select_one_def case_prod_beta
  by (rule run_then) (auto intro!: run_then simp: tracker set_result)

lemma process_one: "R st (snd (process_one env so c st))"
  by (simp add: process_one_def case_prod_beta cache)

lemma record_group: "R st (snd (record_group cr txs st))"
  by (cases "record_transactions cr (st_poh_sender st) txs")
    (simp_all add: record_group_def lift_result_def run_then_def poh_sender record_sends)

text \<open>A result that is not put in the queue again.\<close>

lemma settle_one:
  assumes "\<And>e. snd cr = Err e \<Longrightarrow> is_retryable e \<Longrightarrow> (\<And>tx st. R st (requeue_transaction tx st))"
  shows "R st (snd (settle_one cr st))"
proof -
  obtain i tx cost r where cr: "cr = ((i, tx, cost), r)" by (cases cr) auto
  have m: "R st (st\<lparr>st_bank := record_transaction_metrics (is_ok r) (st_bank st)\<rparr>)" by (rule metrics)
  have again: "R st1 (set_result i e (if is_retryable e then requeue_transaction tx st1 else st1))"
    if "r = Err e" for e st1
  proof (cases "is_retryable e")
    case True
    then have "R st1 (requeue_transaction tx st1)" using assms [of e] that by (simp add: cr)
    then show ?thesis using True R_trans [OF _ set_result] by simp
  qed (simp add: set_result)
  have "R st2 (snd (run_then (refund cost st2) (\<lambda>_ st.
      let st = (if is_retryable e then requeue_transaction tx st else st) in
      (Ok None, set_result i e st))))" if "r = Err e" for e st2
    by (rule run_then) (simp_all add: refund Let_def again that)
  with m show ?thesis by (cases r) (auto simp: cr settle_one_def Let_def intro: R_trans)
qed

end

locale stage_relation = step_relation +
  assumes store: "R st (st\<lparr>st_store := s\<rparr>)"
begin

lemma commit_group: "R st (snd (commit_group so ds st))"
  unfolding commit_group_def by (rule run_then) (simp_all add: store)

end

locale requeue_steps = step_relation +
  assumes requeue: "R st (requeue_transaction tx st)"
begin

lemma roll_back: "R st (snd (roll_back_one scheduled c st))"
proof -
  obtain i tx cost where c: "c = (i, tx, cost)" by (cases c) auto
  show ?thesis
    unfolding c roll_back_one_def prod.case Let_def
  proof (rule run_then)
    show "R st (snd (refund cost st))" by (rule refund)
    have "R (set_result i AccountInUse st1) (snd (run_then (lift_result (unwrap
        (List.find (\<lambda>(idx, _). idx = i) scheduled)) (set_result i AccountInUse st1))
        (\<lambda>(_, tx) st. (Ok (), requeue_transaction tx st))))" for st1
      by (rule run_then) (auto simp: requeue case_prod_beta)
    then show "R (snd (refund cost st)) (snd (run_then (lift_result (unwrap
        (List.find (\<lambda>(idx, _). idx = i) scheduled)) (set_result i AccountInUse (snd (refund cost st))))
        (\<lambda>(_, tx) st. (Ok (), requeue_transaction tx st))))"
      by (rule R_trans [OF set_result])
  qed
qed

end

locale requeue_relation = stage_relation R + requeue_steps R
  for R :: "'s stage \<Rightarrow> 's stage \<Rightarrow> bool"
begin

lemma locked_group: "R st (snd (locked_group env so cr chosen st))"
  unfolding locked_group_def
  by (rule run_then, rule looping, rule process_one, rule run_then, rule record_group, rule run_then,
      rule looping, rule settle_one, rule requeue, rule commit_group)

end

text \<open>Locks and freeze locks stay as they are.\<close>

definition same_guards :: "'s stage \<Rightarrow> 's stage \<Rightarrow> bool" where
  "same_guards st st' \<longleftrightarrow>
     st_locks st' = st_locks st \<and>
     bk_freeze_lock_count (st_bank st') = bk_freeze_lock_count (st_bank st)"

interpretation guards: requeue_relation same_guards
  by unfold_locales
    (auto simp: same_guards_def transp_def reflp_def record_transaction_metrics_def
      requeue_transaction_def set_result_def split: option.splits)

text \<open>The queue stays as it is.\<close>

definition same_queue :: "'s stage \<Rightarrow> 's stage \<Rightarrow> bool" where
  "same_queue st st' \<longleftrightarrow> st_tx_sender st' = st_tx_sender st"

interpretation queue: stage_relation same_queue
  by unfold_locales (auto simp: same_queue_def transp_def reflp_def set_result_def)

text \<open>The results have a place for every transaction of the batch, and one that is set stays set.\<close>

definition more_results :: "'s stage \<Rightarrow> 's stage \<Rightarrow> bool" where
  "more_results st st' \<longleftrightarrow>
     list_all2 (\<lambda>r r'. r \<noteq> None \<longrightarrow> r' \<noteq> None) (st_final_results st) (st_final_results st')"

lemma more_results_rel: "transp more_results" "reflp more_results"
  by (auto simp: transp_def reflp_def more_results_def list_all2_conv_all_nth)

lemma more_results_set: "more_results st (set_result i e st)"
  by (cases "i < length (st_final_results st)")
    (auto simp: more_results_def set_result_def list_all2_conv_all_nth nth_list_update
      list_update_beyond)

lemma more_results_same: "st_final_results st' = st_final_results st \<Longrightarrow> more_results st st'"
  by (simp add: more_results_def list_all2_same)

interpretation results: requeue_relation more_results
  by unfold_locales
    (auto simp: more_results_rel more_results_set requeue_transaction_def
      intro!: more_results_same split: option.splits)

lemma drop_guards_results: "more_results st (snd (drop_guards g rst)) \<longleftrightarrow> more_results st (snd rst)"
  by (auto simp: drop_guards_def more_results_def split: prod.splits result.splits)

text \<open>A table is determined by the guards that are held.\<close>

lemma lock_inv_unique: "lock_inv s gs \<Longrightarrow> lock_inv s' gs \<Longrightarrow> s = s'"
  by (simp add: lock_inv_def)

lemma drop_guards_back:
  assumes inv: "lock_inv (st_locks st) gs"
    and lock: "try_lock_accounts_for_group grp (st_locks st) = Ok (locks, guard)"
    and guards: "same_guards (st\<lparr>st_locks := locks, st_bank := acquire_freeze_lock (st_bank st)\<rparr>) (snd rst)"
  shows "same_guards st (snd (drop_guards guard rst))" and "fst (drop_guards guard rst) = fst rst"
proof -
  obtain r st1 where rst: "rst = (r, st1)" by (cases rst) auto
  have "lock_inv locks (guard # gs)" using inv lock by (rule try_lock_inv)
  then obtain locks' where d: "drop_guard guard locks = Ok locks'" and "lock_inv locks' gs"
    using drop_guard_inv [of locks "[]" guard gs] by auto
  then have "locks' = st_locks st" using inv lock_inv_unique by blast
  with d guards show "same_guards st (snd (drop_guards guard rst))" "fst (drop_guards guard rst) = fst rst"
    by (simp_all add: rst drop_guards_def same_guards_def acquire_freeze_lock_def release_freeze_lock_def)
qed

section \<open>Locks are given back\<close>

lemma chosen_guards:
  assumes inv: "lock_inv (st_locks st) gs"
  shows "same_guards st (snd (run_chosen env so cr scheduled chosen st))"
proof (cases "try_lock_accounts_for_group (map (\<lambda>(i, tx, _). (i, tx)) chosen) (st_locks st)")
  case (Ok lg)
  obtain locks guard where lg: "lg = (locks, guard)" by (cases lg) auto
  show ?thesis
    using drop_guards_back(1) [OF inv Ok [unfolded lg] guards.locked_group, of env so cr chosen]
    by (simp add: run_chosen_def Ok lg)
next
  case (Err e)
  have "same_guards st (snd (run_then (loop (roll_back_one scheduled) chosen st) (\<lambda>_ st. (Ok (), st))))"
    by (rule guards.run_then) (simp_all add: guards.looping guards.roll_back)
  then show ?thesis using Err by (cases e) (simp add: run_chosen_def)
qed (simp add: run_chosen_def)

lemma group_guards:
  assumes inv: "lock_inv (st_locks st) gs"
  shows "same_guards st (snd (process_group env so cr b scheduled grp st))"
  unfolding process_group_def
proof (rule guards.run_then)
  show sel: "same_guards st (snd (loop (select_one b) grp st))"
    by (rule guards.looping) (rule guards.select)
  then show "same_guards (snd (loop (select_one b) grp st)) (snd (run_chosen env so cr scheduled
      (List.map_filter id selected) (snd (loop (select_one b) grp st))))" for selected
    using inv by (intro chosen_guards) (simp add: same_guards_def)
qed

text \<open>The relation a loop over the groups keeps, the table's invariant being its precondition.\<close>

lemma groups_rel:
  assumes "transp R" and "reflp R" and "lock_inv (st_locks st) gs"
    and "\<And>grp st. lock_inv (st_locks st) gs \<Longrightarrow> R st (snd (process_group env so cr b scheduled grp st))"
  shows "R st (snd (loop (process_group env so cr b scheduled) grps st))"
proof -
  let ?R = "\<lambda>st st'. lock_inv (st_locks st) gs \<longrightarrow> lock_inv (st_locks st') gs \<and> R st st'"
  have step: "?R st (snd (process_group env so cr b scheduled grp st))" for grp st
    using assms(4) [of st grp] group_guards [of st gs env so cr b scheduled grp]
    by (auto simp: same_guards_def)
  have "transp ?R" using assms(1) by (auto simp: transp_def)
  moreover have "reflp ?R" using assms(2) by (simp add: reflp_def)
  ultimately have "?R st (snd (loop (process_group env so cr b scheduled) grps st))"
    using step by (rule loop_rel)
  with assms(3) show ?thesis by blast
qed

lemma batch_guards:
  assumes inv: "lock_inv (st_locks st) gs"
  shows "same_guards st (snd (process_batch env so cr mc b txs st))"
  unfolding process_batch_def Let_def
proof (rule guards.run_then)
  fix vs
  have inv': "lock_inv (st_locks (st\<lparr>st_final_results := map verdict vs\<rparr>)) gs" using inv by simp
  have "same_guards (st\<lparr>st_final_results := map verdict vs\<rparr>)
      (snd (loop (process_group env so cr b (txs_to_schedule vs txs)) (schedule (txs_to_schedule vs txs))
        (st\<lparr>st_final_results := map verdict vs\<rparr>)))"
    by (rule groups_rel [OF guards.trans guards.refl inv']) (rule group_guards)
  then have "same_guards (st\<lparr>st_final_results := map verdict vs\<rparr>)
      (snd (run_then (loop (process_group env so cr b (txs_to_schedule vs txs))
        (schedule (txs_to_schedule vs txs)) (st\<lparr>st_final_results := map verdict vs\<rparr>))
        (\<lambda>_ st. (Ok (st_final_results st), st\<lparr>st_tracker := cost_reset (st_tracker st)\<rparr>))))"
    by (rule guards.run_then) (simp add: guards.tracker)
  then show "same_guards (snd (lift_result (verify_batch cr mc txs) st))
      (snd (run_then (loop (process_group env so cr b (txs_to_schedule vs txs))
        (schedule (txs_to_schedule vs txs))
        ((snd (lift_result (verify_batch cr mc txs) st))\<lparr>st_final_results := map verdict vs\<rparr>))
        (\<lambda>_ st. (Ok (st_final_results st), st\<lparr>st_tracker := cost_reset (st_tracker st)\<rparr>))))"
    by (simp add: same_guards_def)
qed simp

section \<open>Nothing is queued again\<close>

lemma run_then_Err_iff:
  "fst (run_then m f) = Err e \<longleftrightarrow>
     fst m = Err e \<or> (\<exists>a. fst m = Ok a \<and> fst (f a (snd m)) = Err e)"
  by (cases m; cases "fst m") auto

lemma for_each_Err: "for_each f xs s = Err e \<Longrightarrow> \<exists>x s'. f x s' = Err e"
  by (induction xs arbitrary: s) (auto simp: and_then_Err_iff)

lemma prepare_one_Err: "prepare_one keys h m st = Err e \<Longrightarrow> \<exists>t. e = internal t"
  by (auto simp: prepare_one_def Let_def and_then_Err_iff split: prod.splits if_splits)

lemma prepare_Err: "prepare_account_infos ix keys h = Err e \<Longrightarrow> \<exists>p. e = ProgramError p"
  by (auto simp: prepare_account_infos_def and_then_Err_iff internal_def
      dest!: for_each_Err prepare_one_Err)

lemma execute_one_Err:
  "fst (execute_one env keys budget ix h cache) = Err e \<Longrightarrow> \<exists>p. e = ProgramError p"
  by (auto simp: execute_one_def run_then_Err_iff Let_def case_prod_beta lift_result_def
      dest: prepare_Err)

lemma execute_all_Err:
  "fst (execute_all env keys budget ixs h cache) = Err e \<Longrightarrow> \<exists>p. e = ProgramError p"
  by (induction ixs arbitrary: h cache) (auto simp: run_then_Err_iff dest: execute_one_Err)

lemma preflight_Err: "check_preflight_rules b tx = Err e \<Longrightarrow> \<not> is_retryable e"
  by (auto simp: check_preflight_rules_def Let_def split: if_splits option.splits)

lemma process_not_retryable:
  "fst (process_single_transaction env so s b tx budget cache) = Err e \<Longrightarrow> \<not> is_retryable e"
  by (auto simp: process_single_transaction_def run_then_Err_iff lift_result_def loaded_seen
      store_loaded_all execute_instructions_def dest: preflight_Err execute_all_Err)

text \<open>What every element of a loop's result has.\<close>

lemma loop_all:
  "fst (loop f xs st) = Ok ys \<Longrightarrow> (\<And>x st y. x \<in> set xs \<Longrightarrow> fst (f x st) = Ok y \<Longrightarrow> P y) \<Longrightarrow> list_all P ys"
proof (induction xs arbitrary: st ys)
  case (Cons x xs)
  then obtain y ys' where y: "fst (f x st) = Ok y"
    and ys': "fst (loop f xs (snd (f x st))) = Ok ys'" "ys = y # ys'"
    by (auto simp: run_then_Ok_iff)
  have "P y" using y by (intro Cons.prems(2)) simp_all
  moreover have "list_all P ys'" using ys'(1) by (rule Cons.IH) (auto intro: Cons.prems(2))
  ultimately show ?case by (simp add: ys'(2))
qed simp

definition final_result :: "costed \<times> (dirty_map, transaction_error) result \<Rightarrow> bool" where
  "final_result cr \<longleftrightarrow> (\<forall>e. snd cr = Err e \<longrightarrow> \<not> is_retryable e)"

lemma process_one_final: "fst (process_one env so c st) = Ok y \<Longrightarrow> final_result y"
  by (auto simp: process_one_def final_result_def case_prod_beta split: if_splits
      dest: process_not_retryable)

lemma locked_queue: "same_queue st (snd (locked_group env so cr chosen st))"
  unfolding locked_group_def
proof (rule queue.run_then)
  show "same_queue st (snd (loop (process_one env so) chosen st))"
    by (rule queue.looping) (rule queue.process_one)
  fix rs
  assume "fst (loop (process_one env so) chosen st) = Ok rs"
  then have final: "list_all final_result rs" by (rule loop_all) (rule process_one_final)
  have settle: "same_queue st1 (snd (loop settle_one rs st1))" for st1 :: "'a stage"
    by (rule queue.looping, rule queue.settle_one)
      (use final in \<open>auto simp: list_all_iff final_result_def\<close>)
  show "same_queue (snd (loop (process_one env so) chosen st))
      (snd (run_then (record_group cr (map (\<lambda>(i, tx, _). (i, tx)) chosen) (snd (loop (process_one env so) chosen st)))
        (\<lambda>_ st. run_then (loop settle_one rs st) (\<lambda>overlays st.
          commit_group so (List.map_filter id overlays) st))))"
    by (rule queue.run_then, rule queue.record_group, rule queue.run_then, rule settle, rule queue.commit_group)
qed

lemma chosen_queue:
  assumes "lock_inv (st_locks st) []"
  shows "same_queue st (snd (run_chosen env so cr scheduled chosen st))"
proof (cases "try_lock_accounts_for_group (map (\<lambda>(i, tx, _). (i, tx)) chosen) (st_locks st)")
  case (Ok lg)
  obtain locks guard where lg: "lg = (locks, guard)" by (cases lg) auto
  let ?st = "st\<lparr>st_locks := locks, st_bank := acquire_freeze_lock (st_bank st)\<rparr>"
  have "same_queue ?st (snd (locked_group env so cr chosen ?st))" by (rule locked_queue)
  moreover have "st_tx_sender (snd (drop_guards guard rst)) = st_tx_sender (snd rst)" for rst :: "(unit, batch_error) result \<times> 'a stage"
    by (simp add: drop_guards_def case_prod_beta split: result.splits)
  ultimately show ?thesis by (simp add: run_chosen_def Ok lg same_queue_def)
next
  case (Err e)
  then show ?thesis using try_lock_Err_iff [OF assms] by (cases e) simp
qed (simp add: run_chosen_def)

lemma batch_queue:
  assumes inv: "lock_inv (st_locks st) []"
  shows "same_queue st (snd (process_batch env so cr mc b txs st))"
proof -
  have grp: "same_queue st (snd (process_group env so cr b scheduled grp st))"
    if "lock_inv (st_locks st) []" for st grp scheduled
  proof -
    have "same_guards st (snd (loop (select_one b) grp st))"
      by (rule guards.looping) (rule guards.select)
    with that have "lock_inv (st_locks (snd (loop (select_one b) grp st))) []"
      by (simp add: same_guards_def)
    then show ?thesis
      unfolding process_group_def
      by (intro queue.run_then queue.looping queue.select chosen_queue)
  qed
  have groups: "same_queue st (snd (loop (process_group env so cr b scheduled) grps st))"
    if "lock_inv (st_locks st) []" for st grps scheduled
    using that grp by (rule groups_rel [OF queue.trans queue.refl])
  show ?thesis
    unfolding process_batch_def Let_def
  proof (rule queue.run_then)
    fix vs
    have "lock_inv (st_locks (st\<lparr>st_final_results := map verdict vs\<rparr>)) []" using inv by simp
    from groups [OF this, of "txs_to_schedule vs txs" "schedule (txs_to_schedule vs txs)"]
    show "same_queue (snd (lift_result (verify_batch cr mc txs) st))
        (snd (run_then (loop (process_group env so cr b (txs_to_schedule vs txs))
          (schedule (txs_to_schedule vs txs))
          ((snd (lift_result (verify_batch cr mc txs) st))\<lparr>st_final_results := map verdict vs\<rparr>))
          (\<lambda>_ st. (Ok (st_final_results st), st\<lparr>st_tracker := cost_reset (st_tracker st)\<rparr>))))"
      by (auto simp: same_queue_def run_then_def split: prod.splits result.splits)
  qed simp
qed

section \<open>Every transaction has a result\<close>

lemma chosen_results: "more_results st (snd (run_chosen env so cr scheduled chosen st))"
proof (cases "try_lock_accounts_for_group (map (\<lambda>(i, tx, _). (i, tx)) chosen) (st_locks st)")
  case (Ok lg)
  obtain locks guard where lg: "lg = (locks, guard)" by (cases lg) auto
  let ?st = "st\<lparr>st_locks := locks, st_bank := acquire_freeze_lock (st_bank st)\<rparr>"
  have "more_results ?st (snd (locked_group env so cr chosen ?st))" by (rule results.locked_group)
  then show ?thesis
    by (simp add: run_chosen_def Ok lg drop_guards_results) (simp add: more_results_def)
next
  case (Err e)
  have "more_results st (snd (run_then (loop (roll_back_one scheduled) chosen st) (\<lambda>_ st. (Ok (), st))))"
    by (rule results.run_then) (simp_all add: results.looping results.roll_back)
  then show ?thesis using Err by (cases e) (simp add: run_chosen_def)
qed (simp add: run_chosen_def)

lemma group_results: "more_results st (snd (process_group env so cr b scheduled grp st))"
  unfolding process_group_def
  by (rule results.run_then, rule results.looping, rule results.select, rule chosen_results)

lemma batch_results:
  assumes ok: "fst (process_batch env so cr mc b txs st) = Ok rs"
  shows "length rs = length txs"
    and "i < length txs \<Longrightarrow> verify_signatures_sync cr mc (txs ! i) \<noteq> Ok () \<Longrightarrow> rs ! i \<noteq> None"
proof -
  let ?vs = "map (verify_signatures_sync cr mc) txs"
  let ?st = "st\<lparr>st_final_results := map verdict ?vs\<rparr>"
  let ?loop = "loop (process_group env so cr b (txs_to_schedule ?vs txs)) (schedule (txs_to_schedule ?vs txs)) ?st"
  have noPanic: "Panic \<notin> set ?vs" and rs: "rs = st_final_results (snd ?loop)"
    using ok by (auto simp: process_batch_def verify_batch_def Let_def run_then_Ok_iff split: if_splits)
  have "more_results ?st (snd ?loop)" by (rule results.looping) (rule group_results)
  then have more: "list_all2 (\<lambda>r r'. r \<noteq> None \<longrightarrow> r' \<noteq> None) (map verdict ?vs) rs"
    by (simp add: more_results_def rs)
  then show "length rs = length txs" by (auto dest: list_all2_lengthD)
  show "rs ! i \<noteq> None" if i: "i < length txs" "verify_signatures_sync cr mc (txs ! i) \<noteq> Ok ()"
  proof -
    have "verify_signatures_sync cr mc (txs ! i) \<in> set ?vs" using i(1) by simp
    with noPanic have "verify_signatures_sync cr mc (txs ! i) \<noteq> Panic" by metis
    then have "verdict (verify_signatures_sync cr mc (txs ! i)) \<noteq> None"
      using i(2) by (cases "verify_signatures_sync cr mc (txs ! i)") (simp_all add: verdict_def)
    then show ?thesis using list_all2_nthD [OF more, of i] i(1) by simp
  qed
qed

end
