(* ===== verification/Batch_Progress.thy ===== *)
theory Batch_Progress
  imports Banking_Laws
begin

text \<open>
  When a batch completes (\<^verbatim>\<open>src/banking_stage.rs\<close>): the costs it charges are given back or
  committed, its groups get their locks, and it returns a result for every transaction. And
  when it does not: a transaction without a signature, or with more signatures than keys.
\<close>

section \<open>Malformed signatures\<close>

lemma verify_panic_iff:
  assumes "ser mc (tx_message tx) = Some bs"
  shows "verify_signatures_sync cr mc tx = Panic \<longleftrightarrow>
    length (tx_signatures tx) > length (msg_account_keys (tx_message tx))"
  using assms by (auto simp: verify_signatures_sync_def serialize_for_signing_def Let_def)

lemma batch_oversigned:
  assumes "tx \<in> set txs" and "ser mc (tx_message tx) = Some bs"
    and "length (tx_signatures tx) > length (msg_account_keys (tx_message tx))"
  shows "process_batch env so cr mc b txs st = (Err VerificationPanicked, st)"
proof -
  have "Panic \<in> set (map (verify_signatures_sync cr mc) txs)"
    using assms(1,3) verify_panic_iff [OF assms(2), of cr] by force
  then show ?thesis by (simp add: process_batch_def verify_batch_def lift_result_def)
qed

lemma loop_no_Err: "(\<And>x st e. fst (f x st) \<noteq> Err e) \<Longrightarrow> fst (loop f xs st) \<noteq> Err e"
  by (induction xs arbitrary: st) (auto simp: run_then_Err_iff)

lemma run_then_Panic: "fst m = Panic \<Longrightarrow> fst (run_then m f) = Panic"
  by (cases m) simp

lemma process_one_no_Err: "fst (process_one env so c st) \<noteq> Err e"
  by (simp add: process_one_def case_prod_beta)

lemma locked_unsigned:
  assumes "\<not> list_all is_signed (map (\<lambda>(i, tx, _). (i, tx)) chosen)"
  shows "fst (locked_group env so cr chosen st) = Panic"
proof (cases "fst (loop (process_one env so) chosen st)")
  case (Ok rs)
  obtain st1 where st1: "loop (process_one env so) chosen st = (Ok rs, st1)"
    using Ok by (cases "loop (process_one env so) chosen st") simp
  have "record_transactions cr (st_poh_sender st1) (map (\<lambda>(i, tx, _). (i, tx)) chosen) = Panic"
    using assms by (auto simp: record_transactions_cases)
  then show ?thesis by (simp add: locked_group_def st1 record_group_def lift_result_def)
next
  case (Err e)
  then show ?thesis
    using loop_no_Err [of "process_one env so" chosen st e, OF process_one_no_Err] by simp
qed (simp add: locked_group_def run_then_Panic)

lemma chosen_unsigned:
  assumes "lock_inv (st_locks st) []" and "\<not> list_all is_signed (map (\<lambda>(i, tx, _). (i, tx)) chosen)"
  shows "fst (run_chosen env so cr scheduled chosen st) = Panic"
proof (cases "try_lock_accounts_for_group (map (\<lambda>(i, tx, _). (i, tx)) chosen) (st_locks st)")
  case (Ok lg)
  obtain locks guard where lg: "lg = (locks, guard)" by (cases lg) auto
  let ?st = "st\<lparr>st_locks := locks, st_bank := acquire_freeze_lock (st_bank st)\<rparr>"
  have "fst (drop_guards guard (locked_group env so cr chosen ?st)) = fst (locked_group env so cr chosen ?st)"
    using assms(1) Ok [unfolded lg] guards.locked_group by (rule drop_guards_back(2))
  moreover have "chosen \<noteq> []" using assms(2) by auto
  ultimately show ?thesis using locked_unsigned [OF assms(2)] by (simp add: run_chosen_def Ok lg)
next
  case (Err e)
  then show ?thesis using try_lock_Err_iff [OF assms(1)] by (cases e) simp
qed (use assms(2) in \<open>auto simp: run_chosen_def\<close>)

lemma schedule_single: "schedule [x] = [[x]]"
  by (simp add: schedule_def schedule_loop.simps upt_rec)

lemma calculate_cost_writes: "calculate_cost b tx = Ok tc \<Longrightarrow> tc_writable_accounts tc = write_set tx"
  by (auto simp: calculate_cost_def)

lemma batch_unsigned:
  assumes "tx_signatures tx = []" and "ser mc (tx_message tx) = Some bs"
    and cost: "calculate_cost b tx = Ok cost" and fit: "would_fit (st_tracker st) cost = Ok ()"
    and tracks: "tracks (st_tracker st) L" and inv: "lock_inv (st_locks st) []"
  shows "fst (process_batch env so cr mc b [tx] st) = Panic"
proof -
  have verified: "verify_signatures_sync cr mc tx = Ok ()"
    using assms(2,1) by (rule verify_signatures_sync_unsigned)
  obtain ct where ct: "add_cost (st_tracker st) cost = Ok ct"
    using add_cost_tracks [OF tracks fit] calculate_cost_writes [OF cost] by auto
  let ?st = "st\<lparr>st_final_results := [None]\<rparr>"
  have sel: "loop (select_one b) [(0, tx)] ?st = (Ok [Some (0, tx, cost)], ?st\<lparr>st_tracker := ct\<rparr>)"
    using cost fit ct by (simp add: select_one_def lift_result_def)
  have "fst (run_chosen env so cr [(0, tx)] [(0, tx, cost)] (?st\<lparr>st_tracker := ct\<rparr>)) = Panic"
    by (rule chosen_unsigned) (simp_all add: inv is_signed_def assms(1))
  then have "fst (process_group env so cr b [(0, tx)] [(0, tx)] ?st) = Panic"
    unfolding process_group_def sel by (simp add: List.map_filter_def)
  moreover have "txs_to_schedule [Ok ()] [tx] = [(0, tx)]"
    by (simp add: txs_to_schedule_def verdict_def)
  ultimately show ?thesis
    using verified
    by (simp add: process_batch_def verify_batch_def lift_result_def Let_def verdict_def
        schedule_single run_then_Panic)
qed

section \<open>Completion\<close>

text \<open>
  A loop whose body always succeeds on an invariant over a ledger: each round takes \<open>w x\<close>
  from the ledger and puts \<open>v x y\<close> back.
\<close>

lemma loop_total:
  fixes I :: "ledger \<Rightarrow> 's \<Rightarrow> bool"
  assumes "\<And>x L st. x \<in> set xs \<Longrightarrow> I (w x + L) st \<Longrightarrow> \<exists>y st'. f x st = (Ok y, st') \<and> I (v x y + L) st' \<and> Q x y"
    and "I (sum_list (map w xs) + L) st"
  shows "\<exists>ys st'. loop f xs st = (Ok ys, st') \<and> I (sum_list (map2 v xs ys) + L) st' \<and> list_all2 Q xs ys"
  using assms
proof (induction xs arbitrary: L st)
  case Nil
  then show ?case by simp
next
  case (Cons x xs)
  have "I (w x + (sum_list (map w xs) + L)) st" using Cons.prems(2) by (simp add: add.assoc)
  then obtain y st1 where y: "f x st = (Ok y, st1)" "I (v x y + (sum_list (map w xs) + L)) st1" "Q x y"
    using Cons.prems(1) [of x] by fastforce
  have "I (sum_list (map w xs) + (v x y + L)) st1" using y(2) by (simp add: add.left_commute)
  then obtain ys st2 where ys: "loop f xs st1 = (Ok ys, st2)"
    "I (sum_list (map2 v xs ys) + (v x y + L)) st2" "list_all2 Q xs ys"
    using Cons.IH [of "v x y + L" st1] Cons.prems(1) by (metis list.set_intros(2))
  then show ?case
    using y by (intro exI [of _ "y # ys"] exI [of _ st2]) (simp add: add.assoc add.left_commute)
qed

text \<open>What the stage is like between the steps of a batch: \<open>L\<close> are the costs it has charged.\<close>

definition stage_inv :: "ledger \<Rightarrow> 's stage \<Rightarrow> bool" where
  "stage_inv L st \<longleftrightarrow>
     tracks (st_tracker st) L \<and> lock_inv (st_locks st) [] \<and> ch_open (st_poh_sender st)"

definition stage_held :: "lock_state \<Rightarrow> ledger \<Rightarrow> 's stage \<Rightarrow> bool" where
  "stage_held locks L st \<longleftrightarrow>
     tracks (st_tracker st) L \<and> st_locks st = locks \<and> ch_open (st_poh_sender st)"

definition charge :: "costed option \<Rightarrow> ledger" where
  "charge y = (case y of None \<Rightarrow> {#} | Some (_, _, cost) \<Rightarrow> {#cost#})"

lemma select_total:
  assumes "cost_bounded b (snd itx)" and "stage_inv L st"
  shows "\<exists>y st'. select_one b itx st = (Ok y, st') \<and> stage_inv (charge y + L) st' \<and>
    (y \<noteq> None \<longrightarrow> map_option (\<lambda>(i, tx, _). (i, tx)) y = Some itx)"
proof -
  obtain i tx where itx: "itx = (i, tx)" by (cases itx) auto
  obtain cost where cost: "calculate_cost b tx = Ok cost" "tc_writable_accounts cost = write_set tx"
    using calculate_cost_exact assms(1) by (auto simp: itx)
  show ?thesis
  proof (cases "would_fit (st_tracker st) cost = Ok ()")
    case True
    have "distinct (tc_writable_accounts cost)" by (simp add: cost(2))
    then obtain ct where "add_cost (st_tracker st) cost = Ok ct" "tracks ct (add_mset cost L)"
      using add_cost_tracks [OF _ True] assms(2) by (auto simp: stage_inv_def)
    then show ?thesis
      using cost(1) True assms(2)
      by (simp add: select_one_def itx lift_result_def stage_inv_def charge_def)
  next
    case False
    then show ?thesis
      using cost(1) assms(2)
      by (simp add: select_one_def itx lift_result_def stage_inv_def charge_def set_result_def)
  qed
qed

lemma refund_total:
  assumes "stage_held locks (add_mset cost L) st"
  shows "\<exists>st'. refund cost st = (Ok (), st') \<and> stage_held locks L st'"
proof -
  obtain ct where "subtract_cost (st_tracker st) cost = Ok ct" "tracks ct L"
    using subtract_cost_tracks [of "st_tracker st" cost L] assms by (auto simp: stage_held_def)
  then show ?thesis using assms by (simp add: refund_def lift_result_def stage_held_def)
qed

definition cost_of :: "costed \<times> (dirty_map, transaction_error) result \<Rightarrow> ledger" where
  "cost_of cr = {#snd (snd (fst cr))#}"

lemma settle_total:
  assumes "snd cr \<noteq> Panic" and "stage_held locks (cost_of cr + L) st"
  shows "\<exists>y st'. settle_one cr st = (Ok y, st') \<and>
    stage_held locks ((if y = None then {#} else cost_of cr) + L) st'"
proof -
  obtain i tx cost r where cr: "cr = ((i, tx, cost), r)" by (cases cr) auto
  let ?st = "st\<lparr>st_bank := record_transaction_metrics (is_ok r) (st_bank st)\<rparr>"
  have held: "stage_held locks (add_mset cost L) ?st"
    using assms(2) by (simp add: cr cost_of_def stage_held_def)
  show ?thesis
  proof (cases r)
    case (Ok overlay)
    then show ?thesis using held by (simp add: cr settle_one_def Let_def cost_of_def)
  next
    case (Err e)
    obtain st1 where "refund cost ?st = (Ok (), st1)" "stage_held locks L st1"
      using refund_total [OF held] by blast
    then show ?thesis
      using Err
      by (simp add: cr settle_one_def Let_def stage_held_def set_result_def requeue_transaction_def
          split: option.splits)
  qed (use assms(1) cr in simp)
qed

text \<open>
  What the code relies on outside it: the store takes every account (\<open>total_ops\<close>), and the
  transaction does not panic inside the bank (\<open>calm\<close>).
\<close>

definition total_ops :: "'s store_ops \<Rightarrow> bool" where
  "total_ops so \<longleftrightarrow> (\<forall>ds s. \<exists>s'. commit_overlays (so_store so) ds s = Ok s')"

definition calm :: "('rent, 'exe) env \<Rightarrow> 's store_ops \<Rightarrow> transaction \<Rightarrow> bool" where
  "calm env so tx \<longleftrightarrow>
     (\<forall>s b budget cache. fst (process_single_transaction env so s b tx budget cache) \<noteq> Panic)"

lemma process_one_total:
  assumes "calm env so (fst (snd c))" and "stage_held locks L st"
  shows "\<exists>y st'. process_one env so c st = (Ok y, st') \<and> stage_held locks L st' \<and>
    fst y = c \<and> snd y \<noteq> Panic"
proof -
  obtain i tx cost where c: "c = (i, tx, cost)" by (cases c) auto
  obtain r cache where p: "process_single_transaction env so (st_store st) (st_bank st) tx
      (cost_sum cost) (st_cache st) = (r, cache)" by (cases "process_single_transaction env so (st_store st)
      (st_bank st) tx (cost_sum cost) (st_cache st)")
  have "calm env so tx" using assms(1) by (simp add: c)
  from this [unfolded calm_def, rule_format, of "st_store st" "st_bank st" "cost_sum cost" "st_cache st"]
  have "r \<noteq> Panic" by (simp add: p)
  then show ?thesis using assms(2) by (simp add: process_one_def c p stage_held_def)
qed

lemma record_signed:
  "list_all is_signed txs \<Longrightarrow> ch_open sender \<Longrightarrow>
     \<exists>ch. record_transactions cr sender txs = Ok ch \<and> ch_open ch"
  by (simp add: record_transactions_cases)

abbreviation costs_of :: "costed list \<Rightarrow> ledger" where
  "costs_of chosen \<equiv> mset (map (\<lambda>c. snd (snd c)) chosen)"

lemma costs_of_results:
  "list_all2 (\<lambda>c y. fst y = c \<and> snd y \<noteq> Panic) chosen rs \<Longrightarrow>
     sum_list (map cost_of rs) = costs_of chosen"
  by (induction chosen rs rule: list_all2_induct) (simp_all add: cost_of_def)

lemma locked_total:
  assumes calm: "list_all (\<lambda>c. calm env so (fst (snd c))) chosen"
    and signed: "list_all is_signed (map (\<lambda>(i, tx, _). (i, tx)) chosen)"
    and store: "total_ops so" and held: "stage_held locks (costs_of chosen + L) st"
  shows "\<exists>V st'. locked_group env so cr chosen st = (Ok (), st') \<and> stage_held locks (V + L) st'"
proof -
  obtain rs st1 where rs: "loop (process_one env so) chosen st = (Ok rs, st1)"
    "stage_held locks (costs_of chosen + L) st1"
    "list_all2 (\<lambda>c y. fst y = c \<and> snd y \<noteq> Panic) chosen rs"
    using loop_total [of chosen "\<lambda>_. stage_held locks (costs_of chosen + L)" "\<lambda>_. {#}" "process_one env so"
        "\<lambda>_ _. {#}" "\<lambda>c y. fst y = c \<and> snd y \<noteq> Panic" "{#}" st] calm process_one_total held
    by (fastforce simp: list_all_iff)
  obtain ch where ch: "record_transactions cr (st_poh_sender st1) (map (\<lambda>(i, tx, _). (i, tx)) chosen) = Ok ch"
    "ch_open ch"
    using record_signed [OF signed] rs(2) by (auto simp: stage_held_def)
  let ?st2 = "st1\<lparr>st_poh_sender := ch\<rparr>"
  have rec: "record_group cr (map (\<lambda>(i, tx, _). (i, tx)) chosen) st1 = (Ok (), ?st2)"
    using ch(1) by (simp add: record_group_def lift_result_def)
  have "stage_held locks (sum_list (map cost_of rs) + L) ?st2"
    using rs(2) ch(2) costs_of_results [OF rs(3)] by (simp add: stage_held_def)
  moreover have "snd r \<noteq> Panic" if "r \<in> set rs" for r
    using rs(3) that by (auto simp: list_all2_conv_all_nth in_set_conv_nth)
  ultimately obtain ys st3 V where ys: "loop settle_one rs ?st2 = (Ok ys, st3)"
    "stage_held locks (V + L) st3"
    using loop_total [of rs "stage_held locks" cost_of settle_one
        "\<lambda>cr y. if y = None then {#} else cost_of cr" "\<lambda>_ _. True" L ?st2] settle_total
    by blast
  obtain s' where s': "commit_overlays (so_store so) (List.map_filter id ys) (st_store st3) = Ok s'"
    using store unfolding total_ops_def by blast
  have "locked_group env so cr chosen st = (Ok (), st3\<lparr>st_store := s'\<rparr>)"
    using rs(1) rec ys(1) s' by (simp add: locked_group_def commit_group_def lift_result_def)
  moreover have "stage_held locks (V + L) (st3\<lparr>st_store := s'\<rparr>)"
    using ys(2) by (simp add: stage_held_def)
  ultimately show ?thesis by blast
qed

lemma chosen_total:
  assumes calm: "list_all (\<lambda>c. calm env so (fst (snd c))) chosen"
    and signed: "list_all is_signed (map (\<lambda>(i, tx, _). (i, tx)) chosen)"
    and store: "total_ops so" and inv: "stage_inv (costs_of chosen + L) st"
  shows "\<exists>V st'. run_chosen env so cr scheduled chosen st = (Ok (), st') \<and> stage_inv (V + L) st'"
proof (cases "chosen = []")
  case True
  then show ?thesis using inv by (intro exI [of _ "{#}"] exI [of _ st]) (simp add: run_chosen_def)
next
  case False
  have locks: "lock_inv (st_locks st) []" using inv by (simp add: stage_inv_def)
  show ?thesis
  proof (cases "try_lock_accounts_for_group (map (\<lambda>(i, tx, _). (i, tx)) chosen) (st_locks st)")
    case (Ok lg)
    obtain lk guard where lg: "lg = (lk, guard)" by (cases lg) auto
    let ?st = "st\<lparr>st_locks := lk, st_bank := acquire_freeze_lock (st_bank st)\<rparr>"
    have "stage_held lk (costs_of chosen + L) ?st"
      using inv by (simp add: stage_inv_def stage_held_def)
    then obtain V st1 where st1: "locked_group env so cr chosen ?st = (Ok (), st1)"
      "stage_held lk (V + L) st1"
      using locked_total [OF calm signed store] by blast
    note given = drop_guards_back [OF locks Ok [unfolded lg] guards.locked_group, of env so cr chosen]
    obtain st2 where st2: "drop_guards guard (Ok (), st1) = (Ok (), st2)" "same_guards st st2"
      using given by (cases "drop_guards guard (Ok (), st1)") (simp add: st1(1))
    then have "st_tracker st2 = st_tracker st1" "st_poh_sender st2 = st_poh_sender st1"
      by (auto simp: drop_guards_def split: result.splits)
    with st1(2) st2(2) locks have "stage_inv (V + L) st2"
      by (simp add: stage_inv_def stage_held_def same_guards_def)
    moreover have "run_chosen env so cr scheduled chosen st = (Ok (), st2)"
      using False by (simp add: run_chosen_def Ok lg st1(1) st2(1))
    ultimately show ?thesis by blast
  next
    case (Err e)
    then show ?thesis using try_lock_Err_iff [OF locks] by (cases e) simp
  qed (simp add: try_lock_not_Panic)
qed

lemma map_filter_id: "set (List.map_filter id ys) = {c. Some c \<in> set ys}"
  by (induction ys) (auto simp: List.map_filter_def split: option.splits)

lemma charge_selected: "sum_list (map charge ys) = costs_of (List.map_filter id ys)"
  by (induction ys) (auto simp: charge_def List.map_filter_def split: option.splits)

lemma sum_map2_snd: "length xs = length ys \<Longrightarrow> sum_list (map2 (\<lambda>_. f) xs ys) = sum_list (map f ys)"
  by (induction xs ys rule: list_induct2) simp_all

lemma group_total:
  assumes grp: "\<And>itx. itx \<in> set grp \<Longrightarrow> calm env so (snd itx) \<and> is_signed itx \<and> cost_bounded b (snd itx)"
    and store: "total_ops so" and inv: "stage_inv L st"
  shows "\<exists>L' st'. process_group env so cr b scheduled grp st = (Ok (), st') \<and> stage_inv L' st'"
proof -
  let ?Q = "\<lambda>itx (y :: costed option). y \<noteq> None \<longrightarrow> map_option (\<lambda>(i, tx, _). (i, tx)) y = Some itx"
  obtain ys st1 where ys: "loop (select_one b) grp st = (Ok ys, st1)"
    "stage_inv (sum_list (map2 (\<lambda>_. charge) grp ys) + L) st1" "list_all2 ?Q grp ys"
    using loop_total [of grp stage_inv "\<lambda>_. {#}" "select_one b" "\<lambda>_. charge" ?Q L st] select_total
      grp inv by fastforce
  let ?chosen = "List.map_filter id ys"
  have "length grp = length ys" using ys(3) by (rule list_all2_lengthD)
  with ys(2) have inv1: "stage_inv (costs_of ?chosen + L) st1"
    by (simp add: sum_map2_snd charge_selected)
  have member: "(fst c, fst (snd c)) \<in> set grp" if "c \<in> set ?chosen" for c
  proof -
    have "Some c \<in> set ys" using that by (simp only: map_filter_id mem_Collect_eq)
    then obtain k where k: "k < length ys" "ys ! k = Some c" by (auto simp: in_set_conv_nth)
    then have "?Q (grp ! k) (Some c)" using list_all2_nthD2 [OF ys(3), of k] by simp
    moreover have "grp ! k \<in> set grp" using k(1) ys(3) by (simp add: list_all2_lengthD)
    ultimately show ?thesis by (auto simp: case_prod_beta)
  qed
  have "list_all (\<lambda>c. calm env so (fst (snd c))) ?chosen"
    using grp [OF member] by (auto simp: list_all_iff)
  moreover have "list_all is_signed (map (\<lambda>(i, tx, _). (i, tx)) ?chosen)"
    using grp [OF member] by (auto simp: list_all_iff case_prod_beta)
  ultimately obtain V st2 where "run_chosen env so cr scheduled ?chosen st1 = (Ok (), st2)"
    "stage_inv (V + L) st2"
    using chosen_total [OF _ _ store inv1] by blast
  then show ?thesis using ys(1) by (auto simp: process_group_def)
qed

lemma scheduled_member:
  assumes "grp \<in> set (schedule scheduled)" and "itx \<in> set grp"
  shows "itx \<in> set scheduled"
proof -
  have "itx \<in> set (concat (schedule scheduled))" using assms by auto
  then show ?thesis by (metis schedule_mset set_mset_mset)
qed

lemma tracks_reset:
  "tracks ct L \<Longrightarrow> tracks (cost_reset ct) {#}"
  by (simp add: tracks_def cost_reset_def account_cost_def)

lemma batch_total:
  assumes txs: "\<And>tx. tx \<in> set txs \<Longrightarrow> calm env so tx \<and> tx_signatures tx \<noteq> [] \<and> cost_bounded b tx \<and>
      verify_signatures_sync cr mc tx \<noteq> Panic"
    and store: "total_ops so" and inv: "stage_inv L st"
  shows "\<exists>rs st'. process_batch env so cr mc b txs st = (Ok rs, st') \<and> stage_inv {#} st'"
proof -
  let ?vs = "map (verify_signatures_sync cr mc) txs"
  let ?st = "st\<lparr>st_final_results := map verdict ?vs\<rparr>" and ?scheduled = "txs_to_schedule ?vs txs"
  have scheduled: "snd itx \<in> set txs" if "itx \<in> set ?scheduled" for itx
    using that by (auto simp: txs_to_schedule_def in_set_enumerate_eq)
  have step: "\<exists>y st'. process_group env so cr b ?scheduled grp st1 = (Ok y, st') \<and> (\<exists>L. stage_inv L st')"
    if "grp \<in> set (schedule ?scheduled)" "\<exists>L. stage_inv L st1" for grp st1
  proof -
    have "calm env so (snd itx) \<and> is_signed itx \<and> cost_bounded b (snd itx)" if "itx \<in> set grp" for itx
      using txs [OF scheduled, OF scheduled_member, OF \<open>grp \<in> set (schedule ?scheduled)\<close> that]
      by (simp add: is_signed_def)
    then show ?thesis using group_total [of grp env so b _ st1] store that(2) by blast
  qed
  have "\<exists>L. stage_inv L ?st" using inv by (auto simp: stage_inv_def)
  then obtain ys st1 L1 where ys: "loop (process_group env so cr b ?scheduled) (schedule ?scheduled) ?st = (Ok ys, st1)"
    "stage_inv L1 st1"
    using loop_total [of "schedule ?scheduled" "\<lambda>_ st. \<exists>L. stage_inv L st" "\<lambda>_. {#}"
        "process_group env so cr b ?scheduled" "\<lambda>_ _. {#}" "\<lambda>_ _. True" "{#}" ?st] step
    by blast
  have "\<forall>v \<in> set ?vs. v \<noteq> Panic" using txs by simp
  then have "Panic \<notin> set ?vs" by blast
  then have "process_batch env so cr mc b txs st =
      (Ok (st_final_results st1), st1\<lparr>st_tracker := cost_reset (st_tracker st1)\<rparr>)"
    using ys(1) by (simp add: process_batch_def verify_batch_def lift_result_def Let_def)
  then show ?thesis using ys(2) tracks_reset by (auto simp: stage_inv_def)
qed

end
