(* ===== verification/Batch_Serial.thy ===== *)
theory Batch_Serial
  imports Batch_Progress Supply
begin

text \<open>
  What a batch leaves in the store: the store that running some of its transactions one after
  another would leave. A group is run against one snapshot and committed as a whole, which is
  the parallel run of \<^verbatim>\<open>Bank_Laws\<close>, and the groups follow each other.
\<close>

section \<open>What the bank's rules depend on\<close>

definition same_rules :: "bank \<Rightarrow> bank \<Rightarrow> bool" where
  "same_rules b b' \<longleftrightarrow>
     bk_slot b' = bk_slot b \<and> bk_blockhash_queue b' = bk_blockhash_queue b \<and>
     bk_is_frozen b' = bk_is_frozen b"

lemma same_rules_trans: "same_rules a b \<Longrightarrow> same_rules b c \<Longrightarrow> same_rules a c"
  by (simp add: same_rules_def)

lemma same_rules_guards [simp]:
  "same_rules b (acquire_freeze_lock b') \<longleftrightarrow> same_rules b b'"
  "same_rules b (release_freeze_lock b') \<longleftrightarrow> same_rules b b'"
  by (simp_all add: same_rules_def acquire_freeze_lock_def release_freeze_lock_def)

lemma tx_overlay_rules: "same_rules b b' \<Longrightarrow> tx_overlay env so b' s txc = tx_overlay env so b s txc"
proof -
  assume "same_rules b b'"
  then have "check_preflight_rules b' tx = check_preflight_rules b tx" for tx
    by (auto simp: check_preflight_rules_def same_rules_def split: option.split)
  then show ?thesis by (simp add: tx_overlay_def process_single_transaction_def)
qed

lemma run_sequential_rules:
  "same_rules b b' \<Longrightarrow> run_sequential env so b' txs s = run_sequential env so b txs s"
proof (induction txs arbitrary: s)
  case (Cons tx txs)
  have "run_sequential env so b' txs = run_sequential env so b txs"
    using Cons by (simp add: fun_eq_iff)
  then show ?case using Cons.prems by (simp add: tx_overlay_rules split: option.split)
qed simp

lemma run_sequential_append:
  "run_sequential env so b (xs @ ys) s = and_then (run_sequential env so b xs s) (run_sequential env so b ys)"
  by (induction xs arbitrary: s) (auto simp: and_then_assoc split: option.splits cong: and_then_cong)

definition bank_kept :: "'s stage \<Rightarrow> 's stage \<Rightarrow> bool" where
  "bank_kept st st' \<longleftrightarrow> same_rules (st_bank st) (st_bank st')"

interpretation kept: requeue_relation bank_kept
  by unfold_locales
    (auto simp: bank_kept_def same_rules_def transp_def reflp_def record_transaction_metrics_def
      set_result_def requeue_transaction_def split: option.splits)

section \<open>One group\<close>

abbreviation budgeted :: "costed list \<Rightarrow> (transaction \<times> u64) list" where
  "budgeted chosen \<equiv> map (\<lambda>c. (fst (snd c), cost_sum (snd (snd c)))) chosen"

definition overlay_result :: "(dirty_map, transaction_error) result \<Rightarrow> dirty_map option" where
  "overlay_result r = (case r of Ok d \<Rightarrow> Some d | _ \<Rightarrow> None)"

lemma tx_overlay_result:
  "overlay_result (fst (process_single_transaction env so s b tx budget cache)) = tx_overlay env so b s (tx, budget)"
proof -
  let ?r = "fst (process_single_transaction env so s b tx budget cache)"
  have "overlay_result ?r = Some d \<longleftrightarrow> tx_overlay env so b s (tx, budget) = Some d" for d
    using tx_overlay_Some [of env so b s tx budget d cache]
    by (cases ?r) (simp_all add: overlay_result_def)
  then show ?thesis by (metis option.exhaust)
qed

lemma process_loop:
  "loop (process_one env so) chosen st = (Ok rs, st') \<Longrightarrow>
     st_store st' = st_store st \<and> st_bank st' = st_bank st \<and>
     map (\<lambda>r. overlay_result (snd r)) rs = map (tx_overlay env so (st_bank st) (st_store st)) (budgeted chosen)"
proof (induction chosen arbitrary: st rs)
  case Nil
  then show ?case by simp
next
  case (Cons c chosen)
  obtain i tx cost where c: "c = (i, tx, cost)" by (cases c) auto
  obtain r cache where p: "process_single_transaction env so (st_store st) (st_bank st) tx
      (cost_sum cost) (st_cache st) = (r, cache)"
    by (cases "process_single_transaction env so (st_store st) (st_bank st) tx (cost_sum cost) (st_cache st)")
  let ?st = "st\<lparr>st_cache := cache\<rparr>"
  have one: "process_one env so c st = (if r = Panic then Panic else Ok (c, r), ?st)"
    by (simp add: process_one_def c p)
  obtain rs' where rs: "rs = (c, r) # rs'" and rest: "loop (process_one env so) chosen ?st = (Ok rs', st')"
    using Cons.prems by (auto simp: one run_then_def split: if_splits prod.splits result.splits)
  have "overlay_result r = tx_overlay env so (st_bank st) (st_store st) (tx, cost_sum cost)"
    using tx_overlay_result [of env so "st_store st" "st_bank st" tx "cost_sum cost" "st_cache st"] by (simp add: p)
  then show ?case using Cons.IH [OF rest] by (simp add: rs c)
qed

lemma refund_store: "st_store (snd (refund cost st)) = st_store st"
  by (simp add: refund_def run_then_def lift_result_def split: result.splits prod.splits)

lemma settle_store: "st_store (snd (settle_one r st)) = st_store st"
  by (auto simp: settle_one_def case_prod_beta Let_def run_then_def set_result_def requeue_transaction_def
      refund_def lift_result_def split: result.splits prod.splits option.splits)

lemma settle_value:
  "fst (settle_one r st) = Ok y \<Longrightarrow> y = overlay_result (snd r)"
  by (auto simp: settle_one_def case_prod_beta Let_def run_then_Ok_iff overlay_result_def
      split: result.splits)

lemma settle_loop:
  "loop settle_one rs st = (Ok ys, st') \<Longrightarrow>
     st_store st' = st_store st \<and> ys = map (\<lambda>r. overlay_result (snd r)) rs"
proof (induction rs arbitrary: st ys)
  case Nil
  then show ?case by simp
next
  case (Cons r rs)
  obtain y st1 where y: "settle_one r st = (Ok y, st1)"
    using Cons.prems by (cases "settle_one r st"; cases "fst (settle_one r st)") simp_all
  obtain ys' where ys: "loop settle_one rs st1 = (Ok ys', st')" "ys = y # ys'"
    using Cons.prems by (auto simp: y run_then_def split: prod.splits result.splits)
  show ?case
    using Cons.IH [OF ys(1)] settle_store [of r st] settle_value [of r st y] by (simp add: y ys(2))
qed

lemma map_filter_map_id: "List.map_filter id (map f xs) = List.map_filter f xs"
  by (simp add: List.map_filter_def filter_map comp_def)

lemma locked_store:
  assumes ok: "fst (locked_group env so cr chosen st) = Ok ()"
  shows "run_parallel env so (st_bank st) (budgeted chosen) (st_store st) =
    Ok (st_store (snd (locked_group env so cr chosen st)))"
proof -
  obtain rs st1 where rs: "loop (process_one env so) chosen st = (Ok rs, st1)"
    using ok by (cases "loop (process_one env so) chosen st"; cases "fst (loop (process_one env so) chosen st)")
      (simp_all add: locked_group_def)
  let ?rec = "record_group cr (map (\<lambda>(i, tx, _). (i, tx)) chosen) st1"
  obtain st2 where st2: "?rec = (Ok (), st2)"
    using ok by (cases ?rec; cases "fst ?rec") (simp_all add: locked_group_def rs)
  then have store2: "st_store st2 = st_store st1"
    by (auto simp: record_group_def run_then_def lift_result_def split: result.splits)
  obtain ys st3 where ys: "loop settle_one rs st2 = (Ok ys, st3)"
    using ok by (cases "loop settle_one rs st2"; cases "fst (loop settle_one rs st2)")
      (simp_all add: locked_group_def rs st2)
  note p = process_loop [OF rs] and s = settle_loop [OF ys]
  have "ys = map (tx_overlay env so (st_bank st) (st_store st)) (budgeted chosen)"
    using p s by simp
  then have overlays: "List.map_filter id ys =
      List.map_filter (tx_overlay env so (st_bank st) (st_store st)) (budgeted chosen)"
    by (simp only: map_filter_map_id)
  obtain s' where "commit_overlays (so_store so) (List.map_filter id ys) (st_store st3) = Ok s'"
    and "snd (locked_group env so cr chosen st) = st3\<lparr>st_store := s'\<rparr>"
    using ok
    by (auto simp: locked_group_def rs st2 ys commit_group_def run_then_Ok_iff lift_result_def)
  moreover from this have "commit_overlays (so_store so) (List.map_filter id ys) (st_store st) = Ok s'"
    using p s store2 by simp
  ultimately show ?thesis by (simp add: run_parallel_def overlays)
qed

lemma run_parallel_rules: "same_rules b b' \<Longrightarrow> run_parallel env so b' txs s = run_parallel env so b txs s"
proof -
  assume "same_rules b b'"
  then have "tx_overlay env so b' s = tx_overlay env so b s" by (simp add: fun_eq_iff tx_overlay_rules)
  then show ?thesis by (simp add: run_parallel_def)
qed

lemma drop_guards_fields:
  "st_store (snd (drop_guards g rst)) = st_store (snd rst)"
  "same_rules b (st_bank (snd (drop_guards g rst))) \<longleftrightarrow> same_rules b (st_bank (snd rst))"
  by (simp_all add: drop_guards_def case_prod_beta split: result.splits)

lemma chosen_locked:
  assumes inv: "lock_inv (st_locks st) []" and ne: "chosen \<noteq> []"
    and ok: "fst (run_chosen env so cr scheduled chosen st) = Ok ()"
  obtains lk guard where
    "fst (locked_group env so cr chosen
       (st\<lparr>st_locks := lk, st_bank := acquire_freeze_lock (st_bank st)\<rparr>)) = Ok ()"
    and "run_chosen env so cr scheduled chosen st =
       drop_guards guard (locked_group env so cr chosen
         (st\<lparr>st_locks := lk, st_bank := acquire_freeze_lock (st_bank st)\<rparr>))"
proof -
  obtain lk guard where lk: "try_lock_accounts_for_group (map (\<lambda>(i, tx, _). (i, tx)) chosen) (st_locks st) = Ok (lk, guard)"
  proof (cases "try_lock_accounts_for_group (map (\<lambda>(i, tx, _). (i, tx)) chosen) (st_locks st)")
    case (Err e)
    then show ?thesis using try_lock_Err_iff [OF inv] by (cases e) simp
  qed (auto simp: try_lock_not_Panic)
  let ?r = "locked_group env so cr chosen
    (st\<lparr>st_locks := lk, st_bank := acquire_freeze_lock (st_bank st)\<rparr>)"
  have eq: "run_chosen env so cr scheduled chosen st = drop_guards guard ?r"
    using ne by (simp add: run_chosen_def lk)
  then have "fst ?r = Ok ()"
    using ok drop_guards_back(2) [OF inv lk guards.locked_group, of env so cr chosen] by simp
  from that [OF this eq] show thesis .
qed

lemma chosen_store:
  assumes inv: "lock_inv (st_locks st) []" and ok: "fst (run_chosen env so cr scheduled chosen st) = Ok ()"
  shows "run_parallel env so (st_bank st) (budgeted chosen) (st_store st) =
      Ok (st_store (snd (run_chosen env so cr scheduled chosen st)))"
    and "same_rules (st_bank st) (st_bank (snd (run_chosen env so cr scheduled chosen st)))"
proof -
  have "run_parallel env so (st_bank st) (budgeted chosen) (st_store st) =
      Ok (st_store (snd (run_chosen env so cr scheduled chosen st))) \<and>
    same_rules (st_bank st) (st_bank (snd (run_chosen env so cr scheduled chosen st)))"
  proof (cases "chosen = []")
    case True
    then show ?thesis
      by (simp add: run_chosen_def run_parallel_def commit_overlays_def List.map_filter_def same_rules_def)
  next
    case False
    obtain lk guard where
      fine: "fst (locked_group env so cr chosen (st\<lparr>st_locks := lk, st_bank := acquire_freeze_lock (st_bank st)\<rparr>)) = Ok ()"
      and eq: "run_chosen env so cr scheduled chosen st = drop_guards guard (locked_group env so cr chosen
         (st\<lparr>st_locks := lk, st_bank := acquire_freeze_lock (st_bank st)\<rparr>))"
      using chosen_locked [OF inv False ok] .
    have rules: "same_rules (st_bank st) (acquire_freeze_lock (st_bank st))"
      by (simp add: same_rules_def acquire_freeze_lock_def)
    have kept: "same_rules (acquire_freeze_lock (st_bank st)) (st_bank (snd (locked_group env so cr chosen
        (st\<lparr>st_locks := lk, st_bank := acquire_freeze_lock (st_bank st)\<rparr>))))"
      using kept.locked_group [of "st\<lparr>st_locks := lk, st_bank := acquire_freeze_lock (st_bank st)\<rparr>" env so cr chosen]
      unfolding bank_kept_def by simp
    show ?thesis
      unfolding eq drop_guards_fields
      using locked_store [OF fine] same_rules_trans [OF rules kept]
      by (simp add: run_parallel_rules [OF rules])
  qed
  then show "run_parallel env so (st_bank st) (budgeted chosen) (st_store st) =
      Ok (st_store (snd (run_chosen env so cr scheduled chosen st)))"
    "same_rules (st_bank st) (st_bank (snd (run_chosen env so cr scheduled chosen st)))" by blast+
qed

definition same_world :: "'s stage \<Rightarrow> 's stage \<Rightarrow> bool" where
  "same_world st st' \<longleftrightarrow> st_store st' = st_store st \<and> st_bank st' = st_bank st"

lemma same_world_rel: "transp same_world" "reflp same_world"
  by (auto simp: same_world_def transp_def reflp_def)

lemma same_world_steps:
  "same_world st st" "same_world st (st\<lparr>st_tracker := ct\<rparr>)" "same_world st (set_result i e st)"
  by (simp_all add: same_world_def set_result_def)

lemma select_keeps: "same_world st (snd (select_one b itx st))"
  unfolding select_one_def case_prod_beta
  by (auto intro!: run_then_rel [OF same_world_rel(1)] simp: same_world_steps)

lemma select_value:
  "fst (select_one b itx st) = Ok (Some c) \<Longrightarrow> (fst c, fst (snd c)) = itx"
  by (auto simp: select_one_def case_prod_beta run_then_Ok_iff split: if_splits)

lemma select_loop:
  "loop (select_one b) grp st = (Ok ys, st') \<Longrightarrow>
     st_store st' = st_store st \<and> st_bank st' = st_bank st \<and>
     list_all2 (\<lambda>itx y. \<forall>c. y = Some c \<longrightarrow> (fst c, fst (snd c)) = itx) grp ys"
proof (induction grp arbitrary: st ys)
  case Nil
  then show ?case by simp
next
  case (Cons itx grp)
  obtain y st1 where y: "select_one b itx st = (Ok y, st1)"
    using Cons.prems by (cases "select_one b itx st"; cases "fst (select_one b itx st)") simp_all
  obtain ys' where ys: "loop (select_one b) grp st1 = (Ok ys', st')" "ys = y # ys'"
    using Cons.prems by (auto simp: y run_then_def split: prod.splits result.splits)
  show ?case
    using Cons.IH [OF ys(1)] select_keeps [of st b itx] select_value [of b itx st]
    by (auto simp: y ys(2) same_world_def)
qed

lemma map_filter_id_Cons:
  "List.map_filter id (y # ys) =
     (case y of None \<Rightarrow> List.map_filter id ys | Some c \<Rightarrow> c # List.map_filter id ys)"
  by (simp add: List.map_filter_def split: option.split)

lemma selected_sub:
  assumes "list_all2 (\<lambda>itx y. \<forall>c. y = Some c \<longrightarrow> (fst c, fst (snd c)) = itx) grp ys" and "sorted_wrt P grp"
  shows "sorted_wrt P (map (\<lambda>c. (fst c, fst (snd c))) (List.map_filter id ys)) \<and>
    mset (map (\<lambda>c. (fst c, fst (snd c))) (List.map_filter id ys)) \<subseteq># mset grp"
  using assms
proof (induction grp ys rule: list_all2_induct)
  case Nil
  show ?case by (simp add: List.map_filter_def)
next
  case (Cons itx grp y ys)
  let ?sel = "map (\<lambda>c. (fst c, fst (snd c))) (List.map_filter id ys)"
  have "sorted_wrt P grp" using Cons.prems by simp
  note IH = Cons.IH [OF this]
  show ?case
  proof (cases y)
    case None
    have "mset ?sel \<subseteq># add_mset itx (mset grp)"
      by (rule subset_mset.order_trans [OF conjunct2 [OF IH]]) simp
    then show ?thesis
      unfolding map_filter_id_Cons None option.case list.map mset.simps
      using conjunct1 [OF IH] conjunct2 [OF IH] by (rule_tac conjI) (simp only: mset_map)+
  next
    case (Some c)
    have "set ?sel \<subseteq> set grp" using IH set_mset_mono by (metis set_mset_mset)
    then have "\<forall>x \<in> set ?sel. P itx x" using Cons.prems by auto
    moreover have "(fst c, fst (snd c)) = itx" using Cons.hyps(1) Some by simp
    ultimately show ?thesis
      unfolding map_filter_id_Cons Some option.case list.map sorted_wrt.simps mset.simps
      using conjunct1 [OF IH] conjunct2 [OF IH] by (simp only: mset_subset_eq_add_mset_cancel simp_thms)
  qed
qed

section \<open>A whole batch\<close>

definition good_store :: "crypto \<Rightarrow> (pubkey \<times> account) codec \<Rightarrow> mem_store \<Rightarrow> bool" where
  "good_store cr lc s \<longleftrightarrow> wf_map s \<and> well_keyed (mem_ops cr lc) s"

text \<open>A transaction whose declared sets are honest over every store.\<close>

definition honest ::
    "('rent, 'exe) env \<Rightarrow> crypto \<Rightarrow> (pubkey \<times> account) codec \<Rightarrow> bank \<Rightarrow> transaction \<Rightarrow> bool" where
  "honest env cr lc b tx \<longleftrightarrow>
     (\<forall>s budget. good_store cr lc s \<longrightarrow> well_declared env (mem_ops cr lc) b s (tx, budget))"

lemma honestD:
  "honest env cr lc b (fst c) \<Longrightarrow> good_store cr lc s \<Longrightarrow> well_declared env (mem_ops cr lc) b s c"
  by (cases c) (simp add: honest_def)

lemma honest_rules: "same_rules b b' \<Longrightarrow> honest env cr lc b' tx = honest env cr lc b tx"
  by (simp add: honest_def well_declared_def tx_overlay_rules)

lemma sequential_good:
  "run_sequential env (mem_ops cr lc) b txs s = Ok s' \<Longrightarrow> good_store cr lc s \<Longrightarrow>
     list_all (\<lambda>c. distinct (keys_of (fst c))) txs \<Longrightarrow> good_store cr lc s'"
proof (induction txs arbitrary: s)
  case Nil
  then show ?case by simp
next
  case (Cons txc txs)
  show ?case
  proof (cases "tx_overlay env (mem_ops cr lc) b s txc")
    case None
    then show ?thesis using Cons by simp
  next
    case (Some d)
    obtain tx budget where txc: "txc = (tx, budget)" by (cases txc)
    from Cons.prems(1) obtain s1 where s1: "commit_overlays mem_store [d] s = Ok s1"
      "run_sequential env (mem_ops cr lc) b txs s1 = Ok s'" by (auto simp: Some and_then_Ok_iff)
    note ov = process_overlay [OF Some [unfolded txc tx_overlay_Some [where c = "[]"]]]
    have d: "map fst d = keys_of tx" "list_all (\<lambda>(k, a). acc_pubkey a = k) d"
      using ov Cons.prems(2,3) by (simp_all add: good_store_def txc)
    then have "wf_map d" using Cons.prems(3) by (simp add: wf_map_def txc)
    then have "wf_map s1 \<and> mem_load s1 = mem_load s ++ map_of d"
      using mem.commit_load [OF s1(1)] Cons.prems(2) by (simp add: good_store_def list_all_iff)
    then have "good_store cr lc s1"
      using commit_well_keyed d(2) Cons.prems(2) by (auto simp: good_store_def)
    then show ?thesis using Cons.IH [OF s1(2)] Cons.prems(3) by simp
  qed
qed

lemma sequential_supply:
  "run_sequential env (mem_ops cr lc) b txs s = Ok s' \<Longrightarrow> good_store cr lc s \<Longrightarrow>
     list_all (\<lambda>c. distinct (keys_of (fst c))) txs \<Longrightarrow> stored_lamports s < 2 ^ 64 \<Longrightarrow>
     stored_lamports s' \<le> stored_lamports s"
proof (induction txs arbitrary: s)
  case Nil
  then show ?case by simp
next
  case (Cons txc txs)
  show ?case
  proof (cases "tx_overlay env (mem_ops cr lc) b s txc")
    case None
    then show ?thesis using Cons by simp
  next
    case (Some d)
    from Cons.prems(1) obtain s1 where s1: "commit_overlays mem_store [d] s = Ok s1"
      "run_sequential env (mem_ops cr lc) b txs s1 = Ok s'" by (auto simp: Some and_then_Ok_iff)
    obtain tx budget where txc: "txc = (tx, budget)" by (cases txc)
    have "run_sequential env (mem_ops cr lc) b [txc] s = Ok s1" by (simp add: Some s1(1))
    then have "good_store cr lc s1"
      by (rule sequential_good) (use Cons.prems(2,3) in simp_all)
    moreover have "stored_lamports s1 \<le> stored_lamports s"
      using commit_supply(3) [OF Some [unfolded txc tx_overlay_Some [where c = "[]"]] _ _ _ _ _ s1(1)]
        Cons.prems(2-4) by (simp add: good_store_def txc)
    ultimately show ?thesis using Cons.IH [OF s1(2)] Cons.prems(3,4) by simp
  qed
qed

lemma group_serial:
  assumes ok: "fst (process_group env (mem_ops cr lc) cr b scheduled grp st) = Ok ()"
    and inv: "lock_inv (st_locks st) []" and good: "good_store cr lc (st_store st)"
    and honest: "\<forall>itx \<in> set grp. honest env cr lc (st_bank st) (snd itx)"
    and indep: "sorted_wrt (\<lambda>x y. independent (extract_sets x) (extract_sets y)) grp"
  defines "st' \<equiv> snd (process_group env (mem_ops cr lc) cr b scheduled grp st)"
  shows "\<exists>order. mset (map fst order) \<subseteq># mset (map snd grp) \<and>
    run_sequential env (mem_ops cr lc) (st_bank st) order (st_store st) = Ok (st_store st') \<and>
    good_store cr lc (st_store st') \<and> same_rules (st_bank st) (st_bank st')"
proof -
  obtain ys st1 where ys: "loop (select_one b) grp st = (Ok ys, st1)"
    using ok by (cases "loop (select_one b) grp st"; cases "fst (loop (select_one b) grp st)")
      (simp_all add: process_group_def)
  let ?chosen = "List.map_filter id ys"
  have grp: "process_group env (mem_ops cr lc) cr b scheduled grp st =
      run_chosen env (mem_ops cr lc) cr scheduled ?chosen st1"
    by (simp only: process_group_def ys run_then_def prod.case result.case)
  note sel = select_loop [OF ys]
  have "same_guards st st1"
    using guards.looping [where f = "select_one b" and xs = grp and st = st, OF guards.select] by (simp add: ys)
  then have inv1: "lock_inv (st_locks st1) []" using inv by (simp add: same_guards_def)
  note chosen = chosen_store [OF inv1 ok [unfolded grp], unfolded conjunct1 [OF sel]
      conjunct1 [OF conjunct2 [OF sel]], folded grp, folded st'_def]
  note sub = selected_sub [OF conjunct2 [OF conjunct2 [OF sel]] indep]
  have fst_budgeted: "map fst (budgeted ?chosen) = map snd (map (\<lambda>c. (fst c, fst (snd c))) ?chosen)"
    by simp
  have sub_txs: "mset (map fst (budgeted ?chosen)) \<subseteq># mset (map snd grp)"
    unfolding fst_budgeted mset_map [of snd] by (rule image_mset_subseteq_mono [OF conjunct2 [OF sub]])
  then have "\<forall>c \<in> set (budgeted ?chosen). fst c \<in> snd ` set grp"
    using set_mset_mono [OF sub_txs] by (simp only: set_mset_mset set_map) blast
  then have honest_c: "honest env cr lc (st_bank st) (fst c)" if c: "c \<in> set (budgeted ?chosen)" for c
  proof -
    obtain itx where "itx \<in> set grp" "fst c = snd itx"
      using bspec [OF \<open>\<forall>c \<in> set (budgeted ?chosen). fst c \<in> snd ` set grp\<close> c] by (rule imageE)
    with honest show ?thesis by simp
  qed
  then have declared: "list_all (well_declared env (mem_ops cr lc) (st_bank st) (st_store st)) (budgeted ?chosen)"
    unfolding list_all_iff by (intro ballI honestD honest_c good)
  have "sorted_wrt (\<lambda>x y. independent (extract_sets (0, fst x)) (extract_sets (0, fst y))) (budgeted ?chosen)"
    using conjunct1 [OF sub] by (simp add: sorted_wrt_map extract_sets_def)
  moreover have "account_store (so_load (mem_ops cr lc)) (so_store (mem_ops cr lc)) wf_map (\<lambda>_. True)"
    by (simp add: mem.account_store_axioms)
  ultimately have seq: "run_sequential env (mem_ops cr lc) (st_bank st) (budgeted ?chosen) (st_store st) =
      run_parallel env (mem_ops cr lc) (st_bank st) (budgeted ?chosen) (st_store st)"
    unfolding run_parallel_def using good declared
    by (intro sequential_is_commit [where invar = wf_map and n = 0 and m = 0])
      (simp_all only: good_store_def simp_thms, blast)
  have distinct: "list_all (\<lambda>c. distinct (keys_of (fst c))) (budgeted ?chosen)"
    using declared by (simp add: list_all_iff well_declared_def)
  note run = seq [unfolded chosen(1)]
  show ?thesis
    by (rule exI [of _ "budgeted ?chosen"]) (use sub_txs run sequential_good [OF run good distinct] chosen(2) in blast)
qed

lemma groups_serial:
  assumes "loop (process_group env (mem_ops cr lc) cr b scheduled) grps st = (Ok us, st')"
    and "lock_inv (st_locks st) []" and "good_store cr lc (st_store st)"
    and "\<forall>itx \<in> set (concat grps). honest env cr lc (st_bank st) (snd itx)"
    and "\<forall>grp \<in> set grps. sorted_wrt (\<lambda>x y. independent (extract_sets x) (extract_sets y)) grp"
  shows "\<exists>order. mset (map fst order) \<subseteq># mset (map snd (concat grps)) \<and>
    run_sequential env (mem_ops cr lc) (st_bank st) order (st_store st) = Ok (st_store st')"
  using assms
proof (induction grps arbitrary: st us)
  case Nil
  show ?case by (rule exI [of _ "[]"]) (use Nil in simp)
next
  case (Cons grp grps)
  let ?g = "process_group env (mem_ops cr lc) cr b scheduled"
  obtain st1 where st1: "?g grp st = (Ok (), st1)"
    using Cons.prems(1) by (cases "?g grp st"; cases "fst (?g grp st)") simp_all
  obtain us' where rest: "loop ?g grps st1 = (Ok us', st')"
    using Cons.prems(1) by (auto simp: st1 run_then_def split: prod.splits result.splits)
  obtain order where o: "mset (map fst order) \<subseteq># mset (map snd grp)"
    "run_sequential env (mem_ops cr lc) (st_bank st) order (st_store st) = Ok (st_store st1)"
    "good_store cr lc (st_store st1)" "same_rules (st_bank st) (st_bank st1)"
    using group_serial [of env cr lc b scheduled grp st] Cons.prems(2-5) by (auto simp: st1)
  have "lock_inv (st_locks st1) []"
    using group_guards [OF Cons.prems(2), of env "mem_ops cr lc" cr b scheduled grp] Cons.prems(2)
    by (simp add: st1 same_guards_def)
  moreover have "\<forall>itx \<in> set (concat grps). honest env cr lc (st_bank st1) (snd itx)"
    using Cons.prems(4) by (simp add: honest_rules [OF o(4)])
  ultimately obtain order' where o': "mset (map fst order') \<subseteq># mset (map snd (concat grps))"
    "run_sequential env (mem_ops cr lc) (st_bank st1) order' (st_store st1) = Ok (st_store st')"
    using Cons.IH [OF rest _ o(3)] Cons.prems(5) by auto
  have "mset (map fst (order @ order')) \<subseteq># mset (map snd (concat (grp # grps)))"
    using subset_mset.add_mono [OF o(1) o'(1)] by simp
  moreover have "run_sequential env (mem_ops cr lc) (st_bank st) (order @ order') (st_store st) = Ok (st_store st')"
    unfolding run_sequential_append o(2) using o'(2) by (simp add: run_sequential_rules [OF o(4)])
  ultimately show ?case by blast
qed

lemma scheduled_txs: "mset (map snd (txs_to_schedule vs txs)) \<subseteq># mset txs"
proof -
  have "mset (txs_to_schedule vs txs) \<subseteq># mset (enumerate 0 txs)"
    by (simp add: txs_to_schedule_def)
  from image_mset_subseteq_mono [OF this, of snd] show ?thesis by (simp flip: mset_map)
qed

lemma batch_serial:
  assumes ok: "fst (process_batch env (mem_ops cr lc) cr mc b txs st) = Ok rs"
    and inv: "lock_inv (st_locks st) []" and good: "good_store cr lc (st_store st)"
    and honest: "\<forall>tx \<in> set txs. honest env cr lc (st_bank st) tx"
  shows "\<exists>order. mset (map fst order) \<subseteq># mset txs \<and>
    run_sequential env (mem_ops cr lc) (st_bank st) order (st_store st) =
      Ok (st_store (snd (process_batch env (mem_ops cr lc) cr mc b txs st)))"
proof -
  obtain vs where vs: "verify_batch cr mc txs = Ok vs"
    using ok by (cases "verify_batch cr mc txs") (simp_all add: process_batch_def lift_result_def)
  let ?sch = "txs_to_schedule vs txs" and ?st = "st\<lparr>st_final_results := map verdict vs\<rparr>"
  let ?loop = "loop (process_group env (mem_ops cr lc) cr b ?sch) (schedule ?sch) ?st"
  obtain us st' where loop: "?loop = (Ok us, st')"
    using ok by (cases ?loop; cases "fst ?loop") (simp_all add: process_batch_def lift_result_def vs Let_def)
  have store: "st_store (snd (process_batch env (mem_ops cr lc) cr mc b txs st)) = st_store st'"
    by (simp add: process_batch_def vs lift_result_def Let_def loop)
  have sub: "mset (map snd (concat (schedule ?sch))) \<subseteq># mset txs"
    using scheduled_txs [of vs txs] by (simp only: mset_map schedule_mset)
  have "honest env cr lc (st_bank st) (snd itx)" if "itx \<in> set (concat (schedule ?sch))" for itx
    using honest set_mset_mono [OF sub] that by (auto simp del: set_concat)
  then have honest': "\<forall>itx \<in> set (concat (schedule ?sch)). honest env cr lc (st_bank ?st) (snd itx)" by simp
  have "\<exists>order. mset (map fst order) \<subseteq># mset (map snd (concat (schedule ?sch))) \<and>
    run_sequential env (mem_ops cr lc) (st_bank ?st) order (st_store ?st) = Ok (st_store st')"
    by (rule groups_serial [OF loop _ _ honest']) (use inv good schedule_group in auto)
  then show ?thesis using sub unfolding store by (auto intro: subset_mset.order_trans)
qed

end
