(* ===== verification/Batch_Single.thy ===== *)
theory Batch_Single
  imports Batch_Progress
begin

text \<open>
  A batch of one good transaction, step by step through \<^verbatim>\<open>process_batch\<close>: it is charged, locked,
  processed, recorded and committed, and its result is a success.
\<close>

lemma locked_single:
  assumes good: "fst (process_single_transaction env so (st_store st) (st_bank st) tx (cost_sum cost) (st_cache st)) = Ok d"
    and signed: "tx_signatures tx = sig # sigs" and ch: "ch_open (st_poh_sender st)"
    and commit: "commit_overlays (so_store so) [d] (st_store st) = Ok s'"
  shows "\<exists>st'. locked_group env so cr [(i, tx, cost)] st = (Ok (), st') \<and> st_store st' = s' \<and>
    st_final_results st' = st_final_results st \<and>
    ch_sent (st_poh_sender st') = ch_sent (st_poh_sender st) @ [Hash (sha256 cr (signature_bytes sig))]"
proof -
  let ?c = "(i, tx, cost)" and ?h = "Hash (sha256 cr (signature_bytes sig))"
  obtain cache where p: "process_single_transaction env so (st_store st) (st_bank st) tx (cost_sum cost)
      (st_cache st) = (Ok d, cache)" using good by (cases "process_single_transaction env so (st_store st) (st_bank st) tx (cost_sum cost)
      (st_cache st)") simp
  let ?st1 = "st\<lparr>st_cache := cache\<rparr>"
  have run: "loop (process_one env so) [?c] st = (Ok [(?c, Ok d)], ?st1)"
    by (simp add: process_one_def p)
  let ?ch = "(st_poh_sender st)\<lparr>ch_sent := ch_sent (st_poh_sender st) @ [?h]\<rparr>"
  have rec: "record_group cr (map (\<lambda>(i, tx, _). (i, tx)) [?c]) ?st1 = (Ok (), ?st1\<lparr>st_poh_sender := ?ch\<rparr>)"
    using ch signed by (simp add: record_group_def lift_result_def record_transactions_cases is_signed_def)
  let ?st2 = "?st1\<lparr>st_poh_sender := ?ch, st_bank := record_transaction_metrics True (st_bank st)\<rparr>"
  have settle: "loop settle_one [(?c, Ok d)] (?st1\<lparr>st_poh_sender := ?ch\<rparr>) = (Ok [Some d], ?st2)"
    by (simp add: settle_one_def)
  have "List.map_filter id [Some d] = [d]" by (simp add: List.map_filter_def)
  then have "locked_group env so cr [?c] st = (Ok (), ?st2\<lparr>st_store := s'\<rparr>)"
    unfolding locked_group_def run run_then_def prod.case result.case rec settle
    using commit by (simp add: commit_group_def lift_result_def)
  then show ?thesis by simp
qed

lemma chosen_single:
  assumes inv: "lock_inv (st_locks st) []" and "fst (process_single_transaction env so (st_store st)
      (acquire_freeze_lock (st_bank st)) tx (cost_sum cost) (st_cache st)) = Ok d"
    and "tx_signatures tx = sig # sigs" and "ch_open (st_poh_sender st)"
    and "commit_overlays (so_store so) [d] (st_store st) = Ok s'"
  shows "\<exists>st'. run_chosen env so cr scheduled [(i, tx, cost)] st = (Ok (), st') \<and> st_store st' = s' \<and>
    st_final_results st' = st_final_results st \<and>
    ch_sent (st_poh_sender st') = ch_sent (st_poh_sender st) @ [Hash (sha256 cr (signature_bytes sig))]"
proof -
  have txs: "map (\<lambda>(i, tx, _). (i, tx)) [(i, tx, cost)] = [(i, tx)]" by simp
  obtain lk guard where lk: "try_lock_accounts_for_group [(i, tx)] (st_locks st) = Ok (lk, guard)"
  proof (cases "try_lock_accounts_for_group [(i, tx)] (st_locks st)")
    case (Err e)
    then show ?thesis using try_lock_Err_iff [OF inv] by (cases e) simp
  qed (auto simp: try_lock_not_Panic)
  let ?st = "st\<lparr>st_locks := lk, st_bank := acquire_freeze_lock (st_bank st)\<rparr>"
  obtain st1 where st1: "locked_group env so cr [(i, tx, cost)] ?st = (Ok (), st1)" "st_store st1 = s'"
    "st_final_results st1 = st_final_results st"
    "ch_sent (st_poh_sender st1) = ch_sent (st_poh_sender st) @ [Hash (sha256 cr (signature_bytes sig))]"
    using locked_single [of env so ?st tx cost d sig sigs s' cr i] assms(2-5) by auto
  have run: "run_chosen env so cr scheduled [(i, tx, cost)] st = drop_guards guard (Ok (), st1)"
    by (simp add: run_chosen_def lk st1(1))
  have "fst (drop_guards guard (locked_group env so cr [(i, tx, cost)] ?st)) =
      fst (locked_group env so cr [(i, tx, cost)] ?st)"
    using inv lk guards.locked_group by (rule drop_guards_back(2))
  then have "fst (drop_guards guard (Ok (), st1)) = Ok ()" by (simp add: st1(1))
  then show ?thesis using st1(2-4) unfolding run
    by (auto simp: drop_guards_def split: result.splits)
qed

lemma batch_single:
  assumes ok: "verify_signatures_sync cr mc tx = Ok ()" and cost: "calculate_cost b tx = Ok cost"
    and fit: "would_fit (st_tracker st) cost = Ok ()" and tracks: "tracks (st_tracker st) L"
    and "lock_inv (st_locks st) []" and "fst (process_single_transaction env so (st_store st)
      (acquire_freeze_lock (st_bank st)) tx (cost_sum cost) (st_cache st)) = Ok d"
    and "tx_signatures tx = sig # sigs" and "ch_open (st_poh_sender st)"
    and "commit_overlays (so_store so) [d] (st_store st) = Ok s'"
  shows "\<exists>st'. process_batch env so cr mc b [tx] st = (Ok [None], st') \<and> st_store st' = s' \<and>
    ch_sent (st_poh_sender st') = ch_sent (st_poh_sender st) @ [Hash (sha256 cr (signature_bytes sig))]"
proof -
  obtain ct where ct: "add_cost (st_tracker st) cost = Ok ct"
    using add_cost_tracks [OF tracks fit] calculate_cost_writes [OF cost] by auto
  let ?st = "st\<lparr>st_final_results := [None]\<rparr>"
  let ?st1 = "?st\<lparr>st_tracker := ct\<rparr>"
  have sel: "loop (select_one b) [(0, tx)] ?st = (Ok [Some (0, tx, cost)], ?st1)"
    using cost fit ct by (simp add: select_one_def lift_result_def)
  obtain st' where st': "run_chosen env so cr [(0, tx)] [(0, tx, cost)] ?st1 = (Ok (), st')"
    "st_store st' = s'" "st_final_results st' = [None]"
    "ch_sent (st_poh_sender st') = ch_sent (st_poh_sender st) @ [Hash (sha256 cr (signature_bytes sig))]"
    using chosen_single [of ?st1 env so tx cost d sig sigs s' cr "[(0, tx)]" 0] assms(5-9) by auto
  have "List.map_filter id [Some (0, tx, cost)] = [(0, tx, cost)]" by (simp add: List.map_filter_def)
  then have group: "process_group env so cr b [(0, tx)] [(0, tx)] ?st = (Ok (), st')"
    unfolding process_group_def sel run_then_def prod.case result.case using st'(1) by simp
  have "process_batch env so cr mc b [tx] st = (Ok [None], st'\<lparr>st_tracker := cost_reset (st_tracker st')\<rparr>)"
    by (simp add: process_batch_def verify_batch_def ok lift_result_def verdict_def txs_to_schedule_def
        schedule_single group st'(3) Let_def)
  then show ?thesis using st'(2,4) by simp
qed

end
