(* ===== verification/Batch_Properties.thy ===== *)
theory Batch_Properties
  imports Bank_Properties Batch_Serial Batch_Single
begin

text \<open>
  The properties of a whole batch of \<^verbatim>\<open>src/banking_stage.rs\<close>: what it leaves in the store, the
  locks, the cost tracker and the queue, when it ends with a result for everyone, and the two
  malformed transactions it does not survive, each with a witness.
\<close>

section \<open>Transactions of the system program\<close>

text \<open>
  A transaction of system instructions cannot panic, unless it creates an account larger than
  a vector can be.
\<close>

definition sane_system :: "('rent, 'exe) env \<Rightarrow> instruction \<Rightarrow> bool" where
  "sane_system env ix \<longleftrightarrow> ix_program_id ix = SYSTEM_PROGRAM_ID \<and>
     (\<forall>l space owner. de (env_system env) (ix_data ix) = Some (SystemCreateAccount l space owner) \<longrightarrow>
        unat space < 2 ^ 63)"

lemma move_lamports_calm: "move_lamports from to n h \<noteq> Panic"
  by (simp add: move_lamports_def heap_ops)

lemma system_calm:
  assumes "\<And>l space owner. de c (ic_instruction_data ctx) = Some (SystemCreateAccount l space owner) \<Longrightarrow>
    unat space < 2 ^ 63"
  shows "system_entrypoint c ctx infos h \<noteq> Panic"
proof (cases "de c (ic_instruction_data ctx)")
  case (Some ix)
  have "unat space < 2 ^ 63" if "ix = SystemCreateAccount l space owner" for l space owner
    using assms Some that by simp
  then show ?thesis
    by (cases ix) (auto simp: system_entrypoint_def Some system_transfer_def system_assign_def
        system_create_account_def vec_zeroes_def Let_def heap_ops and_then_Panic_iff move_lamports_calm)
qed (simp add: system_entrypoint_def)

lemma prepare_one_calm:
  "length h = length keys \<Longrightarrow> prepare_one keys h m st \<noteq> Panic"
  by (auto simp: prepare_one_def Let_def and_then_Panic_iff dest!: position_Some split: prod.splits)

lemma for_each_calm: "(\<And>x s. f x s \<noteq> Panic) \<Longrightarrow> for_each f xs s \<noteq> Panic"
  by (induction xs arbitrary: s) (auto simp: and_then_Panic_iff)

lemma prepare_calm:
  "length h = length keys \<Longrightarrow> prepare_account_infos ix keys h \<noteq> Panic"
  by (auto simp: prepare_account_infos_def and_then_Panic_iff prepare_one_calm for_each_calm)

lemma run_then_Panic_iff:
  "fst (run_then m f) = Panic \<longleftrightarrow> fst m = Panic \<or> (\<exists>a. fst m = Ok a \<and> fst (f a (snd m)) = Panic)"
  by (cases m; cases "fst m") auto

lemma execute_one_calm:
  assumes "sane_system env ix" and "length h = length keys"
  shows "fst (execute_one env keys budget ix h cache) \<noteq> Panic"
proof -
  have prog: "ix_program_id ix = SYSTEM_PROGRAM_ID" using assms(1) by (simp add: sane_system_def)
  have "system_entrypoint (env_system env)
      (invoke_context_new (ix_program_id ix) (ix_data ix) [] budget) infos h \<noteq> Panic" for infos
    by (rule system_calm) (use assms(1) in \<open>auto simp: sane_system_def invoke_context_new_def\<close>)
  then show ?thesis
    using prepare_calm [OF assms(2)] prog
    by (auto simp: execute_one_def run_then_Panic_iff Let_def execute_program_system with_ctx_def
        lift_result_def and_then_Panic_iff split: result.splits prod.splits)
qed

lemma execute_all_calm:
  "list_all (sane_system env) ixs \<Longrightarrow> length h = length keys \<Longrightarrow>
     fst (execute_all env keys budget ixs h cache) \<noteq> Panic"
proof (induction ixs arbitrary: h cache)
  case Nil
  then show ?case by simp
next
  case (Cons ix ixs)
  have "length h' = length keys" if "fst (execute_one env keys budget ix h cache) = Ok h'" for h'
    using execute_one_sound [OF that Cons.prems(2), THEN sound_step_length] Cons.prems(2) by simp
  then show ?case
    using Cons execute_one_calm [of env ix h keys budget cache] by (auto simp: run_then_Panic_iff)
qed

lemma preflight_calm: "check_preflight_rules b tx \<noteq> Panic"
  by (auto simp: check_preflight_rules_def Let_def split: option.split)

lemma sane_calm:
  assumes "list_all (sane_system env) (msg_instructions (tx_message tx))"
  shows "calm env so tx"
  unfolding calm_def process_single_transaction_def
  using execute_all_calm [OF assms]
  by (auto simp: run_then_Panic_iff lift_result_def loaded_seen store_loaded_all preflight_calm
      execute_instructions_def)

section \<open>A payment and a stage\<close>

definition payment :: "signature list \<Rightarrow> transaction" where
  "payment sigs = (pay_tx [Pubkey 1, Pubkey 2] (Pubkey 1) (Pubkey 2)
     (put_system (SystemTransfer 3)))\<lparr>tx_signatures := sigs\<rparr>"

definition fresh_stage :: "mem_store stage" where
  "fresh_stage = banking_stage_new \<lparr>ch_sent = [], ch_open = True\<rparr> \<lparr>ch_sent = [], ch_open = True\<rparr>
     purse bank_new"

lemma fresh_stage_sel [simp]:
  "st_store fresh_stage = purse" "st_bank fresh_stage = bank_new" "st_locks fresh_stage = locks_new"
  "st_tracker fresh_stage = cost_tracker_new MAX_BLOCK_UNITS MAX_WRITABLE_ACCOUNT_UNITS"
  "st_tx_sender fresh_stage = \<lparr>ch_sent = [], ch_open = True\<rparr>"
  "st_poh_sender fresh_stage = \<lparr>ch_sent = [], ch_open = True\<rparr>" "st_cache fresh_stage = []"
  by (simp_all add: fresh_stage_def banking_stage_new_def)

lemma fresh_tracks: "tracks (cost_tracker_new MAX_BLOCK_UNITS MAX_WRITABLE_ACCOUNT_UNITS) {#}"
  by (rule tracks_new) (simp add: cost_constants)

lemma payment_sel [simp]:
  "tx_signatures (payment sigs) = sigs" "keys_of (payment sigs) = [Pubkey 1, Pubkey 2]"
  "length (msg_instructions (tx_message (payment sigs))) = 1"
  by (simp_all add: payment_def pay_tx_def)

lemma payment_ser: "ser message_codec (tx_message (payment sigs)) = Some (put_message (tx_message (payment sigs)))"
  by (simp add: message_codec_def)

lemma payment_verified: "verify_signatures_sync wire_crypto message_codec (payment [Signature 1]) = Ok ()"
  using verify_signatures_sync_Ok [OF payment_ser, of wire_crypto "[Signature 1]"]
  by (simp add: signature_valid_def wire_crypto_def)

lemma payment_sane: "list_all (sane_system wire_env) (msg_instructions (tx_message (payment sigs)))"
  by (simp add: payment_def pay_tx_def sane_system_def wire_transfer)

lemma payment_writes: "write_set (payment sigs) = [Pubkey 1, Pubkey 2]"
  by (simp add: write_set_def declared_keys_def payment_def pay_tx_def btree_set_def)

lemma put_transfer_length: "length (put_system (SystemTransfer n)) = 12"
  by (simp add: put_system.simps)

lemma payment_bounded: "cost_bounded cost_model_new (payment [Signature 1])"
  by (simp add: cost_bounded_def payment_writes)
    (simp add: payment_def put_transfer_length pay_tx_def data_len_def execution_units_def program_units_def cost_model_new_def)

lemma payment_cost:
  "\<exists>tc. calculate_cost cost_model_new (payment [Signature 1]) = Ok tc \<and> unat (cost_sum tc) = 1668 \<and>
     would_fit (st_tracker fresh_stage) tc = Ok ()"
proof -
  have "data_len (payment [Signature 1]) = 12" and "execution_units cost_model_new (payment [Signature 1]) = 300"
    by (simp_all add: payment_def put_transfer_length pay_tx_def data_len_def execution_units_def
        program_units_def cost_model_new_def)
  then obtain tc where tc: "calculate_cost cost_model_new (payment [Signature 1]) = Ok tc"
    "unat (cost_sum tc) = 1668"
    using calculate_cost_exact [OF payment_bounded] by (auto simp: payment_writes)
  moreover have "would_fit (st_tracker fresh_stage) tc = Ok ()"
    using tc(2) by (simp add: would_fit_Ok_iff fits_account_def cost_tracker_new_def list_all_iff
        word_le_nat_alt saturating_add_exact cost_constants)
  ultimately show ?thesis by blast
qed

lemma payment_overlay:
  "tx_overlay env so b s (payment sigs, n) = tx_overlay env so b s
     (pay_tx [Pubkey 1, Pubkey 2] (Pubkey 1) (Pubkey 2) (put_system (SystemTransfer 3)), n)"
  by (simp add: tx_overlay_def payment_def process_single_transaction_def check_preflight_rules_def
      load_and_verify_accounts_def execute_instructions_def)

lemma payment_honest: "honest env cr lc b (payment sigs)"
  unfolding honest_def well_declared_def payment_overlay
  using pay_well_declared [of "Pubkey 1" "Pubkey 2" env "mem_ops cr lc" b _ "put_system (SystemTransfer 3)"]
  by (auto simp: well_declared_def payment_def write_set_def declared_keys_def pay_tx_def)

lemma payment_processed:
  assumes "\<And>ks. check_preflight_rules bk (pay_tx ks (Pubkey 1) (Pubkey 2) (put_system (SystemTransfer 3))) = Ok ()"
  shows "fst (process_single_transaction wire_env (mem_ops cr lc) purse bk (payment sigs) n cache) =
    Ok [(Pubkey 1, account_at 1 2), (Pubkey 2, account_at 2 9)]"
proof -
  have eq: "process_single_transaction env so s bk (payment sigs) n cache =
      process_single_transaction env so s bk (pay_tx [Pubkey 1, Pubkey 2] (Pubkey 1) (Pubkey 2)
        (put_system (SystemTransfer 3))) n cache" for env :: "(u64, bytes) env" and so :: "mem_store store_ops" and s
    by (simp add: payment_def process_single_transaction_def check_preflight_rules_def
        load_and_verify_accounts_def execute_instructions_def)
  show ?thesis
    unfolding eq using pay_processed(1) [OF wire_transfer, of "Pubkey 1" "Pubkey 2" "mem_ops cr lc" purse 3 bk n cache] assms
    by (simp add: account_at_def saturating_add_def)
qed

section \<open>What a batch leaves\<close>


lemma purse_good: "good_store cr lc purse"
  by (simp add: good_store_def)

lemma fresh_inv: "lock_inv (st_locks fresh_stage) []" "stage_inv {#} fresh_stage"
  by (simp_all add: stage_inv_def fresh_tracks lock_inv_new)

lemma payment_runs:
  "\<exists>st'. process_batch wire_env (mem_ops wire_crypto leaf_codec) wire_crypto message_codec cost_model_new
     [payment [Signature 1]] fresh_stage = (Ok [None], st')"
proof -
  obtain tc where tc: "calculate_cost cost_model_new (payment [Signature 1]) = Ok tc"
    "would_fit (st_tracker fresh_stage) tc = Ok ()" using payment_cost by blast
  let ?d = "[(Pubkey 1, account_at 1 2), (Pubkey 2, account_at 2 9)]"
  obtain s' where s': "commit_overlays mem_store [?d] purse = Ok s'" using mem.commit_total by blast
  have "fst (process_single_transaction wire_env (mem_ops wire_crypto leaf_codec) (st_store fresh_stage)
      (acquire_freeze_lock (st_bank fresh_stage)) (payment [Signature 1]) (cost_sum tc) (st_cache fresh_stage)) = Ok ?d"
    unfolding fresh_stage_sel
    by (rule payment_processed) (simp add: acquire_freeze_lock_def check_preflight_rules_def bank_new_def
        pay_tx_def Let_def)
  from batch_single [OF payment_verified tc _ fresh_inv(1) this, of "{#}" "Signature 1" "[]" s']
  show ?thesis using fresh_tracks s' by auto
qed


text \<open>C4: A completed batch of transactions that declare what they touch never leaves the store more
  lamports than it had, and keeps every account under its own key.\<close>

theorem batch_never_mints:
  assumes "process_batch env (mem_ops cr lc) cr mc cost_model txs st = (Ok rs, st')"
    and "st_locks st = locks_new" and "good_store cr lc (st_store st)"
    and "list_all (honest env cr lc (st_bank st)) txs" and "stored_lamports (st_store st) < 2 ^ 64"
  shows "stored_lamports (st_store st') \<le> stored_lamports (st_store st) \<and> good_store cr lc (st_store st')"
proof -
  obtain order where o: "mset (map fst order) \<subseteq># mset txs"
    "run_sequential env (mem_ops cr lc) (st_bank st) order (st_store st) = Ok (st_store st')"
    using batch_serial [of env cr lc mc cost_model txs st rs] assms(1-4) lock_inv_new
    by (auto simp: list_all_iff)
  have "set (map fst order) \<subseteq> set txs" using set_mset_mono [OF o(1)] by simp
  then have "list_all (\<lambda>c. distinct (keys_of (fst c))) order"
    using assms(4) honestD [OF _ assms(3)] by (fastforce simp: list_all_iff well_declared_def)
  then show ?thesis using sequential_good [OF o(2)] sequential_supply [OF o(2)] assms(3,5) by blast
qed

theorem batch_never_mints_witness:
  "\<exists>st'. process_batch wire_env (mem_ops wire_crypto leaf_codec) wire_crypto message_codec
       cost_model_new [payment [Signature 1]] fresh_stage = (Ok [None], st') \<and>
     stored_lamports (st_store st') \<le> 11"
proof -
  obtain st' where st': "process_batch wire_env (mem_ops wire_crypto leaf_codec) wire_crypto message_codec
      cost_model_new [payment [Signature 1]] fresh_stage = (Ok [None], st')"
    using payment_runs by blast
  from batch_never_mints [OF this] st' show ?thesis by (simp add: purse_good payment_honest)
qed

section \<open>When a batch completes\<close>

text \<open>C8: A verified transaction whose cost fits the block and that the programs accept goes through
  the whole stage: its result is a success, exactly its accounts change in the store, and the
  hash of its signature is sent to the proof-of-history service.\<close>

theorem good_transaction_settles:
  assumes "verify_signatures_sync cr mc tx = Ok ()" and "tx_signatures tx = sig # sigs"
    and "calculate_cost cost_model tx = Ok cost" and "would_fit (st_tracker st) cost = Ok ()"
    and "stage_inv L st" and "wf_map (st_store st)" and "wf_map d"
    and "fst (process_single_transaction env (mem_ops cr lc) (st_store st) (acquire_freeze_lock (st_bank st))
      tx (cost_sum cost) (st_cache st)) = Ok d"
  shows "\<exists>st'. process_batch env (mem_ops cr lc) cr mc cost_model [tx] st = (Ok [None], st') \<and>
    mem_load (st_store st') = mem_load (st_store st) ++ map_of d \<and>
    ch_sent (st_poh_sender st') = ch_sent (st_poh_sender st) @ [Hash (sha256 cr (signature_bytes sig))]"
proof -
  obtain s' where s': "commit_overlays mem_store [d] (st_store st) = Ok s'" using mem.commit_total by blast
  have "mem_load s' = mem_load (st_store st) ++ map_of d"
    using mem.commit_load [OF s' assms(6)] assms(7) by (simp add: list_all_iff)
  then show ?thesis
    using batch_single [OF assms(1,3,4) _ _ assms(8,2), of L s'] assms(5) s' by (auto simp: stage_inv_def)
qed

theorem good_transaction_settles_witness:
  "\<exists>st'. process_batch wire_env (mem_ops wire_crypto leaf_codec) wire_crypto message_codec
       cost_model_new [payment [Signature 1]] fresh_stage = (Ok [None], st') \<and>
     mem_load (st_store st') (Pubkey 1) = Some (account_at 1 2) \<and>
     mem_load (st_store st') (Pubkey 2) = Some (account_at 2 9)"
proof -
  obtain tc where tc: "calculate_cost cost_model_new (payment [Signature 1]) = Ok tc"
    "would_fit (st_tracker fresh_stage) tc = Ok ()" using payment_cost by blast
  let ?d = "[(Pubkey 1, account_at 1 2), (Pubkey 2, account_at 2 9)]"
  have p: "fst (process_single_transaction wire_env (mem_ops wire_crypto leaf_codec) (st_store fresh_stage)
      (acquire_freeze_lock (st_bank fresh_stage)) (payment [Signature 1]) (cost_sum tc) (st_cache fresh_stage)) = Ok ?d"
    unfolding fresh_stage_sel
    by (rule payment_processed) (simp add: acquire_freeze_lock_def check_preflight_rules_def bank_new_def
        pay_tx_def Let_def)
  have "wf_map ?d" by (simp add: wf_map_def)
  from good_transaction_settles [OF payment_verified _ tc fresh_inv(2) _ this p, of "Signature 1" "[]"]
  show ?thesis by auto
qed

text \<open>C7: A batch of signed transactions of the system program always completes, on a stage whose
  tracker is in step, whose lock table is free and whose recorder listens: every transaction
  gets a result, the badly signed ones an error, and the stage is ready for the next batch with
  its locks free and nothing charged.\<close>

theorem system_batch_completes:
  assumes "\<forall>tx \<in> set txs. list_all (sane_system env) (msg_instructions (tx_message tx)) \<and>
      tx_signatures tx \<noteq> [] \<and> cost_bounded cost_model tx \<and> verify_signatures_sync cr mc tx \<noteq> Panic"
    and "stage_inv L st"
  shows "\<exists>rs st'. process_batch env (mem_ops cr lc) cr mc cost_model txs st = (Ok rs, st') \<and>
    length rs = length txs \<and>
    (\<forall>i < length txs. verify_signatures_sync cr mc (txs ! i) \<noteq> Ok () \<longrightarrow> rs ! i \<noteq> None) \<and>
    stage_inv {#} st'"
proof -
  have "total_ops (mem_ops cr lc)" by (simp add: total_ops_def mem.commit_total)
  then obtain rs st' where b: "process_batch env (mem_ops cr lc) cr mc cost_model txs st = (Ok rs, st')"
    "stage_inv {#} st'"
    using batch_total [of txs env "mem_ops cr lc" cost_model cr mc L st] assms sane_calm by blast
  then have ok: "fst (process_batch env (mem_ops cr lc) cr mc cost_model txs st) = Ok rs" by simp
  show ?thesis using b batch_results [OF ok] by blast
qed

theorem system_batch_completes_witness:
  "\<exists>rs st'. process_batch wire_env (mem_ops wire_crypto leaf_codec) wire_crypto message_codec
       cost_model_new [payment [Signature 1], payment [Signature 1]] fresh_stage = (Ok rs, st') \<and>
     length rs = 2 \<and> stage_inv {#} st'"
  using system_batch_completes [of "[payment [Signature 1], payment [Signature 1]]" wire_env
      cost_model_new wire_crypto message_codec "{#}" fresh_stage leaf_codec]
    payment_sane payment_bounded payment_verified fresh_inv(2) by (simp add: numeral_2_eq_2) blast

text \<open>C14: Whatever a batch does, return its results, fail to record or panic, the account locks and
  the freeze-lock count it leaves are those it found.\<close>

theorem batch_gives_locks_back:
  assumes "lock_inv (st_locks st) guards"
  shows "st_locks (snd (process_batch env so cr mc cost_model txs st)) = st_locks st \<and>
    bk_freeze_lock_count (st_bank (snd (process_batch env so cr mc cost_model txs st))) =
      bk_freeze_lock_count (st_bank st)"
  using batch_guards [OF assms] by (simp add: same_guards_def)

theorem batch_gives_locks_back_witness:
  "st_locks (snd (process_batch wire_env (mem_ops wire_crypto leaf_codec) wire_crypto message_codec
     cost_model_new [payment [Signature 1], payment []] fresh_stage)) = locks_new"
  using batch_gives_locks_back [OF fresh_inv(1), of wire_env "mem_ops wire_crypto leaf_codec" wire_crypto]
  by simp

text \<open>C30: With its own lock table free a stage never sends a transaction back to the queue: no group
  is refused its locks, and no error of the processing is retryable. The retries the error type
  provides for, of blocks and accounts that are full, do not happen.\<close>

theorem nothing_is_requeued:
  assumes "lock_inv (st_locks st) []"
  shows "st_tx_sender (snd (process_batch env so cr mc cost_model txs st)) = st_tx_sender st"
  using batch_queue [OF assms] by (simp add: same_queue_def)

theorem nothing_is_requeued_witness:
  "ch_sent (st_tx_sender (snd (process_batch wire_env (mem_ops wire_crypto leaf_codec) wire_crypto
     message_codec cost_model_new [payment [Signature 1], payment [Signature 1]] fresh_stage))) = []"
  using nothing_is_requeued [OF fresh_inv(1), of wire_env "mem_ops wire_crypto leaf_codec" wire_crypto]
  by simp

section \<open>Malformed transactions\<close>

text \<open>C35: One transaction with more signatures than keys makes the whole batch fail with nothing done:
  the verification of the batch panics, and every other transaction of it is lost.\<close>

theorem oversigned_drops_batch:
  assumes "tx \<in> set txs" and "ser mc (tx_message tx) = Some bs"
    and "length (tx_signatures tx) > length (msg_account_keys (tx_message tx))"
  shows "process_batch env so cr mc cost_model txs st = (Err VerificationPanicked, st)"
  using assms by (rule batch_oversigned)

theorem oversigned_drops_batch_witness:
  "process_batch wire_env (mem_ops wire_crypto leaf_codec) wire_crypto message_codec cost_model_new
     [payment [Signature 1], payment [Signature 1, Signature 2, Signature 3]] fresh_stage =
   (Err VerificationPanicked, fresh_stage)"
  using oversigned_drops_batch [OF _ payment_ser, of "[Signature 1, Signature 2, Signature 3]"
      "[payment [Signature 1], payment [Signature 1, Signature 2, Signature 3]]"] by simp

text \<open>A transaction without any signature passes the verification, and when its cost fits it
  panics the stage itself, at the first signature the recorder reads.\<close>

theorem unsigned_kills_stage:
  assumes "tx_signatures tx = []" and "ser mc (tx_message tx) = Some bs"
    and "calculate_cost cost_model tx = Ok cost" and "would_fit (st_tracker st) cost = Ok ()"
    and "stage_inv L st"
  shows "verify_signatures_sync cr mc tx = Ok () \<and>
    fst (process_batch env so cr mc cost_model [tx] st) = Panic"
  using batch_unsigned [OF assms(1-4)] verify_signatures_sync_unsigned [OF assms(2,1)] assms(5)
  by (auto simp: stage_inv_def)

lemma unsigned_cost:
  "\<exists>tc. calculate_cost cost_model_new (payment []) = Ok tc \<and> would_fit (st_tracker fresh_stage) tc = Ok ()"
proof -
  have b: "cost_bounded cost_model_new (payment [])"
    using payment_bounded by (simp add: cost_bounded_def payment_writes)
      (simp add: payment_def data_len_def execution_units_def)
  have "data_len (payment []) = 12" and "execution_units cost_model_new (payment []) = 300"
    by (simp_all add: payment_def put_transfer_length pay_tx_def data_len_def execution_units_def
        program_units_def cost_model_new_def)
  then obtain tc where tc: "calculate_cost cost_model_new (payment []) = Ok tc"
    "unat (cost_sum tc) = 948" using calculate_cost_exact [OF b] by (auto simp: payment_writes)
  moreover have "would_fit (st_tracker fresh_stage) tc = Ok ()"
    using tc(2) by (simp add: would_fit_Ok_iff fits_account_def cost_tracker_new_def list_all_iff
        word_le_nat_alt saturating_add_exact cost_constants)
  ultimately show ?thesis by blast
qed

theorem unsigned_kills_stage_witness:
  "fst (process_batch wire_env (mem_ops wire_crypto leaf_codec) wire_crypto message_codec cost_model_new
     [payment []] fresh_stage) = Panic"
proof -
  obtain tc where tc: "calculate_cost cost_model_new (payment []) = Ok tc"
    "would_fit (st_tracker fresh_stage) tc = Ok ()" using unsigned_cost by blast
  from unsigned_kills_stage [OF _ payment_ser tc fresh_inv(2), of wire_crypto wire_env
      "mem_ops wire_crypto leaf_codec"]
  show ?thesis by simp
qed

end
