(* ===== verification/Rpc.thy ===== *)
theory Rpc
  imports Bank Recorder Base58
begin

text \<open>
  \<^verbatim>\<open>src/rpc\<close>: the JSON-RPC requests of a node. \<^verbatim>\<open>sendTransaction\<close> decodes a transaction,
  simulates it unless told not to, and sends it to the banking stage; the other methods read
  the bank and its store. The routing of \<^verbatim>\<open>server.rs\<close> hands every request to
  \<open>handle_rpc_request\<close>.

  A JSON value is the documented enumeration of \<^verbatim>\<open>serde_json\<close>. The text codecs, the
  transaction's \<^verbatim>\<open>bincode\<close> format, the derived reader of the configuration and the texts of the
  libraries' errors are the parameters of \<open>rpc_lib\<close>.
\<close>

section \<open>Values, errors, parameters\<close>

datatype json =
    JNull
  | JBool bool
  | JNumber int
  | JString string
  | JArray "json list"
  | JObject "(string \<times> json) list"

datatype rpc_error =
    InvalidParams string
  | RpcInternalError string
  | SendTransactionPreflightFailure string

definition rpc_error_text :: "rpc_error \<Rightarrow> string" where
  "rpc_error_text e =
     (case e of
        InvalidParams t \<Rightarrow> ''invalid params: '' @ t
      | RpcInternalError t \<Rightarrow> ''internal error: '' @ t
      | SendTransactionPreflightFailure message \<Rightarrow> ''transaction simulation failed: '' @ message)"

record rpc_send_transaction_config =
  skip_preflight :: bool

definition send_config_default :: rpc_send_transaction_config where
  "send_config_default = \<lparr>skip_preflight = False\<rparr>"

record rpc_lib =
  lib_b58_encode :: "bytes \<Rightarrow> string"
  lib_b58_decode :: "string \<Rightarrow> bytes option"
  lib_b64_encode :: "bytes \<Rightarrow> string"
  lib_b64_decode :: "string \<Rightarrow> bytes option"
  lib_tx_codec :: "transaction codec"
  lib_config :: "json \<Rightarrow> rpc_send_transaction_config option"
  lib_value_error :: "json \<Rightarrow> string"
  lib_b64_error :: "string \<Rightarrow> string"
  lib_codec_error :: "bytes \<Rightarrow> string"
  lib_send_error :: "transaction \<Rightarrow> string"
  lib_debug_account_error :: "account_error \<Rightarrow> string"
  lib_debug_program_error :: "program_error \<Rightarrow> string"

text \<open>The messages of the transaction errors; \<^verbatim>\<open>{:?}\<close> is a derived form.\<close>

definition transaction_error_text :: "rpc_lib \<Rightarrow> transaction_error \<Rightarrow> string" where
  "transaction_error_text lib e =
     (case e of
        InvalidSignature \<Rightarrow> ''invalid signature''
      | AccountError a \<Rightarrow> ''account error: '' @ lib_debug_account_error lib a
      | ProgramError p \<Rightarrow> ''program error: '' @ lib_debug_program_error lib p
      | BlockhashNotFound \<Rightarrow> ''blockhash not found''
      | BlockhashExpired \<Rightarrow> ''blockhash has expired''
      | AccountInUse \<Rightarrow> ''account is in use''
      | WouldExceedMaxBlockCostLimit \<Rightarrow> ''transaction would exceed max block cost limit'')"

definition decimal :: "nat \<Rightarrow> string" where
  "decimal n = (if n = 0 then ''0'' else map (\<lambda>d. char_of (48 + d)) (to_digits 10 n))"

definition parse_pubkey_error_text :: "parse_pubkey_error \<Rightarrow> string" where
  "parse_pubkey_error_text e =
     (case e of
        InvalidBase58 \<Rightarrow> ''invalid base58 string''
      | InvalidLength n \<Rightarrow> ''invalid length: expected 32, got '' @ decimal n)"

definition hash_to_string :: "(bytes \<Rightarrow> string) \<Rightarrow> hash \<Rightarrow> string" where
  "hash_to_string encode h = encode (hash_bytes h)"

definition signature_to_string :: "(bytes \<Rightarrow> string) \<Rightarrow> signature \<Rightarrow> string" where
  "signature_to_string encode s = encode (signature_bytes s)"

record 's rpc_state =
  rp_store :: 's
  rp_bank :: bank
  rp_tx_sender :: "transaction channel"
  rp_cache :: program_cache

record json_rpc_request =
  rq_jsonrpc :: string
  rq_method :: string
  rq_params :: json
  rq_id :: json

record json_rpc_response =
  rs_jsonrpc :: string
  rs_result :: json
  rs_id :: json

text \<open>Reading values: \<^verbatim>\<open>params[0]\<close> is null where there is nothing.\<close>

definition index0 :: "json \<Rightarrow> json" where
  "index0 v = (case v of JArray (x # _) \<Rightarrow> x | _ \<Rightarrow> JNull)"

definition as_str :: "json \<Rightarrow> string option" where
  "as_str v = (case v of JString s \<Rightarrow> Some s | _ \<Rightarrow> None)"

definition as_vec :: "json \<Rightarrow> json list option" where
  "as_vec v = (case v of JArray xs \<Rightarrow> Some xs | _ \<Rightarrow> None)"

section \<open>Sending a transaction\<close>

definition send_params ::
    "rpc_lib \<Rightarrow> json \<Rightarrow> (transaction \<times> rpc_send_transaction_config, rpc_error) result" where
  "send_params lib params =
     and_then (ok_or (as_vec params)
         (InvalidParams (''params must be an array: '' @ lib_value_error lib params))) (\<lambda>params_array.
     if params_array = [] then Err (InvalidParams ''params array is empty'')
     else and_then (ok_or (as_str (params_array ! 0))
         (InvalidParams (''param 0 (transaction) must be a string: '' @
            lib_value_error lib (params_array ! 0)))) (\<lambda>tx_data_str.
     and_then
       (if length params_array \<le> 1 then Ok send_config_default
        else ok_or (lib_config lib (params_array ! 1))
          (InvalidParams (''param 1 (config) is invalid: '' @ lib_value_error lib (params_array ! 1))))
       (\<lambda>config.
     and_then (ok_or (lib_b64_decode lib tx_data_str)
         (InvalidParams (''invalid base64: '' @ lib_b64_error lib tx_data_str))) (\<lambda>tx_bytes.
     and_then (ok_or (de (lib_tx_codec lib) tx_bytes)
         (InvalidParams (''failed to deserialize transaction: '' @ lib_codec_error lib tx_bytes)))
       (\<lambda>tx. Ok (tx, config))))))"

definition rpc_preflight ::
    "rpc_lib \<Rightarrow> ('rent, 'exe) env \<Rightarrow> 's store_ops \<Rightarrow> transaction \<Rightarrow> 's rpc_state \<Rightarrow>
     (unit, rpc_error) result \<times> 's rpc_state" where
  "rpc_preflight lib env so tx st =
     (case simulate_transaction env so (rp_store st) tx (rp_cache st) of
        (simulation_result, cache) \<Rightarrow>
          (map_err (\<lambda>e. SendTransactionPreflightFailure (transaction_error_text lib e))
             simulation_result,
           st\<lparr>rp_cache := cache\<rparr>))"

definition handle_send_transaction ::
    "rpc_lib \<Rightarrow> ('rent, 'exe) env \<Rightarrow> 's store_ops \<Rightarrow> json \<Rightarrow> 's rpc_state \<Rightarrow>
     (json, rpc_error) result \<times> 's rpc_state" where
  "handle_send_transaction lib env so params st =
     run_then (lift_result (send_params lib params) st) (\<lambda>(tx, config) st.
     run_then (if \<not> skip_preflight config then rpc_preflight lib env so tx st else (Ok (), st)) (\<lambda>_ st.
     let signature =
           (case tx_signatures tx of s # _ \<Rightarrow> signature_to_string (lib_b58_encode lib) s | [] \<Rightarrow> '''') in
     case channel_send tx (rp_tx_sender st) of
       None \<Rightarrow> (Err (RpcInternalError (''failed to send to banking stage: '' @ lib_send_error lib tx)), st)
     | Some ch \<Rightarrow> (Ok (JString signature), st\<lparr>rp_tx_sender := ch\<rparr>)))"

section \<open>Reading the bank\<close>

definition pubkey_param :: "rpc_lib \<Rightarrow> json \<Rightarrow> (pubkey, rpc_error) result" where
  "pubkey_param lib params =
     and_then (ok_or (as_str (index0 params)) (InvalidParams ''param 0 must be a string''))
       (\<lambda>s. map_err (\<lambda>e. InvalidParams (parse_pubkey_error_text e))
              (pubkey_from_str (lib_b58_decode lib) s))"

definition handle_get_balance ::
    "rpc_lib \<Rightarrow> 's store_ops \<Rightarrow> json \<Rightarrow> 's rpc_state \<Rightarrow> (json, rpc_error) result" where
  "handle_get_balance lib so params st =
     and_then (pubkey_param lib params) (\<lambda>pubkey.
     Ok (JNumber (uint (case so_load so (rp_store st) pubkey of Some acc \<Rightarrow> acc_lamports acc | None \<Rightarrow> 0))))"

definition rpc_account :: "rpc_lib \<Rightarrow> account \<Rightarrow> json" where
  "rpc_account lib a =
     JObject
       [(''lamports'', JNumber (uint (acc_lamports a))),
        (''data'', JString (lib_b64_encode lib (acc_data a))),
        (''owner'', JString (pubkey_to_string (lib_b58_encode lib) (acc_owner a))),
        (''executable'', JBool (acc_executable a)),
        (''rentEpoch'', JNumber (uint (acc_rent_epoch a)))]"

definition handle_get_account_info ::
    "rpc_lib \<Rightarrow> 's store_ops \<Rightarrow> json \<Rightarrow> 's rpc_state \<Rightarrow> (json, rpc_error) result" where
  "handle_get_account_info lib so params st =
     and_then (pubkey_param lib params) (\<lambda>pubkey.
     Ok (case so_load so (rp_store st) pubkey of
           Some account \<Rightarrow> rpc_account lib account
         | None \<Rightarrow> JNull))"

text \<open>The sum of the slot and the depth is checked.\<close>

definition handle_get_latest_blockhash :: "rpc_lib \<Rightarrow> 's rpc_state \<Rightarrow> (json, rpc_error) result" where
  "handle_get_latest_blockhash lib st =
     (if bk_blockhash_queue (rp_bank st) = [] then
        Ok (JObject [(''blockhash'', JString (hash_to_string (lib_b58_encode lib) hash_default)),
                     (''lastValidBlockHeight'', JNumber 0)])
      else
        let info = last (bk_blockhash_queue (rp_bank st)) in
        and_then (add_checked (bi_created_at_slot info) (of_nat MAX_BLOCKHASH_QUEUE_DEPTH)) (\<lambda>height.
        Ok (JObject [(''blockhash'', JString (hash_to_string (lib_b58_encode lib) (bi_hash info))),
                     (''lastValidBlockHeight'', JNumber (uint height))])))"

definition handle_get_slot :: "'s rpc_state \<Rightarrow> (json, rpc_error) result" where
  "handle_get_slot st = Ok (JNumber (uint (bk_slot (rp_bank st))))"

definition handle_get_block_height :: "'s rpc_state \<Rightarrow> (json, rpc_error) result" where
  "handle_get_block_height st = Ok (JNumber (uint (bk_slot (rp_bank st))))"

definition handle_get_identity :: "rpc_lib \<Rightarrow> (json, rpc_error) result" where
  "handle_get_identity lib = Ok (JString (pubkey_to_string (lib_b58_encode lib) pubkey_default))"

text \<open>The methods whose answers are fixed.\<close>

definition handle_get_signature_statuses :: "(json, rpc_error) result" where
  "handle_get_signature_statuses = Ok (JArray [])"

definition handle_get_multiple_accounts :: "(json, rpc_error) result" where
  "handle_get_multiple_accounts = Ok (JArray [])"

definition handle_get_health :: "(json, rpc_error) result" where
  "handle_get_health = Ok (JString ''ok'')"

definition handle_get_version :: "(json, rpc_error) result" where
  "handle_get_version = Ok (JObject [(''tiny-solana-version'', JString ''0.1.0'')])"

definition handle_get_minimum_balance :: "(json, rpc_error) result" where
  "handle_get_minimum_balance = Ok (JNumber 2039280)"

definition handle_get_epoch_info :: "(json, rpc_error) result" where
  "handle_get_epoch_info = Ok (JObject [(''epoch'', JNumber 0)])"

section \<open>Requests\<close>

definition read_method ::
    "rpc_lib \<Rightarrow> 's store_ops \<Rightarrow> json_rpc_request \<Rightarrow> 's rpc_state \<Rightarrow> (json, rpc_error) result" where
  "read_method lib so rq st =
     (let m = rq_method rq in
      if m = ''getSignatureStatuses'' then handle_get_signature_statuses
      else if m = ''getBalance'' then handle_get_balance lib so (rq_params rq) st
      else if m = ''getAccountInfo'' then handle_get_account_info lib so (rq_params rq) st
      else if m = ''getMultipleAccounts'' then handle_get_multiple_accounts
      else if m = ''getLatestBlockhash'' then handle_get_latest_blockhash lib st
      else if m = ''getSlot'' then handle_get_slot st
      else if m = ''getBlockHeight'' then handle_get_block_height st
      else if m = ''getHealth'' then handle_get_health
      else if m = ''getVersion'' then handle_get_version
      else if m = ''getIdentity'' then handle_get_identity lib
      else if m = ''getMinimumBalanceForRentExemption'' then handle_get_minimum_balance
      else if m = ''getEpochInfo'' then handle_get_epoch_info
      else Ok (JObject [(''error'', JString (''method '' @ [char_of (39::nat)] @ m @ [char_of (39::nat)] @ '' not found''))]))"

definition error_value :: "rpc_error \<Rightarrow> json" where
  "error_value e =
     JObject [(''error'', JObject [(''code'', JNumber (- 32602)), (''message'', JString (rpc_error_text e))])]"

definition handle_rpc_request ::
    "rpc_lib \<Rightarrow> ('rent, 'exe) env \<Rightarrow> 's store_ops \<Rightarrow> json_rpc_request \<Rightarrow> 's rpc_state \<Rightarrow>
     (json_rpc_response, rpc_error) result \<times> 's rpc_state" where
  "handle_rpc_request lib env so rq st =
     (case (if rq_method rq = ''sendTransaction'' then handle_send_transaction lib env so (rq_params rq) st
            else (read_method lib so rq st, st)) of
        (result, st) \<Rightarrow>
          (case result of
             Ok v \<Rightarrow> Ok \<lparr>rs_jsonrpc = ''2.0'', rs_result = v, rs_id = rq_id rq\<rparr>
           | Err e \<Rightarrow> Ok \<lparr>rs_jsonrpc = ''2.0'', rs_result = error_value e, rs_id = rq_id rq\<rparr>
           | Panic \<Rightarrow> Panic, st))"

end
