(* ===== verification/Client.thy ===== *)
theory Client
  imports Rpc
begin

text \<open>
  The other side of the node: \<^verbatim>\<open>Keypair\<close> (\<^verbatim>\<open>src/types.rs\<close>), the key file
  \<^verbatim>\<open>src/bin/keygen.rs\<close> writes and \<^verbatim>\<open>load_keypair\<close> reads, and the requests and the
  transfer transaction of \<^verbatim>\<open>src/bin/client.rs\<close>. The signing keys of \<^verbatim>\<open>ed25519-dalek\<close>,
  the JSON text of a list of bytes and the transport of \<^verbatim>\<open>reqwest\<close> are parameters.
\<close>

section \<open>Key pairs\<close>

record 'sk ed25519 =
  ed_from_bytes :: "arr32 \<Rightarrow> 'sk"
  ed_to_bytes :: "'sk \<Rightarrow> arr32"
  ed_verifying_key :: "'sk \<Rightarrow> arr32"
  ed_sign :: "'sk \<Rightarrow> bytes \<Rightarrow> arr64"

datatype 'sk keypair = Keypair 'sk

primrec signing_key :: "'sk keypair \<Rightarrow> 'sk" where "signing_key (Keypair sk) = sk"

definition keypair_from_bytes :: "'sk ed25519 \<Rightarrow> bytes \<Rightarrow> 'sk keypair option" where
  "keypair_from_bytes ed bs =
     (if length bs = 32 then Some (Keypair (ed_from_bytes ed (of_be_bytes bs))) else None)"

definition keypair_to_bytes :: "'sk ed25519 \<Rightarrow> 'sk keypair \<Rightarrow> bytes" where
  "keypair_to_bytes ed kp = be_bytes 32 (ed_to_bytes ed (signing_key kp))"

definition keypair_pubkey :: "'sk ed25519 \<Rightarrow> 'sk keypair \<Rightarrow> pubkey" where
  "keypair_pubkey ed kp = Pubkey (ed_verifying_key ed (signing_key kp))"

definition sign_message :: "'sk ed25519 \<Rightarrow> 'sk keypair \<Rightarrow> bytes \<Rightarrow> signature" where
  "sign_message ed kp message = Signature (ed_sign ed (signing_key kp) message)"

text \<open>Files are a map from paths to texts, and errors carry the path only.\<close>

definition FAUCET_FILE :: string where "FAUCET_FILE = ''faucet.json''"

definition keygen :: "'sk ed25519 \<Rightarrow> (bytes \<Rightarrow> string) \<Rightarrow> 'sk keypair \<Rightarrow> (string \<rightharpoonup> string) \<Rightarrow> (string \<rightharpoonup> string)" where
  "keygen ed json_text generated files = files(FAUCET_FILE \<mapsto> json_text (keypair_to_bytes ed generated))"

datatype load_error = ReadFailed string | ParseFailed | InvalidKeypairBytes

definition load_keypair ::
    "'sk ed25519 \<Rightarrow> (string \<Rightarrow> bytes option) \<Rightarrow> string \<Rightarrow> (string \<rightharpoonup> string) \<Rightarrow> ('sk keypair, load_error) result" where
  "load_keypair ed json_bytes path files =
     and_then (ok_or (files path) (ReadFailed path)) (\<lambda>json_content.
     and_then (ok_or (json_bytes json_content) ParseFailed) (\<lambda>bs.
     ok_or (keypair_from_bytes ed bs) InvalidKeypairBytes))"

section \<open>Requests\<close>

datatype client_error = Transport | Context string | Signing

text \<open>Indexing a value by a name gives null where there is no such member.\<close>

definition member :: "string \<Rightarrow> json \<Rightarrow> json" where
  "member name v = (case v of JObject kvs \<Rightarrow> (case map_of kvs name of Some x \<Rightarrow> x | None \<Rightarrow> JNull) | _ \<Rightarrow> JNull)"

definition as_u64 :: "json \<Rightarrow> u64 option" where
  "as_u64 v = (case v of JNumber n \<Rightarrow> if 0 \<le> n \<and> n < 2 ^ 64 then Some (word_of_int n) else None | _ \<Rightarrow> None)"

definition client_request :: "string \<Rightarrow> json \<Rightarrow> json_rpc_request" where
  "client_request m params = \<lparr>rq_jsonrpc = ''2.0'', rq_method = m, rq_params = params, rq_id = JNumber 1\<rparr>"

text \<open>
  What each request reads from the \<^verbatim>\<open>result\<close> of its answer. The copy of the decoded hash
  into an array panics when its length is not 32.
\<close>

definition read_blockhash :: "rpc_lib \<Rightarrow> json_rpc_response \<Rightarrow> (hash, client_error) result" where
  "read_blockhash lib response =
     and_then (ok_or (as_str (member ''blockhash'' (rs_result response)))
         (Context ''failed to parse blockhash from rpc response'')) (\<lambda>blockhash_str.
     and_then (ok_or (lib_b58_decode lib blockhash_str) (Context ''invalid base58 blockhash'')) (\<lambda>bs.
     if length bs \<noteq> 32 then Panic else Ok (Hash (of_be_bytes bs))))"

text \<open>
  The transport \<open>post\<close> gives the answer to a request, or nothing when it fails, and the world
  it leaves; \<open>wait\<close> is what happens in the two seconds of \<^verbatim>\<open>main\<close>.
\<close>

definition post_request ::
    "(json_rpc_request \<Rightarrow> 'w \<Rightarrow> json_rpc_response option \<times> 'w) \<Rightarrow> json_rpc_request \<Rightarrow> 'w \<Rightarrow>
     (json_rpc_response, client_error) result \<times> 'w" where
  "post_request post rq w = (case post rq w of (r, w) \<Rightarrow> (ok_or r Transport, w))"

definition get_latest_blockhash ::
    "rpc_lib \<Rightarrow> (json_rpc_request \<Rightarrow> 'w \<Rightarrow> json_rpc_response option \<times> 'w) \<Rightarrow> 'w \<Rightarrow>
     (hash, client_error) result \<times> 'w" where
  "get_latest_blockhash lib post w =
     run_then (post_request post (client_request ''getLatestBlockhash'' JNull) w) (\<lambda>response w.
     (read_blockhash lib response, w))"

definition read_balance :: "json_rpc_response \<Rightarrow> (u64, client_error) result" where
  "read_balance response =
     ok_or (as_u64 (rs_result response)) (Context ''failed to parse balance from rpc response'')"

definition get_balance ::
    "rpc_lib \<Rightarrow> (json_rpc_request \<Rightarrow> 'w \<Rightarrow> json_rpc_response option \<times> 'w) \<Rightarrow> pubkey \<Rightarrow> 'w \<Rightarrow>
     (u64, client_error) result \<times> 'w" where
  "get_balance lib post pubkey w =
     run_then (post_request post (client_request ''getBalance''
         (JArray [JString (pubkey_to_string (lib_b58_encode lib) pubkey)])) w) (\<lambda>response w.
     (read_balance response, w))"

definition send_transaction_request :: "rpc_lib \<Rightarrow> transaction \<Rightarrow> (json_rpc_request, client_error) result" where
  "send_transaction_request lib tx =
     and_then (ok_or (ser (lib_tx_codec lib) tx) (Context ''failed to serialize transaction'')) (\<lambda>serialized_tx.
     Ok (client_request ''sendTransaction'' (JArray [JString (lib_b64_encode lib serialized_tx)])))"

definition read_signature :: "json_rpc_response \<Rightarrow> (string, client_error) result" where
  "read_signature response =
     ok_or (as_str (rs_result response)) (Context ''failed to parse signature from rpc response'')"

definition send_transaction ::
    "rpc_lib \<Rightarrow> (json_rpc_request \<Rightarrow> 'w \<Rightarrow> json_rpc_response option \<times> 'w) \<Rightarrow> transaction \<Rightarrow> 'w \<Rightarrow>
     (string, client_error) result \<times> 'w" where
  "send_transaction lib post tx w =
     run_then (lift_result (send_transaction_request lib tx) w) (\<lambda>rq w.
     run_then (post_request post rq w) (\<lambda>response w. (read_signature response, w)))"

section \<open>The transfer\<close>

definition create_transfer_transaction ::
    "'sk ed25519 \<Rightarrow> system_instruction codec \<Rightarrow> message codec \<Rightarrow> 'sk keypair \<Rightarrow> pubkey \<Rightarrow> u64 \<Rightarrow> hash \<Rightarrow>
     (transaction, client_error) result" where
  "create_transfer_transaction ed sc mc from_keypair to_pubkey lamports recent_blockhash =
     (let from_pubkey = keypair_pubkey ed from_keypair;
          account_keys = [from_pubkey, to_pubkey, SYSTEM_PROGRAM_ID] in
      and_then (ok_or (ser sc (SystemTransfer lamports))
          (Context ''failed to serialize transfer instruction data'')) (\<lambda>data.
      let instruction =
            \<lparr>ix_program_id = SYSTEM_PROGRAM_ID,
             ix_accounts =
               [\<lparr>am_pubkey = from_pubkey, am_is_signer = True, am_is_writable = True\<rparr>,
                \<lparr>am_pubkey = to_pubkey, am_is_signer = False, am_is_writable = True\<rparr>],
             ix_data = data\<rparr>;
          message =
            \<lparr>msg_account_keys = account_keys, msg_recent_blockhash = recent_blockhash,
             msg_instructions = [instruction]\<rparr> in
      and_then (map_err (\<lambda>_. Signing) (serialize_for_signing mc message)) (\<lambda>message_bytes.
      let signature = sign_message ed from_keypair message_bytes in
      Ok \<lparr>tx_signatures = [signature], tx_message = message\<rparr>)))"

text \<open>The program: what it prints is its result.\<close>

definition client_main ::
    "'sk ed25519 \<Rightarrow> (string \<Rightarrow> bytes option) \<Rightarrow> rpc_lib \<Rightarrow> system_instruction codec \<Rightarrow> message codec \<Rightarrow>
     (json_rpc_request \<Rightarrow> 'w \<Rightarrow> json_rpc_response option \<times> 'w) \<Rightarrow> ('w \<Rightarrow> 'w) \<Rightarrow> (string \<rightharpoonup> string) \<Rightarrow>
     'sk keypair \<Rightarrow> 'w \<Rightarrow> (string \<times> u64 \<times> u64, client_error) result \<times> 'w" where
  "client_main ed json_bytes lib sc mc post wait files recipient w =
     run_then (lift_result (map_err (\<lambda>_. Context ''load_keypair err'')
         (load_keypair ed json_bytes FAUCET_FILE files)) w) (\<lambda>faucet w.
     run_then (get_latest_blockhash lib post w) (\<lambda>blockhash w.
     run_then (lift_result (create_transfer_transaction ed sc mc faucet (keypair_pubkey ed recipient)
         1000000 blockhash) w) (\<lambda>tx w.
     run_then (send_transaction lib post tx w) (\<lambda>signature w.
     let w = wait w in
     run_then (get_balance lib post (keypair_pubkey ed faucet) w) (\<lambda>faucet_balance w.
     run_then (get_balance lib post (keypair_pubkey ed recipient) w) (\<lambda>recipient_balance w.
     (Ok (signature, faucet_balance, recipient_balance), w)))))))"

section \<open>What they guarantee\<close>

text \<open>
  The scheme verifies what it signs and its keys survive their bytes, as its documentation
  states.
\<close>

definition signs_for :: "'sk ed25519 \<Rightarrow> crypto \<Rightarrow> bool" where
  "signs_for ed cr \<longleftrightarrow>
     (\<forall>sk. key_from_bytes cr (ed_verifying_key ed sk)) \<and>
     (\<forall>sk m. key_verify cr (ed_verifying_key ed sk) m (ed_sign ed sk m)) \<and>
     (\<forall>sk m. key_verify_strict cr (ed_verifying_key ed sk) m (ed_sign ed sk m))"

lemma signed_verifies:
  "signs_for ed cr \<Longrightarrow> verify_signature cr (sign_message ed kp m) m (keypair_pubkey ed kp)"
  by (simp add: signs_for_def verify_signature_def sign_message_def keypair_pubkey_def)

lemma keypair_bytes:
  assumes "\<And>sk. ed_from_bytes ed (ed_to_bytes ed sk) = sk"
  shows "keypair_from_bytes ed (keypair_to_bytes ed kp) = Some kp"
  by (cases kp) (simp add: keypair_from_bytes_def keypair_to_bytes_def of_be_bytes_be_bytes assms)

lemma transfer_verified:
  assumes "create_transfer_transaction ed sc mc kp to n h = Ok tx" and "signs_for ed cr"
  shows "verify_signatures_sync cr mc tx = Ok ()"
proof -
  obtain bs where "ser mc (tx_message tx) = Some bs" "tx_signatures tx = [sign_message ed kp bs]"
    "msg_account_keys (tx_message tx) = [keypair_pubkey ed kp, to, SYSTEM_PROGRAM_ID]"
    using assms(1) by (auto simp: create_transfer_transaction_def Let_def serialize_for_signing_def)
  then show ?thesis
    using assms(2) by (simp add: verify_signatures_sync_Ok signature_valid_def sign_message_def
        keypair_pubkey_def signs_for_def)
qed

end
