(* ===== verification/Node.thy ===== *)
theory Node
  imports Banking_Stage Client
begin

text \<open>
  \<^verbatim>\<open>src/main.rs\<close>: how a node is put together. One bank over one in-memory store, a faucet
  account, a queue of transactions that the requests fill and the banking task drains in
  batches, the proof-of-history service that receives the hashes of the groups, and the flag
  that ends both. The banking task ends when it panics or sees the flag, and with it the node.
\<close>

section \<open>Starting a node\<close>

definition LAMPORTS_PER_SOL :: u64 where "LAMPORTS_PER_SOL = 1000000000"

definition BATCH_SIZE_LIMIT :: nat where "BATCH_SIZE_LIMIT = 128"

definition faucet_lamports :: "(u64, 'e) result" where
  "faucet_lamports = mul_checked 1000 LAMPORTS_PER_SOL"

definition init_faucet :: "'s store_ops \<Rightarrow> pubkey \<Rightarrow> 's \<Rightarrow> ('s, 'e) result" where
  "init_faucet so faucet_pubkey s =
     and_then faucet_lamports (\<lambda>lamports.
     let faucet_account =
           \<lparr>acc_pubkey = faucet_pubkey, acc_lamports = lamports, acc_data = [],
            acc_owner = SYSTEM_PROGRAM_ID, acc_executable = False, acc_rent_epoch = 0\<rparr> in
     unwrap_result (so_store so s faucet_pubkey faucet_account))"

text \<open>
  The configuration of the service and the recorder \<^verbatim>\<open>main\<close> makes for it.
\<close>

definition node_poh_config :: poh_config where
  "node_poh_config = \<lparr>pc_hashes_per_tick = 8, pc_ticks_per_slot = 16, pc_tick_rate = 50 * 10 ^ 6\<rparr>"

definition node_poh :: poh_recorder where
  "node_poh = poh_new hash_default (pc_ticks_per_slot node_poh_config) (pc_hashes_per_tick node_poh_config)"

text \<open>
  The node's state: the stage, which holds the store, the bank and the sending ends of both
  channels; how many transactions the banking task has received, and whether it runs; the
  flag \<^verbatim>\<open>exit\<close>; and the service's thread, where \<^term>\<open>Panic\<close> is a thread that panicked, with
  how many hashes it has received.
\<close>

record 's node =
  nd_stage :: "'s stage"
  nd_received :: nat
  nd_running :: bool
  nd_exit :: bool
  nd_service :: "(service, poh_error) result"
  nd_recorded :: nat

definition node_start :: "'s store_ops \<Rightarrow> pubkey \<Rightarrow> 's \<Rightarrow> ('s node, 'e) result" where
  "node_start so faucet_pubkey empty_store =
     and_then (init_faucet so faucet_pubkey empty_store) (\<lambda>s.
     and_then (poh_service_new node_poh node_poh_config) (\<lambda>(_, service).
     Ok \<lparr>nd_stage = banking_stage_new \<lparr>ch_sent = [], ch_open = True\<rparr> \<lparr>ch_sent = [], ch_open = True\<rparr> s bank_new,
         nd_received = 0, nd_running = True, nd_exit = False, nd_service = Ok service, nd_recorded = 0\<rparr>))"

text \<open>\<^verbatim>\<open>main\<close> reads the faucet's key file first.\<close>

definition node_main ::
    "'sk ed25519 \<Rightarrow> (string \<Rightarrow> bytes option) \<Rightarrow> (string \<rightharpoonup> string) \<Rightarrow> 's store_ops \<Rightarrow> 's \<Rightarrow>
     ('s node, load_error) result" where
  "node_main ed json_bytes files so empty_store =
     and_then (load_keypair ed json_bytes FAUCET_FILE files) (\<lambda>faucet_keypair.
     node_start so (keypair_pubkey ed faucet_keypair) empty_store)"

section \<open>The banking task\<close>

definition pending :: "'s node \<Rightarrow> transaction list" where
  "pending nd = drop (nd_received nd) (ch_sent (st_tx_sender (nd_stage nd)))"

text \<open>\<^verbatim>\<open>try_recv\<close> until the queue is empty or the batch is full.\<close>

fun drain :: "transaction list \<Rightarrow> transaction list \<Rightarrow> transaction list" where
  "drain batch [] = batch"
| "drain batch (tx # queue) =
     (let batch = batch @ [tx] in
      if length batch \<ge> BATCH_SIZE_LIMIT then batch else drain batch queue)"

text \<open>
  One round of the task's loop. An error of the batch is logged, its results too. The task
  ends when it sees the flag, or with a panic; its receiver is gone then, and the channel of
  the transactions closed.
\<close>

definition end_banking :: "'s node \<Rightarrow> 's node" where
  "end_banking nd =
     nd\<lparr>nd_running := False,
        nd_stage := (nd_stage nd)\<lparr>st_tx_sender := (st_tx_sender (nd_stage nd))\<lparr>ch_open := False\<rparr>\<rparr>\<rparr>"

definition banking_round ::
    "('rent, 'exe) env \<Rightarrow> 's store_ops \<Rightarrow> crypto \<Rightarrow> message codec \<Rightarrow> 's node \<Rightarrow> 's node" where
  "banking_round env so cr mc nd =
     (if \<not> nd_running nd then nd
      else if nd_exit nd then end_banking nd
      else let batch = drain [] (pending nd) in
      if batch = [] then nd
      else case process_batch env so cr mc cost_model_new batch (nd_stage nd) of
        (r, st) \<Rightarrow>
          let nd = nd\<lparr>nd_stage := st, nd_received := nd_received nd + length batch\<rparr> in
          if r = Panic then end_banking nd else nd)"

section \<open>The proof-of-history service\<close>

text \<open>
  What the service finds in its channel. The sender is the banking stage, which the banking
  task owns, so the channel is closed once the task has ended. With the service its receiver
  goes: the stage can record nothing any more.
\<close>

definition service_receives :: "'s node \<Rightarrow> recv" where
  "service_receives nd =
     (let sent = ch_sent (st_poh_sender (nd_stage nd)) in
      if nd_recorded nd < length sent then Received (sent ! nd_recorded nd)
      else if nd_running nd then Empty else Disconnected)"

definition poh_round :: "crypto \<Rightarrow> 's node \<Rightarrow> 's node" where
  "poh_round cr nd =
     (case nd_service nd of
        Ok (Running r) \<Rightarrow>
          let received = service_receives nd;
              service = service_step cr (nd_exit nd) received r;
              nd = nd\<lparr>nd_service := service,
                      nd_recorded := nd_recorded nd +
                        (if \<not> nd_exit nd then length (received_hashes received) else 0)\<rparr> in
          (case service of
             Ok (Running _) \<Rightarrow> nd
           | _ \<Rightarrow> nd\<lparr>nd_stage := (nd_stage nd)\<lparr>st_poh_sender := (st_poh_sender (nd_stage nd))\<lparr>ch_open := False\<rparr>\<rparr>\<rparr>)
      | _ \<Rightarrow> nd)"

section \<open>The end of the node\<close>

text \<open>
  \<^verbatim>\<open>main\<close> waits for the first of three events, sets the flag, and joins the service's thread.
  The server of the requests is a library's: it may end at any time.
\<close>

datatype exit_event = RpcServerExited | BankingStageExited | CtrlC

definition exit_ready :: "exit_event \<Rightarrow> 's node \<Rightarrow> bool" where
  "exit_ready event nd = (case event of BankingStageExited \<Rightarrow> \<not> nd_running nd | _ \<Rightarrow> True)"

definition node_exit :: "exit_event \<Rightarrow> 's node \<Rightarrow> 's node option" where
  "node_exit event nd = (if exit_ready event nd then Some (nd\<lparr>nd_exit := True\<rparr>) else None)"

definition node_done :: "'s node \<Rightarrow> bool" where
  "node_done nd \<longleftrightarrow> nd_exit nd \<and> (case nd_service nd of Ok (Running _) \<Rightarrow> False | _ \<Rightarrow> True)"

section \<open>Requests to the node\<close>

text \<open>
  A request runs on the bank and the queue of the stage; the bank's executor, and with it the
  cache, is the same one.
\<close>

definition rpc_view :: "'s node \<Rightarrow> 's rpc_state" where
  "rpc_view nd =
     \<lparr>rp_store = st_store (nd_stage nd), rp_bank = st_bank (nd_stage nd),
      rp_tx_sender = st_tx_sender (nd_stage nd), rp_cache = st_cache (nd_stage nd)\<rparr>"

definition node_request ::
    "rpc_lib \<Rightarrow> ('rent, 'exe) env \<Rightarrow> 's store_ops \<Rightarrow> json_rpc_request \<Rightarrow> 's node \<Rightarrow>
     (json_rpc_response, rpc_error) result \<times> 's node" where
  "node_request lib env so rq nd =
     (case handle_rpc_request lib env so rq (rpc_view nd) of
        (r, rst) \<Rightarrow>
          (r, nd\<lparr>nd_stage := (nd_stage nd)\<lparr>st_tx_sender := rp_tx_sender rst, st_cache := rp_cache rst\<rparr>\<rparr>))"

text \<open>The node as a client's transport: a handler that panics leaves the request unanswered.\<close>

definition node_post ::
    "rpc_lib \<Rightarrow> ('rent, 'exe) env \<Rightarrow> 's store_ops \<Rightarrow> json_rpc_request \<Rightarrow> 's node \<Rightarrow>
     json_rpc_response option \<times> 's node" where
  "node_post lib env so rq nd =
     (case node_request lib env so rq nd of
        (r, nd) \<Rightarrow> (case r of Ok response \<Rightarrow> Some response | _ \<Rightarrow> None, nd))"

section \<open>The queue\<close>

lemma drain_take: "length batch < BATCH_SIZE_LIMIT \<Longrightarrow>
    drain batch queue = batch @ take (BATCH_SIZE_LIMIT - length batch) queue"
proof (induction queue arbitrary: batch)
  case (Cons tx queue)
  show ?case
  proof (cases "BATCH_SIZE_LIMIT \<le> Suc (length batch)")
    case True
    then have "BATCH_SIZE_LIMIT - length batch = 1" using Cons.prems by linarith
    then show ?thesis using True by (simp add: Let_def)
  next
    case False
    then have "BATCH_SIZE_LIMIT - length batch = Suc (BATCH_SIZE_LIMIT - Suc (length batch))" by linarith
    then show ?thesis using False Cons.IH [of "batch @ [tx]"] by (simp add: Let_def)
  qed
qed simp

lemma drain_batch: "drain [] queue = take BATCH_SIZE_LIMIT queue"
  by (simp add: drain_take BATCH_SIZE_LIMIT_def)

end
