(* ===== verification/Node_Laws.thy ===== *)
theory Node_Laws
  imports Batch_Properties Client Node
begin

text \<open>
  The client's transfer through a node: what its transaction does when it is simulated and
  when it is processed, and what a request leaves in the queue.
\<close>

section \<open>The client's transaction\<close>

definition transfer_data :: "system_instruction codec \<Rightarrow> u64 \<Rightarrow> bytes" where
  "transfer_data sc n = (case ser sc (SystemTransfer n) of Some bs \<Rightarrow> bs | None \<Rightarrow> [])"

lemma transfer_shape:
  assumes "create_transfer_transaction ed sc mc kp to n h = Ok tx"
  shows "keys_of tx = [keypair_pubkey ed kp, to, SYSTEM_PROGRAM_ID]"
    and "msg_recent_blockhash (tx_message tx) = h"
    and "execute_instructions env tx = execute_instructions env
      (pay_tx [keypair_pubkey ed kp, to, SYSTEM_PROGRAM_ID] (keypair_pubkey ed kp) to (transfer_data sc n))"
    and "ser sc (SystemTransfer n) = Some (transfer_data sc n)"
    and "\<exists>sig. tx_signatures tx = [sig]"
  using assms
  by (auto simp: create_transfer_transaction_def Let_def transfer_data_def pay_tx_def
      execute_instructions_def fun_eq_iff)

definition transferred :: "account list \<Rightarrow> u64 \<Rightarrow> account list" where
  "transferred h n =
     h[0 := (h ! 0)\<lparr>acc_lamports := acc_lamports (h ! 0) - n\<rparr>,
       1 := (h ! 1)\<lparr>acc_lamports := saturating_add (acc_lamports (h ! 1)) n\<rparr>]"

lemma client_transfer_executes:
  assumes tx: "create_transfer_transaction ed (env_system env) mc kp to n h = Ok tx"
    and codec: "\<And>x bs. ser (env_system env) x = Some bs \<Longrightarrow> de (env_system env) bs = Some x"
    and ab: "keypair_pubkey ed kp \<noteq> to" and "length cells = 3" and "n \<le> acc_lamports (cells ! 0)"
  shows "fst (execute_instructions env tx budget cells cache) = Ok (transferred cells n)"
  unfolding transfer_shape(3) [OF tx] transferred_def
  by (rule pay_executes)
    (use codec [OF transfer_shape(4) [OF tx]] ab assms(4,5) in simp_all)

lemma preflight_found:
  assumes "queue_inv b" and "\<not> bk_is_frozen b"
    and "msg_recent_blockhash (tx_message tx) \<in> bi_hash ` set (bk_blockhash_queue b)"
  shows "check_preflight_rules b tx = Ok ()"
proof (cases "List.find (\<lambda>info. bi_hash info = msg_recent_blockhash (tx_message tx)) (bk_blockhash_queue b)")
  case None
  then show ?thesis using assms(3) by (auto simp: find_None_iff)
next
  case (Some info)
  then have "info \<in> set (bk_blockhash_queue b)" by (auto simp: find_Some_iff)
  from queue_inv_fresh [OF assms(1) this] show ?thesis
    using assms(2) by (simp add: check_preflight_rules_def Some Let_def not_less)
qed

lemma transfer_processed:
  assumes tx: "create_transfer_transaction ed (env_system env) mc kp to n h = Ok tx"
    and codec: "\<And>x bs. ser (env_system env) x = Some bs \<Longrightarrow> de (env_system env) bs = Some x"
    and dist: "distinct [keypair_pubkey ed kp, to, SYSTEM_PROGRAM_ID]"
    and keyed: "well_keyed so s" and funds: "n \<le> acc_lamports (seen so s (keypair_pubkey ed kp))"
    and pre: "check_preflight_rules b tx = Ok ()"
  shows "fst (process_single_transaction env so s b tx budget cache) =
    Ok [(keypair_pubkey ed kp, (seen so s (keypair_pubkey ed kp))\<lparr>acc_lamports :=
          acc_lamports (seen so s (keypair_pubkey ed kp)) - n\<rparr>),
        (to, (seen so s to)\<lparr>acc_lamports := saturating_add (acc_lamports (seen so s to)) n\<rparr>),
        (SYSTEM_PROGRAM_ID, seen so s SYSTEM_PROGRAM_ID)]"
proof -
  have "keypair_pubkey ed kp \<noteq> to" using dist by simp
  from client_transfer_executes [OF tx codec this, of "map (seen so s) (keys_of tx)" budget cache]
  show ?thesis
    using dist funds by (simp add: process_Ok pre transfer_shape(1) [OF tx] transferred_def seen_key [OF keyed])
qed

section \<open>Requests\<close>

lemma simulate_value:
  "fst (simulate_transaction env so s tx cache) =
     (case fst (execute_instructions env tx 200000 (map (seen so s) (keys_of tx)) cache) of
        Ok _ \<Rightarrow> Ok () | Err e \<Rightarrow> Err e | Panic \<Rightarrow> Panic)"
  by (simp add: simulate_transaction_def lift_result_def loaded_seen run_then_def split: prod.split result.split)

text \<open>What a request for sending leaves, in the cases it can have.\<close>

lemma send_queue:
  "case handle_send_transaction lib env so params st of (r, st') \<Rightarrow>
     rp_store st' = rp_store st \<and> rp_bank st' = rp_bank st \<and>
     (case r of
        Ok v \<Rightarrow> \<exists>tx config. send_params lib params = Ok (tx, config) \<and>
          (skip_preflight config \<or> fst (simulate_transaction env so (rp_store st) tx (rp_cache st)) = Ok ()) \<and>
          rp_tx_sender st' = (rp_tx_sender st)\<lparr>ch_sent := ch_sent (rp_tx_sender st) @ [tx]\<rparr>
      | _ \<Rightarrow> rp_tx_sender st' = rp_tx_sender st)"
  by (auto simp: handle_send_transaction_def rpc_preflight_def run_then_def lift_result_def channel_send_def
      Let_def split: result.split prod.split option.split list.split)

lemma request_queue:
  "case handle_rpc_request lib env so rq st of (r, st') \<Rightarrow>
     rp_store st' = rp_store st \<and> rp_bank st' = rp_bank st \<and>
     (rp_tx_sender st' = rp_tx_sender st \<or>
      (\<exists>tx config. rq_method rq = ''sendTransaction'' \<and> send_params lib (rq_params rq) = Ok (tx, config) \<and>
         (skip_preflight config \<or> fst (simulate_transaction env so (rp_store st) tx (rp_cache st)) = Ok ()) \<and>
         rp_tx_sender st' = (rp_tx_sender st)\<lparr>ch_sent := ch_sent (rp_tx_sender st) @ [tx]\<rparr>))"
proof (cases "rq_method rq = ''sendTransaction''")
  case True
  obtain r st' where h: "handle_send_transaction lib env so (rq_params rq) st = (r, st')"
    by (cases "handle_send_transaction lib env so (rq_params rq) st")
  from True show ?thesis
    using send_queue [where lib = lib and env = env and so = so and params = "rq_params rq" and st = st]
    by (cases r) (auto simp: handle_rpc_request_def h)
next
  case False
  then show ?thesis by (simp add: handle_rpc_request_def)
qed

section \<open>The libraries of a node\<close>

text \<open>What the codecs promise: decoding gives back what was encoded.\<close>

definition lib_laws :: "rpc_lib \<Rightarrow> ('rent, 'exe) env \<Rightarrow> bool" where
  "lib_laws lib env \<longleftrightarrow>
     (\<forall>x bs. ser (env_system env) x = Some bs \<longrightarrow> de (env_system env) bs = Some x) \<and>
     (\<forall>x bs. ser (lib_tx_codec lib) x = Some bs \<longrightarrow> de (lib_tx_codec lib) bs = Some x) \<and>
     (\<forall>bs. lib_b64_decode lib (lib_b64_encode lib bs) = Some bs) \<and>
     (\<forall>bs. lib_b58_decode lib (lib_b58_encode lib bs) = Some bs)"

section \<open>What a client reads\<close>

lemma node_read:
  assumes "rq_method rq \<noteq> ''sendTransaction''"
  shows "node_post lib env so rq nd =
    (case read_method lib so rq (rpc_view nd) of
       Ok v \<Rightarrow> Some \<lparr>rs_jsonrpc = ''2.0'', rs_result = v, rs_id = rq_id rq\<rparr>
     | Err e \<Rightarrow> Some \<lparr>rs_jsonrpc = ''2.0'', rs_result = error_value e, rs_id = rq_id rq\<rparr>
     | Panic \<Rightarrow> None, nd)"
proof -
  have "nd\<lparr>nd_stage := (nd_stage nd)\<lparr>st_tx_sender := st_tx_sender (nd_stage nd), st_cache := st_cache (nd_stage nd)\<rparr>\<rparr> = nd"
    by (cases nd; cases "nd_stage nd") simp
  then show ?thesis
    using assms by (simp add: node_post_def node_request_def handle_rpc_request_def rpc_view_def
        split: result.split)
qed

lemma as_u64_uint [simp]: "as_u64 (JNumber (uint w)) = Some w"
  using uint_bounded [of w] by (simp add: as_u64_def)

lemma client_balance:
  assumes "lib_laws lib env"
  shows "get_balance lib (node_post lib env so) k nd = (Ok (acc_lamports (seen so (st_store (nd_stage nd)) k)), nd)"
proof -
  have "pubkey_from_str (lib_b58_decode lib) (pubkey_to_string (lib_b58_encode lib) k) = Ok k"
    using assms by (simp add: lib_laws_def pubkey_from_str_def pubkey_to_string_def)
  then show ?thesis
    by (simp add: get_balance_def post_request_def node_read client_request_def read_method_def
        handle_get_balance_def pubkey_param_def index0_def as_str_def rpc_view_def read_balance_def seen_def
        default_account_def account_default_def split: option.split)
qed

lemma client_blockhash:
  assumes "lib_laws lib env" and "bk_blockhash_queue (st_bank (nd_stage nd)) \<noteq> []"
    and "unat (bi_created_at_slot (last (bk_blockhash_queue (st_bank (nd_stage nd))))) + 150 < 2 ^ 64"
  shows "get_latest_blockhash lib (node_post lib env so) nd =
    (Ok (bi_hash (last (bk_blockhash_queue (st_bank (nd_stage nd))))), nd)"
proof -
  let ?info = "last (bk_blockhash_queue (st_bank (nd_stage nd)))"
  have "add_checked (bi_created_at_slot ?info) (of_nat MAX_BLOCKHASH_QUEUE_DEPTH) =
      (Ok :: u64 \<Rightarrow> (u64, rpc_error) result) (bi_created_at_slot ?info + of_nat MAX_BLOCKHASH_QUEUE_DEPTH)"
    using assms(3) by (simp add: add_checked_def MAX_BLOCKHASH_QUEUE_DEPTH_def)
  then have "read_method lib so (client_request ''getLatestBlockhash'' JNull) (rpc_view nd) =
      Ok (JObject [(''blockhash'', JString (hash_to_string (lib_b58_encode lib) (bi_hash ?info))),
        (''lastValidBlockHeight'', JNumber (uint (bi_created_at_slot ?info + of_nat MAX_BLOCKHASH_QUEUE_DEPTH)))])"
    using assms(2) by (simp add: read_method_def client_request_def handle_get_latest_blockhash_def rpc_view_def Let_def)
  then have "node_post lib env so (client_request ''getLatestBlockhash'' JNull) nd =
      (Some \<lparr>rs_jsonrpc = ''2.0'',
         rs_result = JObject [(''blockhash'', JString (hash_to_string (lib_b58_encode lib) (bi_hash ?info))),
           (''lastValidBlockHeight'', JNumber (uint (bi_created_at_slot ?info + of_nat MAX_BLOCKHASH_QUEUE_DEPTH)))],
         rs_id = JNumber 1\<rparr>, nd)"
    by (subst node_read) (simp_all add: client_request_def)
  moreover have "Hash (of_be_bytes (hash_bytes h)) = h" for h by (cases h) (simp add: of_be_bytes_be_bytes)
  ultimately show ?thesis
    using assms(1)
    by (simp add: get_latest_blockhash_def post_request_def read_blockhash_def member_def as_str_def
        hash_to_string_def lib_laws_def)
qed

section \<open>The cost of a transfer\<close>

lemma transfer_cost:
  assumes tx: "create_transfer_transaction ed sc mc kp to n h = Ok tx"
    and "keypair_pubkey ed kp \<noteq> to" and "data_len tx \<le> 1232"
  shows "\<exists>tc. calculate_cost cost_model_new tx = Ok tc \<and>
    would_fit (cost_tracker_new MAX_BLOCK_UNITS MAX_WRITABLE_ACCOUNT_UNITS) tc = Ok ()"
proof -
  let ?from = "keypair_pubkey ed kp"
  have "set (write_set tx) = {?from, to}"
    using tx by (auto simp: write_set_def declared_keys_def create_transfer_transaction_def Let_def)
  moreover have "distinct (write_set tx)" by (rule distinct_write_set)
  ultimately have writes: "length (write_set tx) = 2" using assms(2) by (auto simp flip: distinct_card)
  have sigs: "length (tx_signatures tx) = 1" using transfer_shape(5) [OF tx] by auto
  have units: "execution_units cost_model_new tx = 300"
    using tx by (auto simp: create_transfer_transaction_def Let_def execution_units_def program_units_def
        cost_model_new_def)
  have bounded: "cost_bounded cost_model_new tx" using assms(3) by (simp add: cost_bounded_def writes sigs units)
  obtain tc where tc: "calculate_cost cost_model_new tx = Ok tc"
    "unat (cost_sum tc) = 1620 + 4 * data_len tx"
    using calculate_cost_exact [OF bounded] unfolding writes sigs units by auto
  then have "would_fit (cost_tracker_new MAX_BLOCK_UNITS MAX_WRITABLE_ACCOUNT_UNITS) tc = Ok ()"
    using assms(3) by (simp add: would_fit_Ok_iff fits_account_def cost_tracker_new_def list_all_iff
        word_le_nat_alt saturating_add_exact cost_constants)
  with tc(1) show ?thesis by blast
qed

end
