(* ===== verification/Node_Invariant.thy ===== *)
theory Node_Invariant
  imports Node_Laws
begin

text \<open>
  A node over any number of requests and rounds of its banking task: what stays true of the
  store, the locks and the queue, whatever is sent to it.
\<close>

section \<open>The store of a batch\<close>

text \<open>Every overlay has its accounts under their own keys, even when a key is listed twice.\<close>

definition keyed_overlay :: "dirty_map \<Rightarrow> bool" where
  "keyed_overlay d \<longleftrightarrow> wf_map d \<and> list_all (\<lambda>(k, a). acc_pubkey a = k) d"

lemma list_all_AList_update: "P (k, v) \<Longrightarrow> list_all P m \<Longrightarrow> list_all P (AList.update k v m)"
  by (induction m) auto

lemma keyed_fold: "keyed_overlay d \<Longrightarrow> keyed_overlay (fold (\<lambda>a. AList.update (acc_pubkey a) a) h d)"
  by (induction h arbitrary: d) (simp_all add: keyed_overlay_def list_all_AList_update)

lemma process_keyed:
  "fst (process_single_transaction env so s b tx budget cache) = Ok d \<Longrightarrow> keyed_overlay d"
  unfolding process_Ok by (auto intro!: keyed_fold) (simp add: keyed_overlay_def)

text \<open>The steps before the commit leave the store alone.\<close>

definition same_store :: "'s stage \<Rightarrow> 's stage \<Rightarrow> bool" where
  "same_store st st' \<longleftrightarrow> st_store st' = st_store st"

interpretation same_store: requeue_steps same_store
  by unfold_locales
    (auto simp: same_store_def transp_def reflp_def set_result_def requeue_transaction_def split: option.splits)

lemma run_then_post:
  assumes "Q (snd m)" and "\<And>a. fst m = Ok a \<Longrightarrow> Q (snd (f a (snd m)))"
  shows "Q (snd (run_then m f))"
  using assms by (cases m; cases "fst m") auto

lemmas good_then = run_then_post [where Q = "\<lambda>st. good_store cr lc (st_store st)" for cr lc]

lemma commit_good:
  assumes "good_store cr lc (st_store st)" and "list_all keyed_overlay ds"
  shows "good_store cr lc (st_store (snd (commit_group (mem_ops cr lc) ds st)))"
proof -
  obtain s' where s': "commit_overlays mem_store ds (st_store st) = Ok s'" using mem.commit_total by blast
  have "wf_map (st_store st)" and keyed: "well_keyed (mem_ops cr lc) (st_store st)"
    using assms(1) by (simp_all add: good_store_def)
  then have load: "wf_map s' \<and> mem_load s' = foldl (++) (mem_load (st_store st)) (map map_of ds)"
    using mem.commit_load [OF s'] assms(2) by (simp add: list_all_iff keyed_overlay_def)
  have "acc_pubkey a = k" if "foldl (++) m (map map_of ds) k = Some a"
    and "\<And>k a. m k = Some a \<Longrightarrow> acc_pubkey a = k" for m k a
    using that assms(2)
  proof (induction ds arbitrary: m)
    case (Cons d ds)
    show ?case
    proof (rule Cons.IH)
      show "foldl (++) (m ++ map_of d) (map map_of ds) k = Some a" using Cons.prems(1) by simp
      show "acc_pubkey a = k" if "(m ++ map_of d) k = Some a" for k a
        using that Cons.prems(2,3) by (auto simp: keyed_overlay_def list_all_iff map_add_Some_iff dest!: map_of_SomeD)
      show "list_all keyed_overlay ds" using Cons.prems(3) by simp
    qed
  qed simp
  then have "good_store cr lc s'" using load keyed by (auto simp: good_store_def well_keyed_def)
  then show ?thesis by (simp add: commit_group_def s' lift_result_def)
qed

definition keyed_result :: "costed \<times> (dirty_map, transaction_error) result \<Rightarrow> bool" where
  "keyed_result r \<longleftrightarrow> (\<forall>d. snd r = Ok d \<longrightarrow> keyed_overlay d)"

lemma process_one_keyed: "fst (process_one env so c st) = Ok y \<Longrightarrow> keyed_result y"
  by (auto simp: process_one_def keyed_result_def case_prod_beta split: if_splits intro: process_keyed)

lemma settle_one_keyed:
  "keyed_result r \<Longrightarrow> fst (settle_one r st) = Ok y \<Longrightarrow> (case y of Some d \<Rightarrow> keyed_overlay d | None \<Rightarrow> True)"
  using settle_value [of r st y] by (auto simp: overlay_result_def keyed_result_def split: result.splits)

lemma keyed_map_filter:
  "list_all (\<lambda>y. case y of Some d \<Rightarrow> keyed_overlay d | None \<Rightarrow> True) ys \<Longrightarrow>
     list_all keyed_overlay (List.map_filter id ys)"
  by (induction ys) (auto simp: map_filter_id_Cons List.map_filter_def split: option.splits)

lemma locked_good:
  assumes good: "good_store cr lc (st_store st)"
  shows "good_store cr lc (st_store (snd (locked_group env (mem_ops cr lc) cr' chosen st)))"
  unfolding locked_group_def
proof (rule good_then)
  have kept: "same_store st (snd (loop (process_one env (mem_ops cr lc)) chosen st))"
    by (rule same_store.looping) (rule same_store.process_one)
  then show "good_store cr lc (st_store (snd (loop (process_one env (mem_ops cr lc)) chosen st)))"
    using good by (simp add: same_store_def)
  fix rs
  let ?st1 = "snd (loop (process_one env (mem_ops cr lc)) chosen st)"
  let ?rec = "record_group cr' (map (\<lambda>(i, tx, _). (i, tx)) chosen) ?st1"
  assume "fst (loop (process_one env (mem_ops cr lc)) chosen st) = Ok rs"
  then have rs: "list_all keyed_result rs" by (rule loop_all) (rule process_one_keyed)
  have good2: "good_store cr lc (st_store (snd ?rec))"
    using kept same_store.record_group [of ?st1 cr'] good by (simp add: same_store_def)
  show "good_store cr lc (st_store (snd (run_then ?rec (\<lambda>_ st. run_then (loop settle_one rs st) (\<lambda>overlays st.
      commit_group (mem_ops cr lc) (List.map_filter id overlays) st)))))"
  proof (rule good_then, rule good2, rule good_then)
    have "same_store (snd ?rec) (snd (loop settle_one rs (snd ?rec)))"
      by (rule same_store.looping, rule same_store.settle_one, rule same_store.requeue)
    then show good3: "good_store cr lc (st_store (snd (loop settle_one rs (snd ?rec))))"
      using good2 by (simp add: same_store_def)
    fix ys
    assume ys: "fst (loop settle_one rs (snd ?rec)) = Ok ys"
    then have "list_all (\<lambda>y. case y of Some d \<Rightarrow> keyed_overlay d | None \<Rightarrow> True) ys"
      by (rule loop_all) (rule settle_one_keyed, use rs in \<open>auto simp: list_all_iff\<close>)
    then show "good_store cr lc (st_store (snd (commit_group (mem_ops cr lc) (List.map_filter id ys)
        (snd (loop settle_one rs (snd ?rec))))))"
      by (intro commit_good good3 keyed_map_filter)
  qed
qed

lemma chosen_good:
  assumes good: "good_store cr lc (st_store st)"
  shows "good_store cr lc (st_store (snd (run_chosen env (mem_ops cr lc) cr' scheduled chosen st)))"
proof (cases "try_lock_accounts_for_group (map (\<lambda>(i, tx, _). (i, tx)) chosen) (st_locks st)")
  case (Ok lg)
  obtain locks guard where lg: "lg = (locks, guard)" by (cases lg) auto
  have "good_store cr lc (st_store (snd (locked_group env (mem_ops cr lc) cr' chosen
      (st\<lparr>st_locks := locks, st_bank := acquire_freeze_lock (st_bank st)\<rparr>))))"
    by (rule locked_good) (simp add: good)
  then show ?thesis using good by (simp add: run_chosen_def Ok lg drop_guards_fields)
next
  case (Err e)
  have "same_store st (snd (run_then (loop (roll_back_one scheduled) chosen st) (\<lambda>_ st. (Ok (), st))))"
    by (rule same_store.run_then) (simp_all add: same_store.looping same_store.roll_back)
  then show ?thesis using Err good by (cases e) (simp add: run_chosen_def same_store_def)
qed (simp add: run_chosen_def good)

lemma group_good:
  assumes good: "good_store cr lc (st_store st)"
  shows "good_store cr lc (st_store (snd (process_group env (mem_ops cr lc) cr' b scheduled grp st)))"
proof -
  have "same_store st (snd (loop (select_one b) grp st))" by (rule same_store.looping) (rule same_store.select)
  then have sel: "good_store cr lc (st_store (snd (loop (select_one b) grp st)))" using good by (simp add: same_store_def)
  show ?thesis unfolding process_group_def by (rule good_then, rule sel, rule chosen_good, rule sel)
qed

definition good_kept :: "crypto \<Rightarrow> (pubkey \<times> account) codec \<Rightarrow> mem_store stage \<Rightarrow> mem_store stage \<Rightarrow> bool" where
  "good_kept cr lc st st' \<longleftrightarrow> (good_store cr lc (st_store st) \<longrightarrow> good_store cr lc (st_store st'))"

lemma good_kept_rel: "transp (good_kept cr lc)" "reflp (good_kept cr lc)"
  by (auto simp: good_kept_def transp_def reflp_def)

lemma batch_good:
  assumes good: "good_store cr lc (st_store st)"
  shows "good_store cr lc (st_store (snd (process_batch env (mem_ops cr lc) cr' mc b txs st)))"
  unfolding process_batch_def Let_def
proof (rule good_then)
  fix vs
  let ?st = "(snd (lift_result (verify_batch cr' mc txs) st))\<lparr>st_final_results := map verdict vs\<rparr>"
  have "good_kept cr lc ?st (snd (loop (process_group env (mem_ops cr lc) cr' b (txs_to_schedule vs txs))
      (schedule (txs_to_schedule vs txs)) ?st))"
    by (rule loop_rel [OF good_kept_rel]) (simp add: good_kept_def group_good)
  then have groups: "good_store cr lc (st_store (snd (loop (process_group env (mem_ops cr lc) cr' b (txs_to_schedule vs txs))
      (schedule (txs_to_schedule vs txs)) ?st)))"
    using good by (simp add: good_kept_def)
  show "good_store cr lc (st_store (snd (run_then (loop (process_group env (mem_ops cr lc) cr' b
      (txs_to_schedule vs txs)) (schedule (txs_to_schedule vs txs)) ?st)
      (\<lambda>_ st. (Ok (st_final_results st), st\<lparr>st_tracker := cost_reset (st_tracker st)\<rparr>)))))"
    by (rule good_then, rule groups) (use groups in simp)
qed (simp add: good)

section \<open>The bank of a batch\<close>

text \<open>
  A relation that guards and the reset of the results do not break either is kept by whole
  batches: so are the slot, the blockhash queue and the frozen flag of the bank.
\<close>

locale batch_relation = requeue_relation R
  for R :: "'s stage \<Rightarrow> 's stage \<Rightarrow> bool" +
  assumes take_guards: "R st (st\<lparr>st_locks := locks, st_bank := acquire_freeze_lock (st_bank st)\<rparr>)"
    and give_back: "R st (snd (drop_guards guard (r, st)))"
    and results: "R st (st\<lparr>st_final_results := rs\<rparr>)"
begin

lemma chosen: "R st (snd (run_chosen env so cr scheduled chosen st))"
proof (cases "try_lock_accounts_for_group (map (\<lambda>(i, tx, _). (i, tx)) chosen) (st_locks st)")
  case (Ok lg)
  obtain locks guard where lg: "lg = (locks, guard)" by (cases lg) auto
  let ?st = "st\<lparr>st_locks := locks, st_bank := acquire_freeze_lock (st_bank st)\<rparr>"
  have "R st (snd (locked_group env so cr chosen ?st))" by (rule R_trans [OF take_guards locked_group])
  moreover have "R (snd rst) (snd (drop_guards guard rst))" for rst
    using give_back [of "snd rst" guard "fst rst"] by simp
  ultimately have "R st (snd (drop_guards guard (locked_group env so cr chosen ?st)))" by (rule R_trans)
  then show ?thesis by (simp add: run_chosen_def Ok lg)
next
  case (Err e)
  have "R st (snd (run_then (loop (roll_back_one scheduled) chosen st) (\<lambda>_ st. (Ok (), st))))"
    by (rule run_then) (simp_all add: looping roll_back)
  then show ?thesis using Err by (cases e) (simp add: run_chosen_def)
qed (simp add: run_chosen_def)

lemma batch: "R st (snd (process_batch env so cr mc b txs st))"
  unfolding process_batch_def Let_def
proof (rule run_then)
  fix vs
  let ?st = "(snd (lift_result (verify_batch cr mc txs) st))\<lparr>st_final_results := map verdict vs\<rparr>"
  have "R st1 (snd (process_group env so cr b (txs_to_schedule vs txs) grp st1))" for grp st1
    unfolding process_group_def by (rule run_then, rule looping, rule select, rule chosen)
  then have "R ?st (snd (run_then (loop (process_group env so cr b (txs_to_schedule vs txs))
      (schedule (txs_to_schedule vs txs)) ?st)
      (\<lambda>_ st. (Ok (st_final_results st), st\<lparr>st_tracker := cost_reset (st_tracker st)\<rparr>))))"
    by (intro run_then looping) (simp_all add: tracker)
  then show "R (snd (lift_result (verify_batch cr mc txs) st)) (snd (run_then
      (loop (process_group env so cr b (txs_to_schedule vs txs)) (schedule (txs_to_schedule vs txs)) ?st)
      (\<lambda>_ st. (Ok (st_final_results st), st\<lparr>st_tracker := cost_reset (st_tracker st)\<rparr>))))"
    by (rule R_trans [OF results])
qed simp

end

interpretation keeps: batch_relation bank_kept
  by unfold_locales
    (auto simp: bank_kept_def same_rules_def acquire_freeze_lock_def release_freeze_lock_def drop_guards_def
      split: result.splits)

text \<open>The hashes of the groups are sent one after another, and none is taken back.\<close>

definition poh_sent :: "'s stage \<Rightarrow> 's stage \<Rightarrow> bool" where
  "poh_sent st st' \<longleftrightarrow> sent_more (st_poh_sender st) (st_poh_sender st')"

interpretation hashes: batch_relation poh_sent
  by unfold_locales
    (auto simp: poh_sent_def transp_def reflp_def set_result_def requeue_transaction_def drop_guards_def
      intro: sent_more_trans split: option.splits result.splits)

section \<open>Reachable nodes\<close>

text \<open>
  Requests, rounds of the banking task and of the proof-of-history service, and the events
  that end the node, in any order, from the node \<^verbatim>\<open>main\<close> starts.
\<close>

inductive node_step ::
    "rpc_lib \<Rightarrow> ('rent, 'exe) env \<Rightarrow> 's store_ops \<Rightarrow> crypto \<Rightarrow> message codec \<Rightarrow> 's node \<Rightarrow> 's node \<Rightarrow> bool"
  for lib env so cr mc where
  request: "node_request lib env so rq nd = (r, nd') \<Longrightarrow> node_step lib env so cr mc nd nd'"
| round: "node_step lib env so cr mc nd (banking_round env so cr mc nd)"
| poh: "node_step lib env so cr mc nd (poh_round cr nd)"
| exit: "node_exit event nd = Some nd' \<Longrightarrow> node_step lib env so cr mc nd nd'"

inductive node_reachable ::
    "rpc_lib \<Rightarrow> ('rent, 'exe) env \<Rightarrow> 's store_ops \<Rightarrow> crypto \<Rightarrow> message codec \<Rightarrow> 's \<Rightarrow> 's node \<Rightarrow> bool"
  for lib env so cr mc s0 where
  start: "node_start so faucet_pubkey s0 = (Ok nd :: ('s node, load_error) result) \<Longrightarrow> node_reachable lib env so cr mc s0 nd"
| step: "node_reachable lib env so cr mc s0 nd \<Longrightarrow> node_step lib env so cr mc nd nd' \<Longrightarrow>
     node_reachable lib env so cr mc s0 nd'"

definition node_inv :: "crypto \<Rightarrow> (pubkey \<times> account) codec \<Rightarrow> mem_store node \<Rightarrow> bool" where
  "node_inv cr lc nd \<longleftrightarrow>
     good_store cr lc (st_store (nd_stage nd)) \<and> st_locks (nd_stage nd) = locks_new \<and>
     bk_freeze_lock_count (st_bank (nd_stage nd)) = 0 \<and> same_rules bank_new (st_bank (nd_stage nd)) \<and>
     nd_received nd \<le> length (ch_sent (st_tx_sender (nd_stage nd))) \<and>
     ch_open (st_tx_sender (nd_stage nd)) = nd_running nd"

text \<open>The service has received the first hashes that were sent, in their order, and chained them.\<close>

definition service_inv :: "crypto \<Rightarrow> 's node \<Rightarrow> bool" where
  "service_inv cr nd \<longleftrightarrow>
     nd_recorded nd \<le> length (ch_sent (st_poh_sender (nd_stage nd))) \<and>
     (\<forall>r. nd_service nd = Ok (Running r) \<longrightarrow> ch_open (st_poh_sender (nd_stage nd)) \<and>
        service_reachable cr hash_default (take (nd_recorded nd) (ch_sent (st_poh_sender (nd_stage nd)))) r)"

lemma node_inv_start:
  assumes "node_start (mem_ops cr lc) k [] = (Ok nd :: (mem_store node, load_error) result)"
  shows "node_inv cr lc nd"
proof -
  obtain s where s: "init_faucet (mem_ops cr lc) k [] = (Ok s :: (mem_store, load_error) result)"
    and nd: "nd_stage nd = banking_stage_new \<lparr>ch_sent = [], ch_open = True\<rparr> \<lparr>ch_sent = [], ch_open = True\<rparr> s bank_new"
      "nd_received nd = 0" "nd_running nd"
    using assms by (auto simp: node_start_def)
  obtain a where "s = [(k, a)]" "acc_pubkey a = k"
    using s by (auto simp: init_faucet_def Let_def mem_store_def)
  then have "good_store cr lc s" by (auto simp: good_store_def wf_map_def well_keyed_def mem_load_def split: if_splits)
  then show ?thesis by (simp add: node_inv_def nd banking_stage_new_def same_rules_def) (simp add: bank_new_def)
qed

lemma node_inv_request:
  assumes inv: "node_inv cr lc nd" and rq: "node_request lib env so rq nd = (r, nd')"
  shows "node_inv cr lc nd'"
proof -
  obtain rst where h: "handle_rpc_request lib env so rq (rpc_view nd) = (r, rst)"
    and nd': "nd' = nd\<lparr>nd_stage := (nd_stage nd)\<lparr>st_tx_sender := rp_tx_sender rst, st_cache := rp_cache rst\<rparr>\<rparr>"
    using rq by (auto simp: node_request_def split: prod.splits)
  have "rp_tx_sender rst = st_tx_sender (nd_stage nd) \<or>
      (\<exists>tx. rp_tx_sender rst = (st_tx_sender (nd_stage nd))\<lparr>ch_sent := ch_sent (st_tx_sender (nd_stage nd)) @ [tx]\<rparr>)"
    using request_queue [where lib = lib and env = env and so = so and rq = rq and st = "rpc_view nd"]
    unfolding h prod.case by (auto simp: rpc_view_def)
  then show ?thesis using inv by (auto simp: node_inv_def nd')
qed

lemma node_inv_batch:
  assumes inv: "node_inv cr lc nd"
    and b: "process_batch env (mem_ops cr lc) cr' mc cost_model_new (drain [] (pending nd)) (nd_stage nd) = (r, st)"
  shows "node_inv cr lc (nd\<lparr>nd_stage := st, nd_received := nd_received nd + length (drain [] (pending nd))\<rparr>)"
proof -
  have locks: "lock_inv (st_locks (nd_stage nd)) []" using inv lock_inv_new by (simp add: node_inv_def)
  have "good_store cr lc (st_store st)"
    using batch_good [of cr lc "nd_stage nd" env cr' mc cost_model_new "drain [] (pending nd)"] inv
    by (simp add: b node_inv_def)
  moreover have "st_locks st = locks_new" "bk_freeze_lock_count (st_bank st) = 0"
    using batch_guards [OF locks, of env "mem_ops cr lc" cr' mc cost_model_new "drain [] (pending nd)"] inv
    by (simp_all add: b node_inv_def same_guards_def)
  moreover have "same_rules bank_new (st_bank st)"
    using keeps.batch [of "nd_stage nd" env "mem_ops cr lc" cr' mc cost_model_new "drain [] (pending nd)"] inv
    by (auto simp: b node_inv_def bank_kept_def intro: same_rules_trans)
  moreover have "st_tx_sender st = st_tx_sender (nd_stage nd)"
    using batch_queue [OF locks, of env "mem_ops cr lc" cr' mc cost_model_new "drain [] (pending nd)"]
    by (simp add: b same_queue_def)
  moreover have "nd_received nd + length (drain [] (pending nd)) \<le> length (ch_sent (st_tx_sender (nd_stage nd)))"
    using inv by (auto simp: node_inv_def drain_batch pending_def)
  ultimately show ?thesis using inv by (simp add: node_inv_def)
qed

lemma node_inv_end: "node_inv cr lc nd \<Longrightarrow> node_inv cr lc (end_banking nd)"
  by (simp add: node_inv_def end_banking_def)

lemma node_inv_round: "node_inv cr lc nd \<Longrightarrow> node_inv cr lc (banking_round env (mem_ops cr lc) cr' mc nd)"
  using node_inv_batch [of cr lc nd env cr' mc]
  by (auto simp: banking_round_def Let_def intro: node_inv_end split: prod.split)

lemma poh_round_frame:
  "st_store (nd_stage (poh_round cr nd)) = st_store (nd_stage nd)"
  "st_locks (nd_stage (poh_round cr nd)) = st_locks (nd_stage nd)"
  "st_bank (nd_stage (poh_round cr nd)) = st_bank (nd_stage nd)"
  "st_tx_sender (nd_stage (poh_round cr nd)) = st_tx_sender (nd_stage nd)"
  "ch_sent (st_poh_sender (nd_stage (poh_round cr nd))) = ch_sent (st_poh_sender (nd_stage nd))"
  "nd_received (poh_round cr nd) = nd_received nd" "nd_running (poh_round cr nd) = nd_running nd"
  by (simp_all add: poh_round_def Let_def split: result.split service.split)

lemma node_inv_poh: "node_inv cr lc nd \<Longrightarrow> node_inv cr lc (poh_round cr' nd)"
  by (simp add: node_inv_def poh_round_frame)

lemma node_inv_exit: "node_inv cr lc nd \<Longrightarrow> node_exit event nd = Some nd' \<Longrightarrow> node_inv cr lc nd'"
  by (auto simp: node_exit_def node_inv_def split: if_splits)

lemma node_reachable_inv: "node_reachable lib env (mem_ops cr lc) cr' mc [] nd \<Longrightarrow> node_inv cr lc nd"
proof (induction rule: node_reachable.induct)
  case (start k nd)
  then show ?case by (rule node_inv_start)
next
  case (step nd nd')
  from step.hyps(2) step.IH show ?case
    by cases (auto intro: node_inv_request node_inv_round node_inv_poh node_inv_exit)
qed

section \<open>The history of a node\<close>

lemma node_poh_running: "poh_service_new node_poh node_poh_config = Ok (800000000, Running node_poh)"
  by (simp add: poh_service_new_def ideal_ns_per_batch_def node_poh_config_def hashes_per_batch_def mul_checked_def)

lemma service_inv_start:
  assumes "node_start so k s0 = (Ok nd :: ('s node, load_error) result)"
  shows "service_inv cr nd"
proof -
  have "service_reachable cr hash_default [] node_poh"
    unfolding node_poh_def by (rule service_reachable.start) (simp add: node_poh_config_def)
  then show ?thesis
    using assms by (auto simp: node_start_def node_poh_running service_inv_def banking_stage_new_def)
qed

lemma service_inv_sent:
  assumes inv: "service_inv cr nd" and sent: "sent_more (st_poh_sender (nd_stage nd)) (st_poh_sender (nd_stage nd'))"
    and "nd_service nd' = nd_service nd" and "nd_recorded nd' = nd_recorded nd"
  shows "service_inv cr nd'"
  using inv sent_more_length [OF sent] sent_more_nth [OF sent, of "nd_recorded nd"] sent assms(3,4)
  by (auto simp: service_inv_def sent_more_def)

lemma service_inv_round: "service_inv cr nd \<Longrightarrow> service_inv cr (banking_round env so cr' mc nd)"
  using hashes.batch [of "nd_stage nd" env so cr' mc cost_model_new "drain [] (pending nd)"]
  by (auto simp: banking_round_def Let_def end_banking_def poh_sent_def split: prod.split
      intro: service_inv_sent)

lemma service_inv_request:
  "service_inv cr nd \<Longrightarrow> node_request lib env so rq nd = (r, nd') \<Longrightarrow> service_inv cr nd'"
  by (erule service_inv_sent) (auto simp: node_request_def split: prod.splits)

lemma service_inv_exit: "service_inv cr nd \<Longrightarrow> node_exit event nd = Some nd' \<Longrightarrow> service_inv cr nd'"
  by (erule service_inv_sent) (auto simp: node_exit_def split: if_splits)

lemma service_inv_poh:
  assumes inv: "service_inv cr nd"
  shows "service_inv cr (poh_round cr nd)"
proof (cases "\<exists>r. nd_service nd = Ok (Running r) \<and> \<not> nd_exit nd")
  case True
  then obtain r where r: "nd_service nd = Ok (Running r)" "\<not> nd_exit nd" by blast
  let ?sent = "ch_sent (st_poh_sender (nd_stage nd))" and ?got = "received_hashes (service_receives nd)"
  have got: "take (nd_recorded nd + length ?got) ?sent = take (nd_recorded nd) ?sent @ ?got"
    "nd_recorded nd + length ?got \<le> length ?sent"
    using inv by (auto simp: service_receives_def service_inv_def Let_def take_Suc_conv_app_nth)
  have "service_reachable cr hash_default (take (nd_recorded nd) ?sent) r" "ch_open (st_poh_sender (nd_stage nd))"
    using inv r(1) by (simp_all add: service_inv_def)
  from service_reachable.round [OF this(1), of "service_receives nd"] this(2) got show ?thesis
    by (auto simp: poh_round_def r service_step_def service_inv_def Let_def split: result.split service.split)
next
  case False
  then show ?thesis using inv
    by (auto simp: poh_round_def service_step_def service_inv_def Let_def split: result.split service.split)
qed

lemma service_inv_reachable: "node_reachable lib env so cr mc s0 nd \<Longrightarrow> service_inv cr nd"
proof (induction rule: node_reachable.induct)
  case (start k nd)
  then show ?case by (rule service_inv_start)
next
  case (step nd nd')
  from step.hyps(2) step.IH show ?case
    by cases (auto intro: service_inv_request service_inv_round service_inv_poh service_inv_exit)
qed

end
