(* ===== verification/Node_Wire.thy ===== *)
theory Node_Wire
  imports Wire Client
begin

text \<open>
  The wire format of a transaction, with the \<^verbatim>\<open>Serialize\<close> and \<^verbatim>\<open>Deserialize\<close> of
  \<^verbatim>\<open>Signature\<close> (\<^verbatim>\<open>src/types.rs\<close>), which writes the bytes of the array behind their length
  and refuses any other length; and the libraries of a node to run the model with.
\<close>

section \<open>Signatures and transactions\<close>

definition put_signature :: "signature \<Rightarrow> bytes" where
  "put_signature s = put_vec (\<lambda>b. [b]) (signature_bytes s)"

definition read_signature_bytes :: "bytes \<Rightarrow> (signature \<times> bytes) option" where
  "read_signature_bytes bs = get_then (get_vec get_u8 bs) (\<lambda>x bs.
     if length x = 64 then Some (signature_of_bytes x, bs) else None)"

interpretation signature_serde: wire_format put_signature read_signature_bytes "\<lambda>_. True"
proof
  fix bs t and s :: signature
  have "read_signature_bytes bs = Some (s, t) \<longleftrightarrow>
      (\<exists>x. bs = put_vec (\<lambda>b. [b]) x @ t \<and> length x = 64 \<and> s = signature_of_bytes x)"
  proof
    assume "read_signature_bytes bs = Some (s, t)"
    then show "\<exists>x. bs = put_vec (\<lambda>b. [b]) x @ t \<and> length x = 64 \<and> s = signature_of_bytes x"
      by (auto simp: read_signature_bytes_def bytes_wire.get_iff split: if_splits)
  next
    assume "\<exists>x. bs = put_vec (\<lambda>b. [b]) x @ t \<and> length x = 64 \<and> s = signature_of_bytes x"
    then obtain x where x: "bs = put_vec (\<lambda>b. [b]) x @ t" "length x = 64" "s = signature_of_bytes x" by blast
    then have "get_vec get_u8 bs = Some (x, t)" by (simp add: bytes_wire.get_iff)
    then show "read_signature_bytes bs = Some (s, t)" by (simp add: read_signature_bytes_def x(2,3))
  qed
  also have "\<dots> \<longleftrightarrow> bs = put_signature s @ t"
    by (auto simp: put_signature_def hash_bytes_of_bytes intro: exI [of _ "signature_bytes s"])
  finally show "read_signature_bytes bs = Some (s, t) \<longleftrightarrow> True \<and> bs = put_signature s @ t" by simp
qed

interpretation signatures_serde: wire_format "put_vec put_signature" "get_vec read_signature_bytes"
  "vec_valid (\<lambda>_. True)"
  by (rule signature_serde.vec)

definition put_transaction :: "transaction \<Rightarrow> bytes" where
  "put_transaction tx = put_vec put_signature (tx_signatures tx) @ put_message (tx_message tx)"

definition get_transaction :: "bytes \<Rightarrow> (transaction \<times> bytes) option" where
  "get_transaction bs = get_then (get_vec read_signature_bytes bs) (\<lambda>ss bs.
     get_then (get_message bs) (\<lambda>m. got \<lparr>tx_signatures = ss, tx_message = m\<rparr>))"

definition transaction_valid :: "transaction \<Rightarrow> bool" where
  "transaction_valid tx \<longleftrightarrow> length (tx_signatures tx) < 2 ^ 64 \<and> message_valid (tx_message tx)"

interpretation transaction_wire: wire_format put_transaction get_transaction transaction_valid
proof
  fix bs t and x :: transaction
  show "get_transaction bs = Some (x, t) \<longleftrightarrow> transaction_valid x \<and> bs = put_transaction x @ t"
    by (cases x) (auto simp: get_transaction_def put_transaction_def transaction_valid_def
        signatures_serde.get_iff message_wire.get_iff)
qed

text \<open>\<^verbatim>\<open>serialize\<close> of a value no machine could hold does not return.\<close>

definition transaction_codec :: "transaction codec" where
  "transaction_codec =
     \<lparr>ser = (\<lambda>tx. if transaction_valid tx then Some (put_transaction tx) else None),
      de = de (strict_of put_transaction get_transaction)\<rparr>"

lemma transaction_codec_law:
  "ser transaction_codec tx = Some bs \<Longrightarrow> de transaction_codec bs = Some tx"
  by (auto simp: transaction_codec_def transaction_wire.get_iff [where t = "[]"] split: if_splits)

section \<open>The libraries\<close>

definition char_text :: "bytes \<Rightarrow> string" where
  "char_text bs = map (\<lambda>b. char_of (unat b)) bs"

definition text_bytes :: "string \<Rightarrow> bytes" where
  "text_bytes s = map (\<lambda>c. of_nat (of_char c)) s"

lemma text_bytes_char_text: "text_bytes (char_text bs) = bs"
proof -
  have "of_nat (of_char (char_of (unat b) :: char)) = b" for b :: u8
    using unsigned_less [of b, where 'a = nat] by simp
  then show ?thesis by (simp add: text_bytes_def char_text_def comp_def)
qed

definition wire_lib :: rpc_lib where
  "wire_lib =
     \<lparr>lib_b58_encode = bs58_encode, lib_b58_decode = bs58_decode,
      lib_b64_encode = char_text, lib_b64_decode = (\<lambda>s. Some (text_bytes s)),
      lib_tx_codec = transaction_codec,
      lib_config = (\<lambda>v. case v of JObject [(''skipPreflight'', JBool b)] \<Rightarrow> Some \<lparr>skip_preflight = b\<rparr>
        | JObject [] \<Rightarrow> Some send_config_default | _ \<Rightarrow> None),
      lib_value_error = (\<lambda>_. ''invalid type''), lib_b64_error = (\<lambda>_. ''invalid byte''),
      lib_codec_error = (\<lambda>_. ''unexpected end''), lib_send_error = (\<lambda>_. ''sending on a disconnected channel''),
      lib_debug_account_error = (\<lambda>_. ''account error''),
      lib_debug_program_error = (\<lambda>_. ''program error'')\<rparr>"

definition wire_ed :: "arr32 ed25519" where
  "wire_ed = \<lparr>ed_from_bytes = id, ed_to_bytes = id, ed_verifying_key = id, ed_sign = (\<lambda>sk m. ucast sk)\<rparr>"

lemma wire_signs: "signs_for wire_ed wire_crypto"
  by (simp add: signs_for_def wire_ed_def wire_crypto_def)

end
