(* ===== verification/Node_Properties.thy ===== *)
theory Node_Properties
  imports Node_Invariant Node_Wire
begin

text \<open>
  The properties of a node as its users see it: a client's payment from the request to the
  settled balances, what may enter the queue and in which order it leaves it, what a client
  reads back, and the request that stops the node.
\<close>

section \<open>Requests that are accepted\<close>

lemma sent_params:
  assumes "send_transaction_request lib tx = Ok rq" and "lib_laws lib env"
  shows "rq_method rq = ''sendTransaction''" and "send_params lib (rq_params rq) = Ok (tx, send_config_default)"
  using assms
  by (auto simp: send_transaction_request_def client_request_def send_params_def lib_laws_def as_vec_def as_str_def)

lemma send_accepted:
  assumes "rq_method rq = ''sendTransaction''" and "send_params lib (rq_params rq) = Ok (tx, config)"
    and "skip_preflight config \<or> fst (simulate_transaction env so (rp_store st) tx (rp_cache st)) = Ok ()"
    and "ch_open (rp_tx_sender st)"
  shows "\<exists>cache. handle_rpc_request lib env so rq st =
    (Ok \<lparr>rs_jsonrpc = ''2.0'',
         rs_result = JString (case tx_signatures tx of s # _ \<Rightarrow> signature_to_string (lib_b58_encode lib) s | [] \<Rightarrow> ''''),
         rs_id = rq_id rq\<rparr>,
     st\<lparr>rp_tx_sender := (rp_tx_sender st)\<lparr>ch_sent := ch_sent (rp_tx_sender st) @ [tx]\<rparr>, rp_cache := cache\<rparr>)"
proof -
  have same: "st = st\<lparr>rp_cache := rp_cache st\<rparr>" by (cases st) simp
  obtain cache where pre: "(if \<not> skip_preflight config then rpc_preflight lib env so tx st else (Ok (), st)) =
      (Ok (), st\<lparr>rp_cache := cache\<rparr>)"
  proof (cases "skip_preflight config")
    case True
    show ?thesis by (rule that [of "rp_cache st"]) (use True same in simp)
  next
    case False
    then obtain cache where "simulate_transaction env so (rp_store st) tx (rp_cache st) = (Ok (), cache)"
      using assms(3) by (cases "simulate_transaction env so (rp_store st) tx (rp_cache st)") simp
    then show ?thesis using False by (intro that [of cache]) (simp add: rpc_preflight_def)
  qed
  have "handle_send_transaction lib env so (rq_params rq) st =
      (Ok (JString (case tx_signatures tx of s # _ \<Rightarrow> signature_to_string (lib_b58_encode lib) s | [] \<Rightarrow> '''')),
       st\<lparr>rp_tx_sender := (rp_tx_sender st)\<lparr>ch_sent := ch_sent (rp_tx_sender st) @ [tx]\<rparr>, rp_cache := cache\<rparr>)"
    unfolding handle_send_transaction_def assms(2) lift_result_def run_then_def prod.case result.case pre
    using assms(4) by (simp add: channel_send_def Let_def)
  then show ?thesis using assms(1) by (simp add: handle_rpc_request_def) blast
qed

lemma request_accepted:
  assumes "rq_method rq = ''sendTransaction''" and "send_params lib (rq_params rq) = Ok (tx, config)"
    and "skip_preflight config \<or> fst (simulate_transaction env so (st_store (nd_stage nd)) tx
      (st_cache (nd_stage nd))) = Ok ()"
    and "ch_open (st_tx_sender (nd_stage nd))" and "nd_received nd = length (ch_sent (st_tx_sender (nd_stage nd)))"
  shows "\<exists>nd1 resp cache. node_request lib env so rq nd = (Ok resp, nd1) \<and>
    rs_result resp = JString (case tx_signatures tx of s # _ \<Rightarrow> signature_to_string (lib_b58_encode lib) s | [] \<Rightarrow> '''') \<and>
    nd_stage nd1 = (nd_stage nd)\<lparr>st_tx_sender := (st_tx_sender (nd_stage nd))\<lparr>ch_sent :=
      ch_sent (st_tx_sender (nd_stage nd)) @ [tx]\<rparr>, st_cache := cache\<rparr> \<and>
    nd_running nd1 = nd_running nd \<and> nd_exit nd1 = nd_exit nd \<and> nd_service nd1 = nd_service nd \<and>
    nd_received nd1 = nd_received nd \<and> drain [] (pending nd1) = [tx]"
  using send_accepted [of rq lib tx config env so "rpc_view nd"] assms
  by (auto simp: node_request_def rpc_view_def pending_def drain_batch BATCH_SIZE_LIMIT_def)

section \<open>From the request to the balances\<close>

definition transfer_overlay :: "(pubkey \<Rightarrow> account) \<Rightarrow> pubkey \<Rightarrow> pubkey \<Rightarrow> u64 \<Rightarrow> dirty_map" where
  "transfer_overlay see from to n =
     [(from, (see from)\<lparr>acc_lamports := acc_lamports (see from) - n\<rparr>),
      (to, (see to)\<lparr>acc_lamports := saturating_add (acc_lamports (see to)) n\<rparr>),
      (SYSTEM_PROGRAM_ID, see SYSTEM_PROGRAM_ID)]"

lemma payment_batch:
  assumes tx: "create_transfer_transaction ed (env_system env) mc kp to n h = Ok tx"
    and "signs_for ed cr" and laws: "lib_laws lib env"
    and dist: "distinct [keypair_pubkey ed kp, to, SYSTEM_PROGRAM_ID]"
    and good: "good_store cr lc (st_store st)"
    and funds: "n \<le> acc_lamports (seen (mem_ops cr lc) (st_store st) (keypair_pubkey ed kp))"
    and "queue_inv (st_bank st)" and "\<not> bk_is_frozen (st_bank st)"
    and "h \<in> bi_hash ` set (bk_blockhash_queue (st_bank st))" and inv: "stage_inv L st"
    and cost: "calculate_cost cost_model_new tx = Ok cost" and fit: "would_fit (st_tracker st) cost = Ok ()"
  shows "\<exists>st'. process_batch env (mem_ops cr lc) cr mc cost_model_new [tx] st = (Ok [None], st') \<and>
    st_tx_sender st' = st_tx_sender st \<and>
    mem_load (st_store st') = mem_load (st_store st) ++
      map_of (transfer_overlay (seen (mem_ops cr lc) (st_store st)) (keypair_pubkey ed kp) to n)"
proof -
  let ?so = "mem_ops cr lc" and ?from = "keypair_pubkey ed kp"
  define d where "d = transfer_overlay (seen ?so (st_store st)) ?from to n"
  have sys: "ser (env_system env) x = Some bs \<Longrightarrow> de (env_system env) bs = Some x" for x bs
    using laws by (simp add: lib_laws_def)
  have keyed: "well_keyed ?so (st_store st)" and wf: "wf_map (st_store st)" using good by (simp_all add: good_store_def)
  obtain sig where sig: "tx_signatures tx = [sig]" using transfer_shape(5) [OF tx] by blast
  have pre: "check_preflight_rules (acquire_freeze_lock (st_bank st)) tx = Ok ()"
    using preflight_found [of "acquire_freeze_lock (st_bank st)" tx] assms(7-9)
    by (simp add: acquire_freeze_lock_def queue_inv_def transfer_shape(2) [OF tx])
  have processed: "fst (process_single_transaction env ?so (st_store st) (acquire_freeze_lock (st_bank st)) tx
      (cost_sum cost) (st_cache st)) = Ok d"
    unfolding d_def transfer_overlay_def by (rule transfer_processed [OF tx sys dist keyed funds pre])
  obtain s' where s': "commit_overlays mem_store [d] (st_store st) = Ok s'" using mem.commit_total by blast
  have "wf_map d" using dist by (simp add: d_def transfer_overlay_def wf_map_def)
  then have load: "mem_load s' = mem_load (st_store st) ++ map_of d"
    using mem.commit_load [OF s' wf] by (simp add: list_all_iff)
  have "verify_signatures_sync cr mc tx = Ok ()" using tx assms(2) by (rule transfer_verified)
  from batch_single [OF this cost, of st L env ?so d sig "[]" s']
  obtain st' where st': "process_batch env ?so cr mc cost_model_new [tx] st = (Ok [None], st')" "st_store st' = s'"
    using inv fit processed s' sig by (auto simp: stage_inv_def)
  have "lock_inv (st_locks st) []" using inv by (simp add: stage_inv_def)
  from batch_queue [OF this, of env ?so cr mc cost_model_new "[tx]"]
  have "st_tx_sender st' = st_tx_sender st" by (simp add: st'(1) same_queue_def)
  then show ?thesis using st' load by (simp add: d_def)
qed

lemma payment_through_node:
  assumes "create_transfer_transaction ed (env_system env) mc kp to n h = Ok tx"
    and "send_transaction_request lib tx = Ok rq"
    and "signs_for ed cr" and "lib_laws lib env"
    and "distinct [keypair_pubkey ed kp, to, SYSTEM_PROGRAM_ID]"
    and "good_store cr lc (st_store (nd_stage nd))"
    and "n \<le> acc_lamports (seen (mem_ops cr lc) (st_store (nd_stage nd)) (keypair_pubkey ed kp))"
    and "queue_inv (st_bank (nd_stage nd))" and "\<not> bk_is_frozen (st_bank (nd_stage nd))"
    and "h \<in> bi_hash ` set (bk_blockhash_queue (st_bank (nd_stage nd)))"
    and "nd_running nd \<and> \<not> nd_exit nd" and "stage_inv L (nd_stage nd)" and "ch_open (st_tx_sender (nd_stage nd))"
    and "nd_received nd = length (ch_sent (st_tx_sender (nd_stage nd)))"
    and "calculate_cost cost_model_new tx = Ok cost" and "would_fit (st_tracker (nd_stage nd)) cost = Ok ()"
  shows "\<exists>nd1 resp. node_request lib env (mem_ops cr lc) rq nd = (Ok resp, nd1) \<and>
    rs_result resp = JString (signature_to_string (lib_b58_encode lib) (hd (tx_signatures tx))) \<and>
    (let nd2 = banking_round env (mem_ops cr lc) cr mc nd1;
         before = \<lambda>k. unat (acc_lamports (seen (mem_ops cr lc) (st_store (nd_stage nd)) k));
         after = \<lambda>k. unat (acc_lamports (seen (mem_ops cr lc) (st_store (nd_stage nd2)) k)) in
     nd_running nd2 \<and> pending nd2 = [] \<and>
     after (keypair_pubkey ed kp) = before (keypair_pubkey ed kp) - unat n \<and>
     after to = min (before to + unat n) (2 ^ 64 - 1) \<and>
     (\<forall>k. k \<noteq> keypair_pubkey ed kp \<longrightarrow> k \<noteq> to \<longrightarrow> after k = before k))"
proof -
  let ?so = "mem_ops cr lc" and ?from = "keypair_pubkey ed kp" and ?st = "nd_stage nd"
  let ?see = "seen ?so (st_store ?st)"
  have sys: "ser (env_system env) x = Some bs \<Longrightarrow> de (env_system env) bs = Some x" for x bs
    using assms(4) by (simp add: lib_laws_def)
  obtain sig where sig: "tx_signatures tx = [sig]" using transfer_shape(5) [OF assms(1)] by blast
  have simulated: "fst (simulate_transaction env ?so (st_store ?st) tx (st_cache ?st)) = Ok ()"
    unfolding simulate_value
    using client_transfer_executes [OF assms(1) sys, of "map ?see (keys_of tx)" 200000 "st_cache ?st"] assms(5,7)
    by (simp add: transfer_shape(1) [OF assms(1)])
  obtain nd1 resp cache where nd1: "node_request lib env ?so rq nd = (Ok resp, nd1)"
    "rs_result resp = JString (signature_to_string (lib_b58_encode lib) sig)"
    "nd_stage nd1 = ?st\<lparr>st_tx_sender := (st_tx_sender ?st)\<lparr>ch_sent := ch_sent (st_tx_sender ?st) @ [tx]\<rparr>,
       st_cache := cache\<rparr>"
    "nd_running nd1 \<and> \<not> nd_exit nd1" "nd_received nd1 = nd_received nd" "drain [] (pending nd1) = [tx]"
    using request_accepted [OF sent_params [OF assms(2,4)], of env ?so nd] simulated assms(11,13,14) sig by auto
  obtain st' where st': "process_batch env ?so cr mc cost_model_new [tx] (nd_stage nd1) = (Ok [None], st')"
    "st_tx_sender st' = st_tx_sender (nd_stage nd1)"
    "mem_load (st_store st') = mem_load (st_store ?st) ++ map_of (transfer_overlay ?see ?from to n)"
    using payment_batch [OF assms(1,3,4,5), of lc "nd_stage nd1" L cost] assms(6-10,12,15,16)
    by (auto simp: nd1(3) stage_inv_def)
  define nd2 where "nd2 = banking_round env ?so cr mc nd1"
  have nd2: "nd2 = nd1\<lparr>nd_stage := st', nd_received := Suc (nd_received nd1)\<rparr>"
    by (simp add: nd2_def banking_round_def nd1(4,6) st'(1))
  have after: "seen ?so (st_store (nd_stage nd2)) k =
      (case map_of (transfer_overlay ?see ?from to n) k of Some a \<Rightarrow> a | None \<Rightarrow> ?see k)" for k
    by (simp add: seen_def nd2 st'(3) map_add_def split: option.split)
  have "pending nd2 = []" by (simp add: pending_def nd2 st'(2) nd1(3,5) assms(14))
  moreover have "nd_running nd2" by (simp add: nd2 nd1(4))
  moreover have "unat (acc_lamports (?see ?from) - n) = unat (acc_lamports (?see ?from)) - unat n"
    using assms(7) by (simp add: unat_sub)
  ultimately show ?thesis
    using nd1(1,2) assms(5) sig
    by (intro exI [of _ nd1] exI [of _ resp])
      (auto simp: nd2_def [symmetric] Let_def after transfer_overlay_def unat_saturating_add)
qed

section \<open>A node that has just started\<close>

definition faucet_account :: "pubkey \<Rightarrow> account" where
  "faucet_account k =
     \<lparr>acc_pubkey = k, acc_lamports = 1000000000000, acc_data = [], acc_owner = SYSTEM_PROGRAM_ID,
      acc_executable = False, acc_rent_epoch = 0\<rparr>"

lemma faucet_stored: "init_faucet (mem_ops cr lc) k [] = Ok [(k, faucet_account k)]"
  by (simp add: init_faucet_def faucet_lamports_def LAMPORTS_PER_SOL_def mul_checked_def mem_store_def
      faucet_account_def Let_def)

definition faucet_node :: "pubkey \<Rightarrow> mem_store node" where
  "faucet_node k = \<lparr>nd_stage = banking_stage_new \<lparr>ch_sent = [], ch_open = True\<rparr> \<lparr>ch_sent = [], ch_open = True\<rparr>
     [(k, faucet_account k)] bank_new, nd_received = 0, nd_running = True,
     nd_exit = False, nd_service = Ok (Running node_poh), nd_recorded = 0\<rparr>"

lemma node_main_runs:
  assumes "\<And>bs. json_bytes (json_text bs) = Some bs" and "\<And>sk. ed_from_bytes ed (ed_to_bytes ed sk) = sk"
  shows "node_main ed json_bytes (keygen ed json_text faucet files) (mem_ops cr lc) [] =
    Ok (faucet_node (keypair_pubkey ed faucet))"
  using assms
  by (simp add: node_main_def load_keypair_def keygen_def keypair_bytes node_start_def faucet_stored node_poh_running
      faucet_node_def)

lemma faucet_node_sel:
  "st_store (nd_stage (faucet_node k)) = [(k, faucet_account k)]" "st_bank (nd_stage (faucet_node k)) = bank_new"
  "st_tracker (nd_stage (faucet_node k)) = cost_tracker_new MAX_BLOCK_UNITS MAX_WRITABLE_ACCOUNT_UNITS"
  "st_tx_sender (nd_stage (faucet_node k)) = \<lparr>ch_sent = [], ch_open = True\<rparr>"
  "nd_running (faucet_node k)" "nd_received (faucet_node k) = 0" "\<not> nd_exit (faucet_node k)"
  by (simp_all add: faucet_node_def banking_stage_new_def)

lemma faucet_node_cache: "st_cache (nd_stage (faucet_node k)) = []"
  by (simp add: faucet_node_def banking_stage_new_def)

lemma faucet_node_inv:
  "stage_inv {#} (nd_stage (faucet_node k))" "good_store cr lc [(k, faucet_account k)]"
  using fresh_tracks lock_inv_new
  by (auto simp: faucet_node_def banking_stage_new_def stage_inv_def good_store_def wf_map_def well_keyed_def
      mem_load_def faucet_account_def split: if_splits)

lemma faucet_seen:
  "acc_lamports (seen (mem_ops cr lc) [(k, faucet_account k)] k') = (if k' = k then 1000000000000 else 0)"
  by (simp add: seen_def mem_load_def default_account_def account_default_def) (simp add: faucet_account_def)

lemma genesis_bank: "\<not> bk_is_frozen bank_new" "hash_default \<in> bi_hash ` set (bk_blockhash_queue bank_new)"
  by (simp_all add: bank_new_def)

section \<open>The properties at work\<close>

definition wire_transfer_tx :: "u64 \<Rightarrow> transaction" where
  "wire_transfer_tx n =
     \<lparr>tx_signatures = [Signature 1],
      tx_message = (tx_message (pay_tx [Pubkey 1, Pubkey 2, SYSTEM_PROGRAM_ID] (Pubkey 1) (Pubkey 2)
        (put_system (SystemTransfer n))))\<rparr>"

lemma wire_keys: "keypair_pubkey wire_ed (Keypair k) = Pubkey k"
  by (simp add: keypair_pubkey_def wire_ed_def)

lemma wire_keys_distinct: "distinct [keypair_pubkey wire_ed (Keypair 1), keypair_pubkey wire_ed (Keypair 2), SYSTEM_PROGRAM_ID]"
  by (simp add: wire_keys SYSTEM_PROGRAM_ID_word)

lemma wire_created:
  "create_transfer_transaction wire_ed (env_system wire_env) message_codec (Keypair 1)
     (keypair_pubkey wire_ed (Keypair 2)) n hash_default = Ok (wire_transfer_tx n)"
  by (simp add: create_transfer_transaction_def wire_keys Let_def wire_env_def system_codec_def
      message_codec_def serialize_for_signing_def sign_message_def wire_transfer_tx_def pay_tx_def)
    (simp add: wire_ed_def)

lemma wire_sent: "\<exists>rq. send_transaction_request wire_lib (wire_transfer_tx n) = Ok rq"
proof -
  have "transaction_valid (wire_transfer_tx n)"
    by (simp add: transaction_valid_def message_valid_def wire_transfer_tx_def pay_tx_def vec_valid_def
        ix_valid_def put_transfer_length)
  then show ?thesis by (simp add: send_transaction_request_def wire_lib_def transaction_codec_def)
qed

lemma wire_laws: "lib_laws wire_lib wire_env"
  using transaction_codec_law text_bytes_char_text decode_encode
  by (simp add: lib_laws_def wire_lib_def wire_env_def system_codec_def system_wire.get_iff [where t = "[]"])

lemma wire_data_len: "data_len (wire_transfer_tx n) = 12"
  by (simp add: data_len_def wire_transfer_tx_def pay_tx_def put_transfer_length)

section \<open>Payments\<close>

text \<open>C2: A client's transfer goes through the node end to end. The transaction the client builds
  against a recent blockhash of the bank, sent as the client sends it, passes the preflight,
  is answered with its signature and queued; the next round of the banking task settles it:
  exactly the two balances move by the amount, the task runs on and the queue is empty.\<close>

theorem client_payment_settles:
  assumes "create_transfer_transaction ed (env_system env) mc kp to n h = Ok tx"
    and "send_transaction_request lib tx = Ok rq"
    and "signs_for ed cr" and "lib_laws lib env"
    and "distinct [keypair_pubkey ed kp, to, SYSTEM_PROGRAM_ID]"
    and "good_store cr lc (st_store (nd_stage nd))"
    and "n \<le> acc_lamports (seen (mem_ops cr lc) (st_store (nd_stage nd)) (keypair_pubkey ed kp))"
    and "queue_inv (st_bank (nd_stage nd))" and "\<not> bk_is_frozen (st_bank (nd_stage nd))"
    and "h \<in> bi_hash ` set (bk_blockhash_queue (st_bank (nd_stage nd)))"
    and "nd_running nd \<and> \<not> nd_exit nd" and "stage_inv L (nd_stage nd)" and "ch_open (st_tx_sender (nd_stage nd))"
    and "nd_received nd = length (ch_sent (st_tx_sender (nd_stage nd)))"
    and "calculate_cost cost_model_new tx = Ok cost" and "would_fit (st_tracker (nd_stage nd)) cost = Ok ()"
  shows "\<exists>nd1 resp. node_request lib env (mem_ops cr lc) rq nd = (Ok resp, nd1) \<and>
    rs_result resp = JString (signature_to_string (lib_b58_encode lib) (hd (tx_signatures tx))) \<and>
    (let nd2 = banking_round env (mem_ops cr lc) cr mc nd1;
         before = \<lambda>k. unat (acc_lamports (seen (mem_ops cr lc) (st_store (nd_stage nd)) k));
         after = \<lambda>k. unat (acc_lamports (seen (mem_ops cr lc) (st_store (nd_stage nd2)) k)) in
     nd_running nd2 \<and> pending nd2 = [] \<and>
     after (keypair_pubkey ed kp) = before (keypair_pubkey ed kp) - unat n \<and>
     after to = min (before to + unat n) (2 ^ 64 - 1) \<and>
     (\<forall>k. k \<noteq> keypair_pubkey ed kp \<longrightarrow> k \<noteq> to \<longrightarrow> after k = before k))"
  using assms by (rule payment_through_node)

theorem client_payment_settles_witness:
  "\<exists>rq nd1 resp. send_transaction_request wire_lib (wire_transfer_tx 3) = Ok rq \<and>
     node_request wire_lib wire_env (mem_ops wire_crypto leaf_codec) rq (faucet_node (Pubkey 1)) = (Ok resp, nd1) \<and>
     unat (acc_lamports (seen (mem_ops wire_crypto leaf_codec)
       (st_store (nd_stage (banking_round wire_env (mem_ops wire_crypto leaf_codec) wire_crypto message_codec nd1)))
       (Pubkey 2))) = 3"
proof -
  let ?so = "mem_ops wire_crypto leaf_codec" and ?nd = "faucet_node (Pubkey 1)"
  obtain rq where rq: "send_transaction_request wire_lib (wire_transfer_tx 3) = Ok rq" using wire_sent by blast
  obtain cost where cost: "calculate_cost cost_model_new (wire_transfer_tx 3) = Ok cost"
    "would_fit (st_tracker (nd_stage ?nd)) cost = Ok ()"
    using transfer_cost [OF wire_created, of 3] by (auto simp: wire_keys wire_data_len faucet_node_sel)
  note nd = faucet_node_sel faucet_node_inv
  from client_payment_settles [OF wire_created rq wire_signs wire_laws wire_keys_distinct, of leaf_codec ?nd "{#}", OF _ _ _ _ _ _ _ _ _ cost]
  obtain nd1 resp where "node_request wire_lib wire_env ?so rq ?nd = (Ok resp, nd1)"
    "unat (acc_lamports (seen ?so (st_store (nd_stage (banking_round wire_env ?so wire_crypto message_codec nd1))) (Pubkey 2))) = 3"
    by (auto simp: nd wire_keys Let_def genesis_bank queue_inv_new faucet_seen)
  with rq show ?thesis by blast
qed

text \<open>C13: What the readme shows of a first run holds of every run. The key file that \<^verbatim>\<open>keygen\<close>
  writes starts a node whose faucet holds a thousand SOL; the client, run against it, pays the
  recipient one million lamports with a transaction over the blockhash the node reports, and,
  once the banking task has had a round, prints the balances 999999000000 and 1000000.\<close>

theorem demonstration_runs:
  assumes "signs_for ed cr" and "lib_laws lib env"
    and "\<forall>bs. json_bytes (json_text bs) = Some bs" and "\<forall>sk. ed_from_bytes ed (ed_to_bytes ed sk) = sk"
    and "distinct [keypair_pubkey ed faucet, keypair_pubkey ed recipient, SYSTEM_PROGRAM_ID]"
    and "create_transfer_transaction ed (env_system env) mc faucet (keypair_pubkey ed recipient) 1000000
      hash_default = Ok tx"
    and "send_transaction_request lib tx = Ok rq" and "data_len tx \<le> 1232"
  shows "\<exists>nd. node_main ed json_bytes (keygen ed json_text faucet files) (mem_ops cr lc) [] = Ok nd \<and>
    fst (client_main ed json_bytes lib (env_system env) mc (node_post lib env (mem_ops cr lc))
      (banking_round env (mem_ops cr lc) cr mc) (keygen ed json_text faucet files) recipient nd) =
    Ok (signature_to_string (lib_b58_encode lib) (hd (tx_signatures tx)), 999999000000, 1000000)"
proof -
  let ?from = "keypair_pubkey ed faucet" and ?to = "keypair_pubkey ed recipient" and ?so = "mem_ops cr lc"
  let ?nd = "faucet_node ?from"
  note stage = faucet_node_sel [of ?from] and inv = faucet_node_inv(1) [of ?from] and seen = faucet_seen [of cr lc ?from]
  have good: "good_store cr lc (st_store (nd_stage ?nd))" by (simp add: stage faucet_node_inv(2))
  have "?from \<noteq> ?to" using assms(5) by simp
  then obtain cost where cost: "calculate_cost cost_model_new tx = Ok cost"
    "would_fit (st_tracker (nd_stage ?nd)) cost = Ok ()"
    using transfer_cost [OF assms(6) _ assms(8)] stage(3) by auto
  obtain nd1 resp where nd1: "node_request lib env ?so rq ?nd = (Ok resp, nd1)"
    "rs_result resp = JString (signature_to_string (lib_b58_encode lib) (hd (tx_signatures tx)))"
    and paid: "unat (acc_lamports (seen ?so (st_store (nd_stage (banking_round env ?so cr mc nd1))) ?from)) = 999999000000"
      "unat (acc_lamports (seen ?so (st_store (nd_stage (banking_round env ?so cr mc nd1))) ?to)) = 1000000"
    using payment_through_node [OF assms(6,7,1,2,5) good _ _ _ _ conjI [OF stage(5,7)] inv _ _ cost] \<open>?from \<noteq> ?to\<close> queue_inv_new
    by (auto simp: seen stage Let_def genesis_bank)
  have amounts: "acc_lamports (seen ?so (st_store (nd_stage (banking_round env ?so cr mc nd1))) ?from) = 999999000000"
    "acc_lamports (seen ?so (st_store (nd_stage (banking_round env ?so cr mc nd1))) ?to) = 1000000"
    using paid by (simp_all add: word_unat_eq_iff)
  have key: "load_keypair ed json_bytes FAUCET_FILE (keygen ed json_text faucet files) = Ok faucet"
    using assms(3,4) by (simp add: load_keypair_def keygen_def keypair_bytes)
  have hash: "get_latest_blockhash lib (node_post lib env ?so) ?nd = (Ok hash_default, ?nd)"
    using client_blockhash [OF assms(2), of ?nd ?so] by (simp add: stage bank_new_def)
  have sent: "send_transaction lib (node_post lib env ?so) tx ?nd =
      (Ok (signature_to_string (lib_b58_encode lib) (hd (tx_signatures tx))), nd1)"
    by (simp add: send_transaction_def assms(7) lift_result_def post_request_def node_post_def nd1
        read_signature_def as_str_def)
  have "fst (client_main ed json_bytes lib (env_system env) mc (node_post lib env ?so)
      (banking_round env ?so cr mc) (keygen ed json_text faucet files) recipient ?nd) =
    Ok (signature_to_string (lib_b58_encode lib) (hd (tx_signatures tx)), 999999000000, 1000000)"
    by (simp add: client_main_def key lift_result_def hash assms(6) sent client_balance [OF assms(2)] amounts Let_def)
  then show ?thesis using node_main_runs [of json_bytes json_text ed faucet files cr lc] assms(3,4) by blast
qed

theorem demonstration_runs_witness:
  "\<exists>nd sig. node_main wire_ed (\<lambda>s. Some (text_bytes s)) (keygen wire_ed char_text (Keypair 1) Map.empty)
       (mem_ops wire_crypto leaf_codec) [] = Ok nd \<and>
     fst (client_main wire_ed (\<lambda>s. Some (text_bytes s)) wire_lib (env_system wire_env) message_codec
       (node_post wire_lib wire_env (mem_ops wire_crypto leaf_codec))
       (banking_round wire_env (mem_ops wire_crypto leaf_codec) wire_crypto message_codec)
       (keygen wire_ed char_text (Keypair 1) Map.empty) (Keypair 2) nd) = Ok (sig, 999999000000, 1000000)"
proof -
  obtain rq where rq: "send_transaction_request wire_lib (wire_transfer_tx 1000000) = Ok rq" using wire_sent by blast
  have json: "\<forall>bs. Some (text_bytes (char_text bs)) = Some bs" by (simp add: text_bytes_char_text)
  have ed: "\<forall>sk. ed_from_bytes wire_ed (ed_to_bytes wire_ed sk) = sk" by (simp add: wire_ed_def)
  from demonstration_runs [OF wire_signs wire_laws json ed wire_keys_distinct wire_created rq, of Map.empty leaf_codec]
  show ?thesis by (auto simp: wire_data_len)
qed

section \<open>Whatever is sent\<close>

lemma banking_end_stops:
  "\<not> nd_running nd \<Longrightarrow> \<exists>nd'. node_exit BankingStageExited nd = Some nd' \<and> node_done (poh_round cr nd')"
  by (auto simp: node_exit_def exit_ready_def node_done_def poh_round_def service_step_def Let_def
      split: result.splits service.splits)

text \<open>C29: A request of any kind changes neither the store nor the bank, and puts at most one
  transaction into the queue: the one a sending request decodes to, and only when its
  simulation succeeded or the request asked to skip it. Every other request leaves the queue.\<close>

theorem requests_guard_queue:
  "case handle_rpc_request lib env so rq st of (r, st') \<Rightarrow>
     rp_store st' = rp_store st \<and> rp_bank st' = rp_bank st \<and>
     (rp_tx_sender st' = rp_tx_sender st \<or>
      (\<exists>tx config. rq_method rq = ''sendTransaction'' \<and> send_params lib (rq_params rq) = Ok (tx, config) \<and>
         (skip_preflight config \<or> fst (simulate_transaction env so (rp_store st) tx (rp_cache st)) = Ok ()) \<and>
         rp_tx_sender st' = (rp_tx_sender st)\<lparr>ch_sent := ch_sent (rp_tx_sender st) @ [tx]\<rparr>))"
  by (rule request_queue)

text \<open>C9: In every state a node reaches by requests and rounds of its banking task, in any order and
  whatever is sent, even after a panic, the store is a map with every account under its own
  key, no account is locked and no freeze lock is held, the banking task has received no more
  than was sent, and the bank is still the first one: its slot is 0 and its only blockhash the
  default one, as nothing in the node makes a new bank.\<close>

theorem node_invariant:
  assumes "node_reachable lib env (mem_ops cr lc) cr mc [] nd"
  shows "good_store cr lc (st_store (nd_stage nd)) \<and> st_locks (nd_stage nd) = locks_new \<and>
    bk_freeze_lock_count (st_bank (nd_stage nd)) = 0 \<and>
    nd_received nd \<le> length (ch_sent (st_tx_sender (nd_stage nd))) \<and>
    \<not> bk_is_frozen (st_bank (nd_stage nd)) \<and> bk_slot (st_bank (nd_stage nd)) = 0 \<and>
    map bi_hash (bk_blockhash_queue (st_bank (nd_stage nd))) = [hash_default] \<and>
    nd_recorded nd \<le> length (ch_sent (st_poh_sender (nd_stage nd))) \<and>
    (\<forall>r. nd_service nd = Ok (Running r) \<longrightarrow> service_reachable cr hash_default
       (take (nd_recorded nd) (ch_sent (st_poh_sender (nd_stage nd)))) r)"
  using node_reachable_inv [OF assms] service_inv_reachable [OF assms]
  by (simp add: node_inv_def service_inv_def same_rules_def bank_new_def)

lemma faucet_node_reachable: "node_reachable lib env (mem_ops cr lc) cr' mc [] (faucet_node k)"
  by (rule node_reachable.start [of _ k]) (simp add: node_start_def faucet_stored node_poh_running faucet_node_def)

theorem node_invariant_witness:
  "\<exists>nd :: mem_store node. nd_received nd = 1 \<and> st_locks (nd_stage nd) = locks_new \<and>
     good_store wire_crypto leaf_codec (st_store (nd_stage nd))"
proof -
  let ?so = "mem_ops wire_crypto leaf_codec"
  obtain rq where rq: "send_transaction_request wire_lib (wire_transfer_tx 3) = Ok rq" using wire_sent by blast
  have "fst (simulate_transaction wire_env ?so [(Pubkey 1, faucet_account (Pubkey 1))] (wire_transfer_tx 3) []) = Ok ()"
    unfolding simulate_value
    using client_transfer_executes [OF wire_created, where budget = 200000 and cache = "[]" and n = 3
        and cells = "map (seen ?so [(Pubkey 1, faucet_account (Pubkey 1))]) (keys_of (wire_transfer_tx 3))"] wire_laws
    by (simp add: transfer_shape(1) [OF wire_created] wire_keys lib_laws_def faucet_seen)
  then obtain nd1 resp where nd1: "node_request wire_lib wire_env ?so rq (faucet_node (Pubkey 1)) = (Ok resp, nd1)"
    "nd_running nd1 \<and> \<not> nd_exit nd1" "nd_received nd1 = 0" "drain [] (pending nd1) = [wire_transfer_tx 3]"
    using request_accepted [OF sent_params [OF rq wire_laws], of wire_env ?so "faucet_node (Pubkey 1)"]
    by (auto simp: faucet_node_sel faucet_node_cache)
  let ?nd = "banking_round wire_env ?so wire_crypto message_codec nd1"
  have "node_reachable wire_lib wire_env ?so wire_crypto message_codec [] ?nd"
    by (rule node_reachable.step [OF node_reachable.step [OF faucet_node_reachable node_step.request [OF nd1(1)]]
          node_step.round])
  from node_invariant [OF this] have "st_locks (nd_stage ?nd) = locks_new"
    "good_store wire_crypto leaf_codec (st_store (nd_stage ?nd))" by blast+
  moreover have "nd_received ?nd = 1" by (simp add: banking_round_def nd1 end_banking_def Let_def split: prod.split)
  ultimately show ?thesis by (intro exI [of _ ?nd]) simp
qed

text \<open>C34: One request stops a node. A transaction without any signature that decodes, has a cost that
  fits, and either simulates well or comes with the request to skip the simulation, is accepted
  and answered with an empty signature; the next round of the banking task panics in the
  recorder. The task is gone, the queue closed, \<^verbatim>\<open>main\<close> sets the flag, and with the next round of
  the proof-of-history service there is nothing left to wait for.\<close>

theorem unsigned_request_stops_node:
  assumes "rq_method rq = ''sendTransaction''" and "send_params lib (rq_params rq) = Ok (tx, config)"
    and "skip_preflight config \<or> fst (simulate_transaction env so (st_store (nd_stage nd)) tx
      (st_cache (nd_stage nd))) = Ok ()"
    and "tx_signatures tx = []" and "ser mc (tx_message tx) = Some bs"
    and "calculate_cost cost_model_new tx = Ok cost" and "would_fit (st_tracker (nd_stage nd)) cost = Ok ()"
    and "stage_inv L (nd_stage nd)" and "ch_open (st_tx_sender (nd_stage nd))" and "nd_running nd \<and> \<not> nd_exit nd"
    and "nd_received nd = length (ch_sent (st_tx_sender (nd_stage nd)))"
  shows "\<exists>nd1 resp. node_request lib env so rq nd = (Ok resp, nd1) \<and> rs_result resp = JString '''' \<and>
    (let nd2 = banking_round env so cr mc nd1 in
     \<not> nd_running nd2 \<and> \<not> ch_open (st_tx_sender (nd_stage nd2)) \<and>
     (\<exists>nd3. node_exit BankingStageExited nd2 = Some nd3 \<and> node_done (poh_round cr nd3)))"
proof -
  obtain nd1 resp cache where nd1: "node_request lib env so rq nd = (Ok resp, nd1)" "rs_result resp = JString ''''"
    "nd_stage nd1 = (nd_stage nd)\<lparr>st_tx_sender := (st_tx_sender (nd_stage nd))\<lparr>ch_sent :=
      ch_sent (st_tx_sender (nd_stage nd)) @ [tx]\<rparr>, st_cache := cache\<rparr>"
    "nd_running nd1 \<and> \<not> nd_exit nd1" "drain [] (pending nd1) = [tx]"
    using request_accepted [OF assms(1-3,9,11)] assms(4,10) by auto
  obtain st where st: "process_batch env so cr mc cost_model_new [tx] (nd_stage nd1) = (Panic, st)"
    using batch_unsigned [OF assms(4-6), where L = L and cr = cr and env = env and so = so and st = "nd_stage nd1"]
      assms(7,8) by (auto simp: nd1(3) stage_inv_def prod_eq_iff)
  define nd2 where "nd2 = banking_round env so cr mc nd1"
  have "\<not> nd_running nd2 \<and> \<not> ch_open (st_tx_sender (nd_stage nd2))"
    by (simp add: nd2_def banking_round_def nd1(4,5) st end_banking_def)
  then show ?thesis using nd1(1,2) banking_end_stops [of nd2 cr] by (auto simp: nd2_def Let_def)
qed

theorem unsigned_request_stops_node_witness:
  "\<exists>nd1 resp. node_request wire_lib wire_env (mem_ops wire_crypto leaf_codec)
     (client_request ''sendTransaction'' (JArray [JString (char_text (put_transaction (signed_tx [])))]))
     (faucet_node (Pubkey 1)) = (Ok resp, nd1) \<and>
   (let nd2 = banking_round wire_env (mem_ops wire_crypto leaf_codec) wire_crypto message_codec nd1 in
    \<not> nd_running nd2 \<and> \<not> ch_open (st_tx_sender (nd_stage nd2)) \<and>
    (\<exists>nd3. node_exit BankingStageExited nd2 = Some nd3 \<and> node_done (poh_round wire_crypto nd3)))"
proof -
  let ?rq = "client_request ''sendTransaction'' (JArray [JString (char_text (put_transaction (signed_tx [])))])"
  have "transaction_valid (signed_tx [])"
    by (simp add: transaction_valid_def message_valid_def signed_tx_def vec_valid_def)
  then have "de transaction_codec (put_transaction (signed_tx [])) = Some (signed_tx [])"
    by (intro transaction_codec_law) (simp add: transaction_codec_def)
  then have params: "send_params wire_lib (rq_params ?rq) = Ok (signed_tx [], send_config_default)"
    by (simp add: send_params_def client_request_def wire_lib_def as_vec_def as_str_def text_bytes_char_text)
  have cost: "calculate_cost cost_model_new (signed_tx []) = Ok tc \<Longrightarrow> would_fit (st_tracker (nd_stage (faucet_node k))) tc = Ok ()"
    if "unat (cost_sum tc) = 0" for tc k
    using that by (simp add: would_fit_Ok_iff fits_account_def cost_tracker_new_def list_all_iff
        word_le_nat_alt saturating_add_exact cost_constants faucet_node_sel)
  have "cost_bounded cost_model_new (signed_tx [])" "write_set (signed_tx []) = []"
    "data_len (signed_tx []) = 0" "execution_units cost_model_new (signed_tx []) = 0"
    by (simp_all add: cost_bounded_def write_set_def declared_keys_def btree_set_def data_len_def
        execution_units_def) (simp_all add: signed_tx_def)
  then obtain tc where tc: "calculate_cost cost_model_new (signed_tx []) = Ok tc" "unat (cost_sum tc) = 0"
    using calculate_cost_exact by (fastforce simp: signed_tx_def)
  have sim: "fst (simulate_transaction wire_env (mem_ops wire_crypto leaf_codec)
      (st_store (nd_stage (faucet_node (Pubkey 1)))) (signed_tx []) (st_cache (nd_stage (faucet_node (Pubkey 1))))) = Ok ()"
    by (simp add: simulate_value execute_instructions_def signed_tx_def)
  have ser: "ser message_codec (tx_message (signed_tx [])) = Some (put_message (tx_message (signed_tx [])))"
    by (simp add: message_codec_def)
  have "rq_method ?rq = ''sendTransaction''" by (simp add: client_request_def)
  from unsigned_request_stops_node [OF this params disjI2 [OF sim] _ ser tc(1) cost [OF tc(2,1)] faucet_node_inv(1), where cr = wire_crypto]
  show ?thesis by (auto simp: faucet_node_sel signed_tx_def)
qed

end
