(* ===== verification/Spec2Isabelle.thy ===== *)
theory Spec2Isabelle
  imports Core_Properties Program_Properties Bank_Properties Batch_Properties Node_Properties
begin

text \<open>
  A verification of tiny-solana, a single-node validator in the style of Agave: a node that
  takes transactions over RPC, groups them, runs them in parallel on native programs against a
  bank, commits their accounts and records their hashes in a proof of history.

  \<^bold>\<open>The parts and how they interact.\<close>
  A client (\<^verbatim>\<open>bin/client.rs\<close>) builds and signs a transaction and sends it to the node
  (\<^verbatim>\<open>rpc/handlers.rs\<close>), which simulates it on the bank and puts it into a queue. The banking
  task (\<^verbatim>\<open>main.rs\<close>) takes up to 128 transactions at a time; the banking stage
  (\<^verbatim>\<open>banking_stage.rs\<close>) verifies their signatures (\<^verbatim>\<open>transactions.rs\<close>), groups them
  (\<^verbatim>\<open>scheduler.rs\<close>), charges them (\<^verbatim>\<open>cost_model.rs\<close>), locks the accounts of a group
  (\<^verbatim>\<open>account_locks.rs\<close>) and the bank against freezing, runs the group on one snapshot of the
  store (\<^verbatim>\<open>bank.rs\<close>), records its hash (\<^verbatim>\<open>tx_recorder.rs\<close>, \<^verbatim>\<open>poh.rs\<close>) and commits the
  overlays (\<^verbatim>\<open>committer.rs\<close>, \<^verbatim>\<open>accounts.rs\<close>). An instruction runs on the executor
  (\<^verbatim>\<open>runtime.rs\<close>), which chooses a native program (\<^verbatim>\<open>programs/\<close>) or a BPF machine, and
  programs call each other through it.

  \<^bold>\<open>Theories and sources.\<close>
  \<^item> \<open>Prelude\<close>: results with panics, checked and saturating arithmetic, little-endian bytes,
    association lists as hash maps, and the laws of codecs as locales.
  \<^item> \<open>Core_Types\<close>, \<open>Base58\<close>: \<^verbatim>\<open>types.rs\<close>, \<^verbatim>\<open>programs/ids.rs\<close>. \<open>Accounts\<close>:
    \<^verbatim>\<open>accounts.rs\<close>, \<^verbatim>\<open>committer.rs\<close>, with the locale \<open>account_store\<close>, its extension for
    total stores, and their interpretations on the in-memory and RocksDB stores.
  \<^item> \<open>Transactions\<close>, \<open>Scheduler\<close>, \<open>Account_Locks\<close>, \<open>Cost_Model\<close>, \<open>Poh\<close>, \<open>Recorder\<close>:
    the files of the same names. Each has its state as a record, its operations in the order of
    the file, and an invariant: the schedule is a partition, the lock table is the sum of the
    guards that are held, the tracker is the sum of the costs it holds, the slot follows the
    ticks and the hash of the recorder is the fold of its history, which it binds.
  \<^item> \<open>Tracked_Lock\<close>, \<open>Lock_Sections\<close>: \<^verbatim>\<open>sync.rs\<close> over the lock of the library, with threads
    that read and write under its guards as a step relation; a section under the write guard is
    one step, and \<^verbatim>\<open>account_locks.rs\<close>, which changes its table key by key, an instance.
  \<^item> \<open>Runtime\<close>, \<open>Syscalls\<close>: \<^verbatim>\<open>runtime.rs\<close>, \<^verbatim>\<open>syscalls.rs\<close>. The accounts of a transaction are
    a heap of cells, and an account info holds the index of its cell, so that two infos may share
    one, as the \<^verbatim>\<open>Rc<RefCell<Account>>\<close> of the code do.
  \<^item> \<open>System_Program\<close>, \<open>Token_Program\<close>, \<open>Bpf_Loader\<close>: the native programs, every
    instruction; \<open>Token_Ledger\<close> is the abstract ledger the token program refines, and
    \<open>Loader_Laws\<close> what the loader's states guarantee.
  \<^item> \<open>Executor\<close>, \<open>Executor_Laws\<close>: the three executors tied together, and the soundness of every
    instruction (keys kept, no lamports created) by induction over the levels of calls.
  \<^item> \<open>Wire\<close>, \<open>Node_Wire\<close>: the documented byte formats as put and get functions with a locale of
    round trips, the instances the witnesses run on.
  \<^item> \<open>Bank\<close>, \<open>Bank_Laws\<close>, \<open>Supply\<close>, \<open>Freeze_Protocol\<close>: \<^verbatim>\<open>bank.rs\<close>; chains of banks,
    transactions as overlays, groups against sequential runs, the lamports of a store, and
    freezing interleaved with workers as a step relation with a reachability invariant.
  \<^item> \<open>Banking_Stage\<close>: \<^verbatim>\<open>banking_stage.rs\<close>. \<open>Banking_Laws\<close> (relations every step keeps, by
    the locales \<open>stage_relation\<close> and \<open>requeue_relation\<close>), \<open>Batch_Progress\<close> (when a batch
    completes), \<open>Batch_Single\<close> and \<open>Batch_Serial\<close> (what it leaves).
  \<^item> \<open>Rpc\<close>, \<open>Client\<close>, \<open>Node\<close>: \<^verbatim>\<open>rpc/\<close>, \<^verbatim>\<open>bin/\<close>, \<^verbatim>\<open>main.rs\<close>; \<open>Node_Laws\<close> (a client's
    transfer and what requests leave in the queue) and \<open>Node_Invariant\<close> (requests, rounds of the
    banking task and of the proof-of-history service, and the events that end the node, in any
    order, as a step relation with its invariants).
  \<^item> \<open>Core_Properties\<close>, \<open>Program_Properties\<close>, \<open>Bank_Properties\<close>, \<open>Batch_Properties\<close>,
    \<open>Node_Properties\<close>: the properties C1, C2 and so on, each with a witness.

  \<^bold>\<open>What the properties show.\<close>
  A completed batch is serialisable and never creates lamports when its transactions declare what
  they touch; batches of system transactions always complete; locks are always given back. Native
  instructions create no lamports, the system program debits signers only, the token program
  refines a ledger and conserves tokens. The Merkle root is that of the complete tree and does not
  depend on the order of the map. The properties of error kind pin down where the code fails:
  a payer listed twice, a token transfer to itself, unsigned and over-signed transactions, calls
  between programs, BPF programs, the race between freezing and the banking stage. Of a running
  node they show what stays true whatever is sent to it, that a client's payment settles, and that
  the chain of the proof of history contains the groups in the order they were recorded.

  \<^bold>\<open>Choices and bounds.\<close>
  Machine integers are words; additions and multiplications the code leaves unchecked panic on
  overflow, as in the debug profile \<^verbatim>\<open>cargo run\<close> builds. A fallible function gives \<open>Ok\<close>,
  \<open>Err\<close> or \<open>Panic\<close>; a function on a state gives the state it leaves in each of the three
  cases. Calls between programs nest at most two levels, as the called program is always the
  system program, so \<open>execute_program\<close> is the executor at two levels, and it is proved to be the
  fixed point the code ties. The loops of the Merkle tree and of the scheduler terminate by a
  measure. Libraries (Ed25519, SHA-256, bincode, Base58, Base64, JSON text, RocksDB, the BPF
  machine, sysvars) are parameters, with their documented laws as hypotheses where a property
  needs them. The members of a parallel group run one after another: they share a snapshot they
  do not write, and results do not depend on the executor's cache, which is proved. Threads are
  interleaved where they share what they write, in \<open>Freeze_Protocol\<close> and \<open>Tracked_Lock\<close>; requests
  and rounds of the two tasks interleave as whole steps in \<open>Node\<close>. Times are numbers the clock
  gives, with no relation assumed between them.

  \<^bold>\<open>Not modelled.\<close>
  \<^verbatim>\<open>metrics.rs\<close> (a comment), \<^verbatim>\<open>rpc/server.rs\<close> (routing and sockets), module declarations,
  the log of the tasks, how the libraries schedule threads and tasks, random key generation, the
  \<^verbatim>\<open>Debug\<close> forms, and constants nothing uses.
\<close>

end
